(* ===== verification/Rust_Base.thy ===== *)
theory Rust_Base
  imports Main "HOL-Library.Word"
begin

unbundle bit_operations_syntax

text \<open>
  The prelude: what the scheduler uses of the Rust language itself.

  \<^item> the fixed-width integers (\<open>u64\<close> is \<open>64 word\<close>), \<open>checked_add\<close>, \<open>checked_sub\<close> and the
    plain operators \<open>+\<close> and \<open>-\<close>, which panic or wrap depending on the build profile
    (the flag \<open>chk\<close> is \<open>overflow-checks\<close>: on in a debug or test build, off in a
    release build);
  \<^item> \<open>Result\<close> with the error type of ckb-vm, and panics, which are not errors: \<open>?\<close> and
    \<open>match\<close> see the former and never the latter;
  \<^item> programs over a mutable state as state passing. The state of a failed call is kept,
    as the callers of the scheduler keep it (\<open>run\<close> is called again after
    \<open>CyclesExceeded\<close>);
  \<^item> weakest preconditions of such programs, with which the components are verified: the
    collection \<open>wp_simps\<close> computes them, \<open>wp_mono\<close> and \<open>wp_for_each\<close> cut them.
\<close>

section \<open>Integers\<close>

type_synonym u8 = "8 word"
type_synonym i8 = "8 word"
type_synonym u32 = "32 word"
type_synonym u64 = "64 word"

definition checked_add :: "u64 \<Rightarrow> u64 \<Rightarrow> u64 option" where
  "checked_add a b = (if unat a + unat b < 2 ^ 64 then Some (a + b) else None)"

definition checked_sub :: "u64 \<Rightarrow> u64 \<Rightarrow> u64 option" where
  "checked_sub a b = (if b \<le> a then Some (a - b) else None)"

definition u64_max :: u64 where
  "u64_max = - 1"

text \<open>\<open>u64::from_i8\<close> (ckb-vm's register trait): sign extension.\<close>

definition from_i8 :: "i8 \<Rightarrow> u64" where
  "from_i8 c = scast c"

lemma checked_add_Some_iff:
  "checked_add a b = Some c \<longleftrightarrow> unat a + unat b < 2 ^ 64 \<and> c = a + b"
  by (auto simp: checked_add_def)

lemma checked_add_unat:
  "checked_add a b = Some c \<Longrightarrow> unat c = unat a + unat b"
  by (auto simp: checked_add_def unat_word_ariths split: if_splits)

lemma checked_sub_self [simp]: "checked_sub a a = Some 0"
  by (simp add: checked_sub_def)

lemma unat_add_u64: "unat (a + b :: u64) = (unat a + unat b) mod 2 ^ 64"
  by (simp add: unat_word_ariths)

lemma unat_add_small:
  "unat a + unat b < 2 ^ 64 \<Longrightarrow> unat (a + b :: u64) = unat a + unat b"
  by (simp add: unat_add_u64)

lemma unat_bound_u64: "unat (a :: u64) < 2 ^ 64"
  using unsigned_less [of a] by simp

section \<open>Results, panics and programs over a state\<close>

text \<open>
  The messages of \<open>Error::Unexpected\<close> are formatted strings that no code reads; each is
  a constructor of \<open>unexpected\<close> holding the values it prints.
\<close>

datatype unexpected =
    Deadlock
  | NotPipeOwner u64 u64
  | TooManyInstantiated nat nat
  | NotSuspended u64
  | NotInstantiated u64
  | SelectVersionFailed string
  | InputDataMissing nat
  | DepDataMissing nat
  | OutOfMaxCycles u64 u64
  | NonZeroExit "8 word"
  | ScriptError
  | OtherUnexpected string

text \<open>The variants of \<open>ckb_vm::Error\<close> the scheduler names, and all the others.\<close>

datatype vm_error =
    CyclesExceeded
  | CyclesOverflow
  | Paused
  | MemOutOfBound
  | External string
  | Unexpected unexpected
  | OtherError nat

datatype panic =
    AssertFailed
  | UnwrapNone
  | MissingKey
  | ArithOverflow
  | CapacityOverflow
  | Unreachable
  | Diverges
  | ForeignPanic nat

datatype 'a res = Ok 'a | Err vm_error | Panic panic

type_synonym ('s, 'a) prog = "'s \<Rightarrow> 'a res \<times> 's"

definition ret :: "'a \<Rightarrow> ('s, 'a) prog" where
  "ret a s = (Ok a, s)"

definition fail :: "vm_error \<Rightarrow> ('s, 'a) prog" where
  "fail e s = (Err e, s)"

definition panic :: "panic \<Rightarrow> ('s, 'a) prog" where
  "panic k s = (Panic k, s)"

definition lift_res :: "'a res \<Rightarrow> ('s, 'a) prog" where
  "lift_res r s = (r, s)"

definition and_then :: "('s, 'a) prog \<Rightarrow> ('a \<Rightarrow> ('s, 'b) prog) \<Rightarrow> ('s, 'b) prog" where
  "and_then f g s = (case f s of
     (Ok a, s') \<Rightarrow> g a s' | (Err e, s') \<Rightarrow> (Err e, s') | (Panic k, s') \<Rightarrow> (Panic k, s'))"

definition gets :: "('s \<Rightarrow> 'a) \<Rightarrow> ('s, 'a) prog" where
  "gets f s = (Ok (f s), s)"

definition modify :: "('s \<Rightarrow> 's) \<Rightarrow> ('s, unit) prog" where
  "modify f s = (Ok (), f s)"

definition assert :: "bool \<Rightarrow> ('s, unit) prog" where
  "assert b = (if b then ret () else panic AssertFailed)"

definition unwrap :: "panic \<Rightarrow> 'a option \<Rightarrow> ('s, 'a) prog" where
  "unwrap k x = (case x of None \<Rightarrow> panic k | Some a \<Rightarrow> ret a)"

definition ok_or :: "vm_error \<Rightarrow> 'a option \<Rightarrow> ('s, 'a) prog" where
  "ok_or e x = (case x of None \<Rightarrow> fail e | Some a \<Rightarrow> ret a)"

text \<open>A call whose \<open>Result\<close> is bound to a variable instead of being propagated by \<open>?\<close>.\<close>

definition attempt :: "('s, 'a) prog \<Rightarrow> ('s, 'a res) prog" where
  "attempt f s = (case f s of
     (Ok a, s') \<Rightarrow> (Ok (Ok a), s') | (Err e, s') \<Rightarrow> (Ok (Err e), s')
   | (Panic k, s') \<Rightarrow> (Panic k, s'))"

text \<open>A \<open>for\<close> loop whose body may return early with an error.\<close>

fun for_each :: "('a \<Rightarrow> ('s, unit) prog) \<Rightarrow> 'a list \<Rightarrow> ('s, unit) prog" where
  "for_each f [] = ret ()"
| "for_each f (x # xs) = and_then (f x) (\<lambda>_. for_each f xs)"

text \<open>The operators \<open>+\<close> and \<open>-\<close> on \<open>u64\<close>.\<close>

definition add_u64 :: "bool \<Rightarrow> u64 \<Rightarrow> u64 \<Rightarrow> ('s, u64) prog" where
  "add_u64 chk a b =
     (if chk \<and> \<not> unat a + unat b < 2 ^ 64 then panic ArithOverflow else ret (a + b))"

definition sub_u64 :: "bool \<Rightarrow> u64 \<Rightarrow> u64 \<Rightarrow> ('s, u64) prog" where
  "sub_u64 chk a b = (if chk \<and> a < b then panic ArithOverflow else ret (a - b))"

lemma and_then_value:
  "and_then (ret a) g s = g a s" "and_then (gets f) g s = g (f s) s"
  "and_then (modify h) k s = k () (h s)"
  "and_then (fail e) g' s = (Err e, s)" "and_then (panic c) g'' s = (Panic c, s)"
  by (simp_all add: and_then_def ret_def gets_def modify_def fail_def panic_def)

lemma add_u64_ok: "unat a + unat b < 2 ^ 64 \<Longrightarrow> add_u64 chk a b = ret (a + b)"
  by (simp add: add_u64_def)

lemma sub_u64_ok: "b \<le> a \<Longrightarrow> sub_u64 chk a b = ret (a - b)"
  by (auto simp: sub_u64_def)

lemma and_then_assoc: "and_then (and_then f g) h = and_then f (\<lambda>a. and_then (g a) h)"
  by (simp add: and_then_def fun_eq_iff split: prod.splits res.splits)

lemma and_then_ret: "and_then f ret = f"
  by (simp add: and_then_def ret_def fun_eq_iff split: prod.splits res.splits)

lemma and_then_ret_left: "and_then (ret a) g = g a"
  by (simp add: and_then_def ret_def fun_eq_iff)

section \<open>Which panics a program can raise\<close>

definition panics_in :: "(panic \<Rightarrow> bool) \<Rightarrow> ('s, 'a) prog \<Rightarrow> bool" where
  "panics_in X f \<longleftrightarrow> (\<forall>s k. fst (f s) = Panic k \<longrightarrow> X k)"

named_theorems panics_intros

lemma panics_in_pure [panics_intros]:
  "panics_in X (ret a)" "panics_in X (fail e)" "panics_in X (gets g)" "panics_in X (modify h)"
  "panics_in X (ok_or e x)" "X k \<Longrightarrow> panics_in X (panic k)"
  by (auto simp: panics_in_def ret_def fail_def gets_def modify_def ok_or_def panic_def
      split: option.splits)

lemma panics_in_arith [panics_intros]:
  "X ArithOverflow \<Longrightarrow> panics_in X (add_u64 chk a b)"
  "X ArithOverflow \<Longrightarrow> panics_in X (sub_u64 chk a b)"
  by (simp_all add: add_u64_def sub_u64_def panics_in_pure)

lemma panics_in_and_then [panics_intros]:
  "panics_in X f \<Longrightarrow> (\<And>a. panics_in X (g a)) \<Longrightarrow> panics_in X (and_then f g)"
  by (auto simp: panics_in_def and_then_def split: prod.splits res.splits) (metis fst_conv)+

lemma panics_in_lift_res [panics_intros]: "(\<And>k. r = Panic k \<Longrightarrow> X k) \<Longrightarrow> panics_in X (lift_res r)"
  by (simp add: panics_in_def lift_res_def)

lemma panics_in_attempt_then:
  assumes "panics_in X f" and "\<And>a. panics_in X (g (Ok a))" and "\<And>e. panics_in X (g (Err e))"
  shows "panics_in X (and_then (attempt f) g)"
  unfolding panics_in_def
proof (intro allI impI)
  fix s k assume p: "fst (and_then (attempt f) g s) = Panic k"
  obtain r s' where f: "f s = (r, s')" by fastforce
  show "X k"
  proof (cases r)
    case (Panic k')
    with p f have "fst (f s) = Panic k" by (simp add: and_then_def attempt_def)
    with assms(1) show ?thesis by (simp add: panics_in_def)
  qed (use p f assms(2,3) in \<open>auto simp: and_then_def attempt_def panics_in_def\<close>)
qed

lemma panics_in_if [panics_intros]:
  "panics_in X f \<Longrightarrow> panics_in X g \<Longrightarrow> panics_in X (if b then f else g)"
  by simp

lemma panics_in_split [panics_intros]:
  "(\<And>a b. panics_in X (f a b)) \<Longrightarrow> panics_in X (case p of (a, b) \<Rightarrow> f a b)"
  by (cases p) simp

section \<open>Weakest preconditions\<close>

text \<open>
  \<open>wp f Q E X s\<close>: started in \<open>s\<close>, \<open>f\<close> ends in \<open>Ok\<close> with \<open>Q\<close>, in \<open>Err\<close> with \<open>E\<close> or in a
  panic allowed by \<open>X\<close>. A panic unwinds, so nothing is said of the state it leaves.
\<close>

definition wp :: "('s, 'a) prog \<Rightarrow> ('a \<Rightarrow> 's \<Rightarrow> bool) \<Rightarrow> (vm_error \<Rightarrow> 's \<Rightarrow> bool) \<Rightarrow>
    (panic \<Rightarrow> bool) \<Rightarrow> 's \<Rightarrow> bool" where
  "wp f Q E X s = (case f s of
     (Ok a, s') \<Rightarrow> Q a s' | (Err e, s') \<Rightarrow> E e s' | (Panic k, s') \<Rightarrow> X k)"

named_theorems wp_simps

lemma wp_ret [wp_simps]: "wp (ret a) Q E X s = Q a s"
  by (simp add: wp_def ret_def)

lemma wp_fail [wp_simps]: "wp (fail e) Q E X s = E e s"
  by (simp add: wp_def fail_def)

lemma wp_panic [wp_simps]: "wp (panic k) Q E X s = X k"
  by (simp add: wp_def panic_def)

lemma wp_and_then [wp_simps]:
  "wp (and_then f g) Q E X s = wp f (\<lambda>a. wp (g a) Q E X) E X s"
  by (simp add: wp_def and_then_def split: prod.splits res.splits)

lemma wp_gets [wp_simps]: "wp (gets f) Q E X s = Q (f s) s"
  by (simp add: wp_def gets_def)

lemma wp_modify [wp_simps]: "wp (modify f) Q E X s = Q () (f s)"
  by (simp add: wp_def modify_def)

lemma wp_assert [wp_simps]: "wp (assert b) Q E X s = (if b then Q () s else X AssertFailed)"
  by (simp add: assert_def wp_simps)

lemma wp_unwrap [wp_simps]:
  "wp (unwrap k x) Q E X s = (case x of None \<Rightarrow> X k | Some a \<Rightarrow> Q a s)"
  by (simp add: unwrap_def wp_simps split: option.splits)

lemma wp_ok_or [wp_simps]:
  "wp (ok_or e x) Q E X s = (case x of None \<Rightarrow> E e s | Some a \<Rightarrow> Q a s)"
  by (simp add: ok_or_def wp_simps split: option.splits)

lemma wp_lift_res [wp_simps]:
  "wp (lift_res r) Q E X s = (case r of Ok a \<Rightarrow> Q a s | Err e \<Rightarrow> E e s | Panic k \<Rightarrow> X k)"
  by (simp add: wp_def lift_res_def split: res.splits)

lemma wp_attempt [wp_simps]:
  "wp (attempt f) Q E X s = wp f (\<lambda>a. Q (Ok a)) (\<lambda>e. Q (Err e)) X s"
  by (simp add: wp_def attempt_def split: prod.splits res.splits)

lemma wp_add_u64 [wp_simps]:
  "wp (add_u64 chk a b) Q E X s =
     (if chk \<and> \<not> unat a + unat b < 2 ^ 64 then X ArithOverflow else Q (a + b) s)"
  by (auto simp: add_u64_def wp_simps)

lemma wp_sub_u64 [wp_simps]:
  "wp (sub_u64 chk a b) Q E X s = (if chk \<and> a < b then X ArithOverflow else Q (a - b) s)"
  by (auto simp: sub_u64_def wp_simps)

lemma wp_if [wp_simps]:
  "wp (if b then f else g) Q E X s = (if b then wp f Q E X s else wp g Q E X s)"
  by simp

lemma wp_mono:
  assumes "wp f Q E X s"
    and "\<And>a s'. Q a s' \<Longrightarrow> Q' a s'" and "\<And>e s'. E e s' \<Longrightarrow> E' e s'" and "\<And>k. X k \<Longrightarrow> X' k"
  shows "wp f Q' E' X' s"
  using assms by (auto simp: wp_def split: prod.splits res.splits)

lemma wp_seq:
  assumes "wp f Q' E' X s" and "\<And>a s'. Q' a s' \<Longrightarrow> wp (g a) Q E X s'"
    and "\<And>e s'. E' e s' \<Longrightarrow> E e s'"
  shows "wp (and_then f g) Q E X s"
  unfolding wp_and_then by (rule wp_mono [OF assms(1)]) (use assms(2,3) in auto)

text \<open>The first step of a sequence, when the rest is kept as a program.\<close>

lemma wp_first:
  "wp (and_then (ret a) g) Q E X s = wp (g a) Q E X s"
  "wp (and_then (gets f) g) Q E X s = wp (g (f s)) Q E X s"
  "wp (and_then (modify h) g') Q E X s = wp (g' ()) Q E X (h s)"
  "wp (and_then (assert b) g') Q E X s = (if b then wp (g' ()) Q E X s else X AssertFailed)"
  "wp (and_then (add_u64 chk x y) k) Q E X s =
     (if chk \<and> \<not> unat x + unat y < 2 ^ 64 then X ArithOverflow else wp (k (x + y)) Q E X s)"
  "wp (and_then (sub_u64 chk x y) k) Q E X s =
     (if chk \<and> x < y then X ArithOverflow else wp (k (x - y)) Q E X s)"
  by (simp_all only: wp_simps)

lemma wp_known: "f s = (Ok a, s') \<Longrightarrow> wp (and_then f g) Q E X s = wp (g a) Q E X s'"
  by (simp add: wp_def and_then_def)

lemma wp_conj:
  "wp f Q E X s \<Longrightarrow> wp f Q' E' X s \<Longrightarrow>
   wp f (\<lambda>a s. Q a s \<and> Q' a s) (\<lambda>e s. E e s \<and> E' e s) X s"
  by (auto simp: wp_def split: prod.splits res.splits)

text \<open>A loop whose iterations work on disjoint parts: \<open>I D\<close> holds when the parts \<open>D\<close> are done.\<close>

lemma wp_for_each_parts:
  assumes step: "\<And>x D s. x \<in> set xs \<Longrightarrow> I D s \<Longrightarrow> T x \<inter> D = {} \<Longrightarrow> wp (f x) (\<lambda>_. I (D \<union> T x)) E X s"
    and "distinct xs" and "\<And>x y. x \<in> set xs \<Longrightarrow> y \<in> set xs \<Longrightarrow> x \<noteq> y \<Longrightarrow> T x \<inter> T y = {}"
    and "\<And>x. x \<in> set xs \<Longrightarrow> T x \<inter> D = {}" and "I D s"
  shows "wp (for_each f xs) (\<lambda>_. I (D \<union> \<Union> (T ` set xs))) E X s"
  using assms
proof (induction xs arbitrary: D s)
  case Nil
  then show ?case by (simp add: wp_ret)
next
  case (Cons x xs)
  have "wp (for_each f xs) (\<lambda>_. I ((D \<union> T x) \<union> \<Union> (T ` set xs))) E X s'" if "I (D \<union> T x) s'" for s'
  proof (rule Cons.IH)
    show "T y \<inter> (D \<union> T x) = {}" if "y \<in> set xs" for y
      using that Cons.prems(2,3,4) by (metis Int_Un_distrib Un_empty distinct.simps(2) list.set_intros)
  qed (use Cons.prems(1-3) that in auto)
  moreover have "wp (f x) (\<lambda>_. I (D \<union> T x)) E X s" using Cons.prems by auto
  ultimately show ?case
    by (auto simp: wp_and_then Un_assoc intro: wp_mono)
qed

lemma for_each_append: "for_each f (xs @ ys) = and_then (for_each f xs) (\<lambda>_. for_each f ys)"
  by (induction xs) (simp_all add: and_then_assoc and_then_ret_left)

lemma wp_for_each:
  assumes step: "\<And>x s. x \<in> set xs \<Longrightarrow> I s \<Longrightarrow> wp (f x) (\<lambda>_. I) E X s" and "I s"
  shows "wp (for_each f xs) (\<lambda>_. I) E X s"
  using assms
proof (induction xs arbitrary: s)
  case Nil
  then show ?case by (simp add: wp_simps)
next
  case (Cons x xs)
  have "wp (f x) (\<lambda>_. I) E X s" using Cons.prems by simp
  moreover have "wp (for_each f xs) (\<lambda>_. I) E X s'" if "I s'" for s'
    using that Cons.prems(1) by (intro Cons.IH) auto
  ultimately show ?case by (auto simp: wp_simps elim: wp_mono)
qed

lemma wpD_Ok: "wp f Q E X s \<Longrightarrow> f s = (Ok a, s') \<Longrightarrow> Q a s'"
  by (simp add: wp_def)

lemma wpD_Err: "wp f Q E X s \<Longrightarrow> f s = (Err e, s') \<Longrightarrow> E e s'"
  by (simp add: wp_def)

lemma wpD_Panic: "wp f Q E X s \<Longrightarrow> f s = (Panic k, s') \<Longrightarrow> X k"
  by (simp add: wp_def)

lemma wpI:
  assumes "\<And>a s'. f s = (Ok a, s') \<Longrightarrow> Q a s'" and "\<And>e s'. f s = (Err e, s') \<Longrightarrow> E e s'"
    and "\<And>k s'. f s = (Panic k, s') \<Longrightarrow> X k"
  shows "wp f Q E X s"
  using assms by (auto simp: wp_def split: prod.splits res.splits)

text \<open>Programs that cannot change a part \<open>p\<close> of the state, whatever they return.\<close>

definition keeps :: "('s \<Rightarrow> 'p) \<Rightarrow> ('s, 'a) prog \<Rightarrow> bool" where
  "keeps p f \<longleftrightarrow> (\<forall>s. p (snd (f s)) = p s)"

named_theorems keeps_intros

lemma keepsD: "keeps p f \<Longrightarrow> f s = (r, s') \<Longrightarrow> p s' = p s"
  by (auto simp: keeps_def dest: spec [of _ s])

lemma keeps_pure [keeps_intros]:
  "keeps p (ret a)" "keeps p (fail e)" "keeps p (panic k)" "keeps p (gets g)"
  "keeps p (assert b)" "keeps p (lift_res r)"
  by (simp_all add: keeps_def ret_def fail_def panic_def gets_def assert_def lift_res_def)

lemma keeps_unwrap [keeps_intros]: "keeps p (unwrap k x)" "keeps p (ok_or e x)"
  by (simp_all add: keeps_def unwrap_def ok_or_def ret_def fail_def panic_def split: option.splits)

lemma keeps_arith [keeps_intros]: "keeps p (add_u64 c a b)" "keeps p (sub_u64 c a b)"
  by (simp_all add: keeps_def add_u64_def sub_u64_def ret_def panic_def)

lemma keeps_and_then [keeps_intros]:
  "keeps p f \<Longrightarrow> (\<And>a. keeps p (g a)) \<Longrightarrow> keeps p (and_then f g)"
  by (simp add: keeps_def and_then_def split: prod.splits res.splits) (metis snd_conv)

lemma keeps_attempt [keeps_intros]: "keeps p f \<Longrightarrow> keeps p (attempt f)"
  by (simp add: keeps_def attempt_def split: prod.splits res.splits) (metis snd_conv)

lemma keeps_modify [keeps_intros]: "(\<And>s. p (g s) = p s) \<Longrightarrow> keeps p (modify g)"
  by (simp add: keeps_def modify_def)

lemma keeps_if [keeps_intros]:
  "(b \<Longrightarrow> keeps p f) \<Longrightarrow> (\<not> b \<Longrightarrow> keeps p g) \<Longrightarrow> keeps p (if b then f else g)"
  by simp

lemma keeps_for_each [keeps_intros]:
  "(\<And>x. x \<in> set xs \<Longrightarrow> keeps p (f x)) \<Longrightarrow> keeps p (for_each f xs)"
  by (induction xs) (auto intro: keeps_intros)

text \<open>The operations unfolded to values, for evaluation at concrete inputs.\<close>

lemmas prog_defs = ret_def fail_def panic_def lift_res_def and_then_def gets_def modify_def
  assert_def unwrap_def ok_or_def attempt_def add_u64_def sub_u64_def

end
