(* ===== verification/Rust_Maps.thy ===== *)
theory Rust_Maps
  imports Rust_Base
begin

text \<open>
  The maps of the standard library the scheduler keeps its state in.

  \<^item> \<open>BTreeMap\<close> iterates in key order, which the scheduler relies on to be deterministic
    (\<open>states.iter().rev()\<close>, \<open>instantiated.keys()\<close>, \<open>first_entry\<close>): an association list
    kept sorted by key.
  \<^item> \<open>HashMap\<close> iterates in no particular order: an association list whose order carries no
    meaning. Only \<open>suspend\<close> ever iterates over one, to write it out.

  Both are implementations of one interface, the locale \<open>finite_map\<close>: what a lookup
  returns after each operation. The rest of the development reads the maps through these
  laws, collected in \<open>map_laws\<close>.
\<close>

section \<open>BTreeMap\<close>

type_synonym ('k, 'v) btree = "('k \<times> 'v) list"

definition bt_get :: "('k, 'v) btree \<Rightarrow> 'k \<Rightarrow> 'v option" where
  "bt_get m k = map_of m k"

definition bt_contains :: "('k, 'v) btree \<Rightarrow> 'k \<Rightarrow> bool" where
  "bt_contains m k = (bt_get m k \<noteq> None)"

fun bt_insert :: "'k::linorder \<Rightarrow> 'v \<Rightarrow> ('k, 'v) btree \<Rightarrow> ('k, 'v) btree" where
  "bt_insert k v [] = [(k, v)]"
| "bt_insert k v ((a, b) # m) =
     (if k < a then (k, v) # (a, b) # m
      else if k = a then (k, v) # m
      else (a, b) # bt_insert k v m)"

definition bt_retain :: "('k \<Rightarrow> 'v \<Rightarrow> bool) \<Rightarrow> ('k, 'v) btree \<Rightarrow> ('k, 'v) btree" where
  "bt_retain p m = filter (\<lambda>(k, v). p k v) m"

definition bt_remove :: "'k \<Rightarrow> ('k, 'v) btree \<Rightarrow> ('k, 'v) btree" where
  "bt_remove k m = bt_retain (\<lambda>k' _. k' \<noteq> k) m"

definition bt_keys :: "('k, 'v) btree \<Rightarrow> 'k list" where
  "bt_keys m = map fst m"

definition bt_first_key :: "('k, 'v) btree \<Rightarrow> 'k option" where
  "bt_first_key m = (case m of [] \<Rightarrow> None | (k, _) # _ \<Rightarrow> Some k)"

definition bt_collect :: "('k::linorder \<times> 'v) list \<Rightarrow> ('k, 'v) btree" where
  "bt_collect kvs = fold (\<lambda>(k, v). bt_insert k v) kvs []"

definition bt_wf :: "('k::linorder, 'v) btree \<Rightarrow> bool" where
  "bt_wf m \<longleftrightarrow> sorted (bt_keys m) \<and> distinct (bt_keys m)"

section \<open>HashMap\<close>

type_synonym ('k, 'v) hashmap = "('k \<times> 'v) list"

definition hm_get :: "('k, 'v) hashmap \<Rightarrow> 'k \<Rightarrow> 'v option" where
  "hm_get m k = map_of m k"

definition hm_contains :: "('k, 'v) hashmap \<Rightarrow> 'k \<Rightarrow> bool" where
  "hm_contains m k = (hm_get m k \<noteq> None)"

fun hm_insert :: "'k \<Rightarrow> 'v \<Rightarrow> ('k, 'v) hashmap \<Rightarrow> ('k, 'v) hashmap" where
  "hm_insert k v [] = [(k, v)]"
| "hm_insert k v ((a, b) # m) = (if k = a then (k, v) # m else (a, b) # hm_insert k v m)"

definition hm_retain :: "('k \<Rightarrow> 'v \<Rightarrow> bool) \<Rightarrow> ('k, 'v) hashmap \<Rightarrow> ('k, 'v) hashmap" where
  "hm_retain p m = filter (\<lambda>(k, v). p k v) m"

definition hm_remove :: "'k \<Rightarrow> ('k, 'v) hashmap \<Rightarrow> ('k, 'v) hashmap" where
  "hm_remove k m = hm_retain (\<lambda>k' _. k' \<noteq> k) m"

definition hm_keys :: "('k, 'v) hashmap \<Rightarrow> 'k list" where
  "hm_keys m = map fst m"

definition hm_collect :: "('k \<times> 'v) list \<Rightarrow> ('k, 'v) hashmap" where
  "hm_collect kvs = fold (\<lambda>(k, v). hm_insert k v) kvs []"

definition hm_wf :: "('k, 'v) hashmap \<Rightarrow> bool" where
  "hm_wf m \<longleftrightarrow> distinct (hm_keys m)"

section \<open>The interface\<close>

locale finite_map =
  fixes lookup :: "'m \<Rightarrow> 'k \<Rightarrow> 'v option"
    and empty :: 'm
    and upd :: "'k \<Rightarrow> 'v \<Rightarrow> 'm \<Rightarrow> 'm"
    and del :: "'k \<Rightarrow> 'm \<Rightarrow> 'm"
    and ret :: "('k \<Rightarrow> 'v \<Rightarrow> bool) \<Rightarrow> 'm \<Rightarrow> 'm"
    and entries :: "'m \<Rightarrow> ('k \<times> 'v) list"
    and inv :: "'m \<Rightarrow> bool"
  assumes lookup_empty: "lookup empty k = None"
    and lookup_upd: "lookup (upd k v m) k' = (if k' = k then Some v else lookup m k')"
    and lookup_del: "lookup (del k m) k' = (if k' = k then None else lookup m k')"
    and lookup_ret: "inv m \<Longrightarrow> lookup (ret p m) k =
          (case lookup m k of None \<Rightarrow> None | Some v \<Rightarrow> if p k v then Some v else None)"
    and lookup_entries: "inv m \<Longrightarrow> (k, v) \<in> set (entries m) \<longleftrightarrow> lookup m k = Some v"
    and distinct_entries: "inv m \<Longrightarrow> distinct (map fst (entries m))"
    and inv_empty: "inv empty"
    and inv_upd: "inv m \<Longrightarrow> inv (upd k v m)"
    and inv_del: "inv m \<Longrightarrow> inv (del k m)"
    and inv_ret: "inv m \<Longrightarrow> inv (ret p m)"
begin

lemma lookup_collect:
  "lookup (fold (\<lambda>(k, v). upd k v) kvs m) k =
     (case map_of (rev kvs) k of None \<Rightarrow> lookup m k | Some v \<Rightarrow> Some v)"
  by (induction kvs arbitrary: m) (auto simp: lookup_upd map_add_def split: option.splits)

lemma inv_collect: "inv m \<Longrightarrow> inv (fold (\<lambda>(k, v). upd k v) kvs m)"
  by (induction kvs arbitrary: m) (auto simp: inv_upd)

lemma lookup_collect_entries:
  assumes "inv m"
  shows "lookup (fold (\<lambda>(k, v). upd k v) (entries m) empty) = lookup m"
proof
  fix k
  have d: "distinct (map fst (rev (entries m)))"
    using distinct_entries [OF assms] by (metis distinct_rev rev_map)
  show "lookup (fold (\<lambda>(k, v). upd k v) (entries m) empty) k = lookup m k"
  proof (cases "map_of (rev (entries m)) k")
    case None
    then have "k \<notin> fst ` set (entries m)" by (simp add: map_of_eq_None_iff)
    then have "lookup m k = None"
      using lookup_entries [OF assms] by (cases "lookup m k") force+
    with None show ?thesis by (simp add: lookup_collect lookup_empty)
  next
    case (Some v)
    then have "(k, v) \<in> set (entries m)" by (auto dest: map_of_SomeD)
    with Some show ?thesis by (simp add: lookup_collect lookup_entries [OF assms])
  qed
qed

lemma lookup_upd_swap:
  "k \<noteq> k' \<Longrightarrow> lookup (upd k v (upd k' v' m)) = lookup (upd k' v' (upd k v m))"
  by (auto simp: lookup_upd)

lemma dom_upd: "dom (lookup (upd k v m)) = insert k (dom (lookup m))"
  by (auto simp: lookup_upd dom_def)

lemma dom_del: "dom (lookup (del k m)) = dom (lookup m) - {k}"
  by (auto simp: lookup_del dom_def)

lemma finite_dom: "inv m \<Longrightarrow> finite (dom (lookup m))"
proof -
  assume m: "inv m"
  have "dom (lookup m) = fst ` set (entries m)"
    using lookup_entries [OF m] by (force simp: dom_def)
  then show ?thesis by simp
qed

end

section \<open>Both maps provide it\<close>

lemma map_of_filter_distinct:
  "distinct (map fst m) \<Longrightarrow> map_of (filter (\<lambda>(k, v). p k v) m) k =
     (case map_of m k of None \<Rightarrow> None | Some v \<Rightarrow> if p k v then Some v else None)"
  by (induction m) (auto simp: map_of_eq_None_iff split: option.splits dest: map_of_SomeD)

lemma map_of_filter_key:
  "map_of (filter (\<lambda>(k', v). k' \<noteq> k) m) k' = (if k' = k then None else map_of m k')"
  by (induction m) auto

lemma bt_keys_simps [simp]: "bt_keys [] = []" "bt_keys ((k, v) # m) = k # bt_keys m"
  by (simp_all add: bt_keys_def)

lemma hm_keys_simps [simp]: "hm_keys [] = []" "hm_keys ((k, v) # m) = k # hm_keys m"
  by (simp_all add: hm_keys_def)

lemma bt_get_insert: "bt_get (bt_insert k v m) k' = (if k' = k then Some v else bt_get m k')"
  by (induction k v m rule: bt_insert.induct) (auto simp: bt_get_def)

lemma set_keys_bt_insert [simp]: "set (bt_keys (bt_insert k v m)) = insert k (set (bt_keys m))"
  by (induction k v m rule: bt_insert.induct) auto

lemma bt_wf_Nil [simp]: "bt_wf []"
  by (simp add: bt_wf_def)

lemma bt_wf_Cons [simp]:
  "bt_wf ((k, v) # m) \<longleftrightarrow> (\<forall>k' \<in> set (bt_keys m). k < k') \<and> bt_wf m"
  by (auto simp: bt_wf_def less_le)

lemma bt_wf_insert: "bt_wf m \<Longrightarrow> bt_wf (bt_insert k v m)"
  by (induction k v m rule: bt_insert.induct) auto

lemma hm_get_insert: "hm_get (hm_insert k v m) k' = (if k' = k then Some v else hm_get m k')"
  by (induction k v m rule: hm_insert.induct) (auto simp: hm_get_def)

lemma set_keys_hm_insert [simp]: "set (hm_keys (hm_insert k v m)) = insert k (set (hm_keys m))"
  by (induction k v m rule: hm_insert.induct) auto

lemma hm_wf_Nil [simp]: "hm_wf []"
  by (simp add: hm_wf_def)

lemma hm_wf_Cons [simp]: "hm_wf ((k, v) # m) \<longleftrightarrow> k \<notin> set (hm_keys m) \<and> hm_wf m"
  by (auto simp: hm_wf_def)

lemma hm_wf_insert: "hm_wf m \<Longrightarrow> hm_wf (hm_insert k v m)"
  by (induction k v m rule: hm_insert.induct) auto

lemma sorted_map_fst_filter: "sorted (map fst m) \<Longrightarrow> sorted (map fst (filter p m))"
  by (induction m) auto

lemma distinct_map_fst_filter: "distinct (map fst m) \<Longrightarrow> distinct (map fst (filter p m))"
  by (induction m) auto

interpretation btree: finite_map bt_get "[]" bt_insert bt_remove bt_retain "\<lambda>m. m" bt_wf
  by unfold_locales
    (auto simp: bt_get_insert bt_wf_insert, auto simp: bt_get_def bt_remove_def bt_retain_def
      bt_wf_def bt_keys_def map_of_filter_distinct map_of_filter_key sorted_map_fst_filter
      distinct_map_fst_filter)

interpretation hash: finite_map hm_get "[]" hm_insert hm_remove hm_retain "\<lambda>m. m" hm_wf
  by unfold_locales
    (auto simp: hm_get_insert hm_wf_insert, auto simp: hm_get_def hm_remove_def hm_retain_def
      hm_wf_def hm_keys_def map_of_filter_distinct map_of_filter_key distinct_map_fst_filter)

lemmas map_laws = btree.lookup_empty btree.lookup_upd btree.lookup_del btree.lookup_ret
  hash.lookup_empty hash.lookup_upd hash.lookup_del hash.lookup_ret

lemmas map_wf_laws [simp] = btree.inv_empty btree.inv_upd btree.inv_del btree.inv_ret
  hash.inv_empty hash.inv_upd hash.inv_del hash.inv_ret

section \<open>Keys and sizes\<close>

lemma set_bt_keys: "set (bt_keys m) = dom (bt_get m)"
  using dom_map_of_conv_image_fst [of m] by (simp add: bt_keys_def bt_get_def [abs_def])

lemma bt_contains_iff: "bt_contains m k \<longleftrightarrow> k \<in> dom (bt_get m)"
  by (auto simp: bt_contains_def)

lemma hm_contains_iff: "hm_contains m k \<longleftrightarrow> k \<in> dom (hm_get m)"
  by (auto simp: hm_contains_def)

lemma length_bt: "bt_wf m \<Longrightarrow> length m = card (dom (bt_get m))"
  using distinct_card [of "bt_keys m"] by (simp add: bt_wf_def set_bt_keys) (simp add: bt_keys_def)

lemma bt_first_key_in: "bt_first_key m = Some k \<Longrightarrow> k \<in> dom (bt_get m)"
  by (auto simp: bt_first_key_def bt_get_def split: list.splits)

lemma bt_first_key_None: "bt_first_key m = None \<longleftrightarrow> m = []"
  by (auto simp: bt_first_key_def split: list.splits)

lemma bt_get_in_set: "bt_get m k = Some v \<Longrightarrow> (k, v) \<in> set m"
  by (auto simp: bt_get_def dest: map_of_SomeD)

lemma bt_Nil_iff: "m = [] \<longleftrightarrow> dom (bt_get m) = {}"
  using set_bt_keys [of m] by (cases m) auto

text \<open>Two sorted maps with the same lookups are equal: a BTreeMap is canonical.\<close>

lemma bt_eqI:
  assumes "bt_wf m" and "bt_wf n" and "\<And>k. bt_get m k = bt_get n k"
  shows "m = n"
proof (rule map_sorted_distinct_set_unique [of fst])
  have "set m = set n" using assms btree.lookup_entries by (metis subsetI subset_antisym surj_pair)
  then show "set m = set n" .
  show "inj_on fst (set m \<union> set n)"
    using assms \<open>set m = set n\<close> by (simp add: bt_wf_def bt_keys_def distinct_map)
qed (use assms in \<open>auto simp: bt_wf_def bt_keys_def distinct_map\<close>)

end
