(* ===== verification/Sched_Types.thy ===== *)
theory Sched_Types
  imports Rust_Maps
begin

text \<open>
  The core data structures, \<open>src/types.rs\<close>: VM and pipe identifiers, the state of a VM as
  the scheduler sees it, the messages a syscall leaves for the scheduler, the identifiers
  of transaction data, the suspended form of a scheduler, and \<open>TxData\<close>, from which all
  program and cell data is loaded.

  Not under src/ and therefore parameters: the resolved cells (type \<open>'d\<close>) with the data
  loader that reads them, the snapshots of ckb-vm (type \<open>'s\<close>), its pause signal (type
  \<open>'z\<close>), and the sizes rustc gives to enums.
\<close>

section \<open>VMs and pipes\<close>

type_synonym vm_id = u64
type_synonym bytes = "u8 list"

definition FIRST_VM_ID :: vm_id where
  "FIRST_VM_ID = 0"

datatype pipe_id = PipeId (pipe_raw: u64)

definition FIRST_PIPE_SLOT :: u64 where
  "FIRST_PIPE_SLOT = 2"

definition pipe_create :: "bool \<Rightarrow> u64 \<Rightarrow> ('st, pipe_id \<times> pipe_id \<times> u64) prog" where
  "pipe_create chk slot =
     and_then (add_u64 chk slot 1) (\<lambda>w.
     and_then (add_u64 chk slot 2) (\<lambda>next_slot.
     ret (PipeId slot, PipeId w, next_slot)))"

definition other_pipe :: "pipe_id \<Rightarrow> pipe_id" where
  "other_pipe p = PipeId (pipe_raw p XOR 1)"

definition is_read :: "pipe_id \<Rightarrow> bool" where
  "is_read p \<longleftrightarrow> pipe_raw p mod 2 = 0"

definition is_write :: "pipe_id \<Rightarrow> bool" where
  "is_write p \<longleftrightarrow> pipe_raw p mod 2 = 1"

instantiation pipe_id :: linorder
begin

definition less_eq_pipe_id :: "pipe_id \<Rightarrow> pipe_id \<Rightarrow> bool" where
  "less_eq_pipe_id p q \<longleftrightarrow> pipe_raw p \<le> pipe_raw q"

definition less_pipe_id :: "pipe_id \<Rightarrow> pipe_id \<Rightarrow> bool" where
  "less_pipe_id p q \<longleftrightarrow> pipe_raw p < pipe_raw q"

instance
  by standard (auto simp: less_eq_pipe_id_def less_pipe_id_def intro: pipe_id.expand)

end

datatype vm_state =
    Runnable
  | Terminated
  | Join (target_vm_id: vm_id) (exit_code_addr: u64)
  | WaitForWrite pipe_id u64 u64 u64 u64
      \<comment> \<open>pipe, consumed, length, buffer\_addr, length\_addr\<close>
  | WaitForRead pipe_id u64 u64 u64
      \<comment> \<open>pipe, length, buffer\_addr, length\_addr\<close>

section \<open>Transaction data\<close>

datatype data_piece_id =
    Program
  | Input u32
  | Output u32
  | CellDep u32
  | GroupInput u32
  | GroupOutput u32

text \<open>\<open>DataPieceId::try_from((source, index))\<close>; the error is a string only logged.\<close>

definition data_piece_try_from :: "u64 \<Rightarrow> u64 \<Rightarrow> string + data_piece_id" where
  "data_piece_try_from source index =
     (if \<not> unat index < 2 ^ 32 then Inl ''Error casting index to u32''
      else (let i = (ucast index :: u32) in
        if source = 1 then Inr (Input i)
        else if source = 2 then Inr (Output i)
        else if source = 3 then Inr (CellDep i)
        else if source = 0x0100000000000001 then Inr (GroupInput i)
        else if source = 0x0100000000000002 then Inr (GroupOutput i)
        else Inl ''Invalid source value''))"

record 'd tx_data =
  resolved_inputs :: "'d list"
  outputs_data :: "bytes list"
  resolved_cell_deps :: "'d list"
  data_loader :: "'d \<Rightarrow> bytes option"
  program :: bytes
  input_indices :: "nat list"
  output_indices :: "nat list"

text \<open>\<open>slice.get(i)\<close>.\<close>

definition slice_get :: "'a list \<Rightarrow> nat \<Rightarrow> 'a option" where
  "slice_get xs i = (if i < length xs then Some (xs ! i) else None)"

definition INDEX_OUT_OF_BOUND_ERR :: vm_error where
  "INDEX_OUT_OF_BOUND_ERR = External ''INDEX_OUT_OF_BOUND''"

definition load_cell :: "'d tx_data \<Rightarrow> unexpected \<Rightarrow> 'd option \<Rightarrow> bytes res" where
  "load_cell tx missing cell =
     (case cell of None \<Rightarrow> Err INDEX_OUT_OF_BOUND_ERR
      | Some c \<Rightarrow> (case data_loader tx c of
            None \<Rightarrow> Err (Unexpected missing) | Some data \<Rightarrow> Ok data))"

definition load_output :: "'d tx_data \<Rightarrow> nat \<Rightarrow> bytes res" where
  "load_output tx i =
     (case slice_get (outputs_data tx) i of
        None \<Rightarrow> Err INDEX_OUT_OF_BOUND_ERR | Some data \<Rightarrow> Ok data)"

definition load_full :: "'d tx_data \<Rightarrow> data_piece_id \<Rightarrow> bytes res" where
  "load_full tx piece = (case piece of
       Program \<Rightarrow> Ok (program tx)
     | Input i \<Rightarrow>
         load_cell tx (InputDataMissing (unat i)) (slice_get (resolved_inputs tx) (unat i))
     | Output i \<Rightarrow> load_output tx (unat i)
     | CellDep i \<Rightarrow>
         load_cell tx (DepDataMissing (unat i)) (slice_get (resolved_cell_deps tx) (unat i))
     | GroupInput i \<Rightarrow> (case slice_get (input_indices tx) (unat i) of
         None \<Rightarrow> Err INDEX_OUT_OF_BOUND_ERR
       | Some gi \<Rightarrow> load_cell tx (InputDataMissing gi) (slice_get (resolved_inputs tx) gi))
     | GroupOutput i \<Rightarrow> (case slice_get (output_indices tx) (unat i) of
         None \<Rightarrow> Err INDEX_OUT_OF_BOUND_ERR
       | Some gi \<Rightarrow> load_output tx gi))"

text \<open>The closure applied to the loaded data: the requested slice and the length left.\<close>

definition slice_data :: "bytes \<Rightarrow> u64 \<Rightarrow> u64 \<Rightarrow> bytes \<times> u64" where
  "slice_data data off len =
     (let offset = min (unat off) (length data);
          full_length = length data - offset;
          slice_length = (if len > 0 then min full_length (unat len) else full_length)
      in (take slice_length (drop offset data), of_nat full_length))"

definition load_data :: "'d tx_data \<Rightarrow> data_piece_id \<Rightarrow> u64 \<Rightarrow> u64 \<Rightarrow> (bytes \<times> u64) res" where
  "load_data tx piece off len = (case load_full tx piece of
       Ok data \<Rightarrow> Ok (slice_data data off len)
     | Err e \<Rightarrow> Err e
     | Panic k \<Rightarrow> Panic k)"

section \<open>Messages\<close>

record spawn_args =
  sp_data_piece_id :: data_piece_id
  sp_offset :: u64
  sp_length :: u64
  sp_argv :: "bytes list"
  sp_pipes :: "pipe_id list"
  sp_instance_id_addr :: u64

record join_args =
  jn_target_id :: vm_id
  jn_exit_code_addr :: u64

record pipe_args =
  pa_pipe1_addr :: u64
  pa_pipe2_addr :: u64

record pipe_io_args =
  io_pipe :: pipe_id
  io_length :: u64
  io_buffer_addr :: u64
  io_length_addr :: u64

datatype message =
    MSpawn vm_id spawn_args
  | MJoin vm_id join_args
  | MPipe vm_id pipe_args
  | MPipeRead vm_id pipe_io_args
  | MPipeWrite vm_id pipe_io_args

section \<open>The suspended scheduler\<close>

record 's full_suspended_state =
  fs_total_cycles :: u64
  fs_next_vm_id :: vm_id
  fs_next_pipe_slot :: u64
  fs_vms :: "(vm_id \<times> vm_state \<times> 's) list"
  fs_pipes :: "(pipe_id \<times> vm_id) list"
  fs_terminated_vms :: "(vm_id \<times> i8) list"

text \<open>What \<open>size\<close> reads of a snapshot, the sizes of enums, ckb-vm's register count.\<close>

record 's layout =
  size_of_vm_state :: nat
  size_of_data_piece_id :: nat
  general_register_number :: nat
  snap_pages_from_source :: "'s \<Rightarrow> nat"
  snap_dirty_page_lens :: "'s \<Rightarrow> nat list"

definition snapshot_size :: "'s layout \<Rightarrow> 's \<Rightarrow> nat" where
  "snapshot_size l snap =
     (8 + size_of_vm_state l)
     + snap_pages_from_source l snap * (8 + 1 + size_of_data_piece_id l + 8 + 8)
     + sum_list (map (\<lambda>n. 8 + 1 + n) (snap_dirty_page_lens l snap))
     + (4 + general_register_number l * 8 + 8 + 8 + 8)"

definition suspended_size :: "'s layout \<Rightarrow> 's full_suspended_state \<Rightarrow> nat" where
  "suspended_size l st =
     (8 + 8 + 8 + fold (\<lambda>(_, _, snap) acc. acc + snapshot_size l snap) (fs_vms st) 0
      + length (fs_pipes st) * (8 + 8))
     + length (fs_terminated_vms st) * (8 + 1)"

datatype 'z run_mode = LimitCycles u64 | PauseMode 'z

section \<open>Properties of pipe identifiers\<close>

lemma is_read_even: "is_read p \<longleftrightarrow> even (pipe_raw p)"
  by (simp add: is_read_def even_iff_mod_2_eq_zero)

lemma is_write_odd: "is_write p \<longleftrightarrow> odd (pipe_raw p)"
  by (simp add: is_write_def odd_iff_mod_2_eq_one)

lemma is_write_iff: "is_write p \<longleftrightarrow> \<not> is_read p"
  by (simp add: is_read_even is_write_odd)

lemma pipe_raw_other:
  "pipe_raw (other_pipe p) = (if is_read p then pipe_raw p + 1 else pipe_raw p - 1)"
  by (simp add: other_pipe_def xor_one_eq is_read_even)

lemma other_pipe_twice [simp]: "other_pipe (other_pipe p) = p"
  by (simp add: other_pipe_def xor.assoc)

lemma is_read_other [simp]: "is_read (other_pipe p) \<longleftrightarrow> \<not> is_read p"
  by (simp add: is_read_even other_pipe_def xor_one_eq)

lemma other_pipe_neq [simp]: "other_pipe p \<noteq> p"
  using is_read_other by metis

lemma other_pipe_eq_iff: "other_pipe p = other_pipe q \<longleftrightarrow> p = q"
  by (metis other_pipe_twice)

text \<open>
  The two ends of a pipe. Every identifier is a read end or a write end and never both;
  \<open>other_pipe\<close> swaps the two kinds, is its own inverse and never returns its argument.
\<close>

lemma other_pipe_ends:
  "(is_write p \<longleftrightarrow> \<not> is_read p) \<and> (is_read (other_pipe p) \<longleftrightarrow> is_write p)
   \<and> (is_write (other_pipe p) \<longleftrightarrow> is_read p)
   \<and> other_pipe (other_pipe p) = p \<and> other_pipe p \<noteq> p"
  by (simp add: is_write_iff)

text \<open>
  \<open>PipeId::create\<close> at an even slot that leaves room for two more identifiers returns a
  read end and the write end that is its other end, and the next slot, again even and
  beyond both identifiers; neither end is 0, which user code takes for \<open>no pipe\<close>.
\<close>

lemma pipe_create_pair:
  assumes "even slot" and "2 \<le> slot" and "unat slot + 2 < 2 ^ 64"
  shows "\<exists>r w. pipe_create chk slot st = (Ok (r, w, slot + 2), st)
    \<and> is_read r \<and> is_write w \<and> other_pipe r = w \<and> pipe_raw r \<noteq> 0 \<and> pipe_raw w \<noteq> 0
    \<and> pipe_raw r < slot + 2 \<and> pipe_raw w < slot + 2 \<and> even (slot + 2)"
proof -
  have one: "unat (slot + 1) = unat slot + 1" and two: "unat (slot + 2) = unat slot + 2"
    using assms(3) by (simp_all add: unat_add_u64)
  have lo: "2 \<le> unat slot" using assms(2) by (simp add: word_le_nat_alt)
  have "pipe_create chk slot st = (Ok (PipeId slot, PipeId (slot + 1), slot + 2), st)"
    using assms(3) by (simp add: pipe_create_def prog_defs)
  moreover have "other_pipe (PipeId slot) = PipeId (slot + 1)"
    using assms(1) by (simp add: other_pipe_def xor_one_eq)
  moreover have "slot + 1 \<noteq> 0" and "slot \<noteq> 0"
    using one lo by (metis One_nat_def add_is_0 nat.distinct(1) unat_0, use lo in auto)
  ultimately show ?thesis
    using assms(1) one two by (simp add: is_read_even is_write_odd word_less_nat_alt)
qed

lemma pipe_create_pair_witness:
  "\<exists>r w. pipe_create True FIRST_PIPE_SLOT () = (Ok (r, w, FIRST_PIPE_SLOT + 2), ())
    \<and> is_read r \<and> is_write w \<and> other_pipe r = w \<and> pipe_raw r \<noteq> 0 \<and> pipe_raw w \<noteq> 0
    \<and> pipe_raw r < FIRST_PIPE_SLOT + 2 \<and> pipe_raw w < FIRST_PIPE_SLOT + 2
    \<and> even (FIRST_PIPE_SLOT + 2)"
  by (rule pipe_create_pair) (simp_all add: FIRST_PIPE_SLOT_def)

section \<open>Properties of transaction data\<close>

text \<open>
  \<open>DataPieceId::try_from\<close> is a partial bijection: two pairs of source and index that
  are accepted as the same piece are the same pair, and no pair names the program itself.
\<close>

lemma data_piece_try_from_injective:
  assumes "data_piece_try_from source index = Inr piece"
  shows "piece \<noteq> Program \<and>
    (data_piece_try_from source' index' = Inr piece \<longleftrightarrow> source' = source \<and> index' = index)"
proof -
  have inj: "index = index'"
    if "(ucast index :: u32) = ucast index'" "unat index < 2 ^ 32" "unat index' < 2 ^ 32"
    for index index' :: u64
  proof -
    have "unat (ucast i :: u32) = unat i" if "unat i < 2 ^ 32" for i :: u64
      using that by (simp add: unsigned_ucast_eq take_bit_nat_eq_self)
    with that show ?thesis by (metis word_unat_eq_iff)
  qed
  show ?thesis
    using assms by (auto simp: data_piece_try_from_def Let_def split: if_splits dest: inj)
qed

lemma length_slice_data:
  "length (fst (slice_data data off len)) =
     (if len = 0 then length data - unat off
      else min (length data - unat off) (unat len))"
  by (auto simp: slice_data_def Let_def word_neq_0_conv)

lemma unat_slice_full:
  assumes "length data < 2 ^ 64"
  shows "unat (snd (slice_data data off len)) = length data - unat off"
  using assms
  by (simp add: slice_data_def Let_def unsigned_of_nat take_bit_nat_eq_self del: of_nat_diff)

text \<open>
  C20: \<open>load_data\<close> returns a contiguous slice of the piece that starts at the offset, never
  reaches beyond its end, has the requested length where the piece is long enough, and
  comes with the number of bytes from the offset to the end (0 when the offset is beyond
  it). A length of 0 asks for all of them.
\<close>

theorem load_data_slice:
  assumes "load_full tx piece = Ok data" and "length data < 2 ^ 64"
  shows "\<exists>bs full. load_data tx piece off len = Ok (bs, full)
    \<and> unat full = length data - unat off
    \<and> bs = take (length bs) (drop (unat off) data)
    \<and> length bs = (if len = 0 then unat full else min (unat full) (unat len))"
proof -
  obtain bs full where s: "slice_data data off len = (bs, full)" by fastforce
  have "bs = take (length bs) (drop (unat off) data)"
    using s by (auto simp: slice_data_def Let_def min_def)
  then show ?thesis
    using s assms length_slice_data [of data off len] unat_slice_full [OF assms(2), of off len]
    by (simp add: load_data_def)
qed

definition sample_tx :: "nat tx_data" where
  "sample_tx = \<lparr>resolved_inputs = [0], outputs_data = [[1, 2, 3, 4]],
     resolved_cell_deps = [], data_loader = (\<lambda>_. Some [9, 8]), program = [127, 69],
     input_indices = [0], output_indices = [0]\<rparr>"

theorem load_data_slice_witness:
  "\<exists>bs full. load_data sample_tx (GroupOutput 0) 1 2 = Ok (bs, full)
    \<and> unat full = length [1, 2, 3, 4 :: u8] - unat (1 :: u64)
    \<and> bs = take (length bs) (drop (unat (1 :: u64)) [1, 2, 3, 4])
    \<and> length bs = (if (2 :: u64) = 0 then unat full else min (unat full) (unat (2 :: u64)))"
  by (rule load_data_slice)
    (simp_all add: sample_tx_def load_full_def load_output_def slice_get_def)

end
