(* ===== verification/Vm_Interface.thy ===== *)
theory Vm_Interface
  imports Sched_Types
begin

text \<open>
  The boundary to ckb-vm and ckb-script, whose code is not under src/. Everything the
  scheduler calls of them is a field of the record \<open>ckb_env\<close>, an argument of the
  definitions that use it:

  \<^item> \<open>'m\<close> is the \<open>AsmMachine\<close>: registers, memory, cycle counter, limits, pause signal and
    the syscalls of ckb-script attached behind those of \<open>MachineContext\<close>;
  \<^item> \<open>'c\<close> is the \<open>Snapshot2Context\<close>, \<open>'s\<close> a \<open>Snapshot2\<close>, \<open>'e\<close> parsed ELF metadata,
    \<open>'z\<close> a pause signal, \<open>'d\<close> a resolved cell.

  \<open>asm_run\<close> is \<open>machine.run()\<close>. It calls the syscall handler of the scheduler, which it
  takes as its argument, on the machine, the context and the message box the handler
  shares with the scheduler. What the scheduler relies on is the predicate \<open>engine_trace\<close>:
  a run is a sequence of instructions (and syscalls of ckb-script), which do not touch the
  message box, and of calls of the handler; a handler's error ends the run with it.
\<close>

section \<open>Shared state of a VM\<close>

text \<open>
  \<open>MachineContext\<close> of syscalls.rs. \<open>mc_data_source\<close> is the \<open>TxData\<close> its
  \<open>Snapshot2Context\<close> was created with, which \<open>data_source()\<close> returns. The message box,
  an \<open>Arc\<close> shared with the scheduler, is passed beside it.
\<close>

record ('c, 'd) machine_context =
  mc_id :: vm_id
  mc_base_cycles :: u64
  mc_snapshot2_context :: 'c
  mc_data_source :: "'d tx_data"

text \<open>What a syscall handler can see and change while a machine runs.\<close>

record ('m, 'c, 'd) vmcall =
  vc_machine :: 'm
  vc_context :: "('c, 'd) machine_context"
  vc_box :: "message list"

datatype script_version = V0 | V1 | V2

section \<open>The external operations\<close>

record ('m, 'c, 's, 'e, 'z, 'd) ckb_env =
  overflow_checks :: bool
  size_of_bytes :: nat
  utf8_error_debug :: "bytes \<Rightarrow> string"
  \<comment> \<open>registers, memory and cycles of a machine\<close>
  get_register :: "'m \<Rightarrow> nat \<Rightarrow> u64"
  set_register :: "nat \<Rightarrow> u64 \<Rightarrow> 'm \<Rightarrow> 'm"
  load8 :: "u64 \<Rightarrow> ('m, u8) prog"
  load64 :: "u64 \<Rightarrow> ('m, u64) prog"
  store8 :: "u64 \<Rightarrow> u64 \<Rightarrow> ('m, unit) prog"
  store64 :: "u64 \<Rightarrow> u64 \<Rightarrow> ('m, unit) prog"
  load_bytes :: "u64 \<Rightarrow> u64 \<Rightarrow> ('m, bytes) prog"
  store_bytes :: "u64 \<Rightarrow> bytes \<Rightarrow> ('m, unit) prog"
  init_pages :: "u64 \<Rightarrow> u64 \<Rightarrow> u8 \<Rightarrow> bytes option \<Rightarrow> u64 \<Rightarrow> ('m, unit) prog"
  flag_executable :: u8
  flag_freezed :: u8
  get_cycles :: "'m \<Rightarrow> u64"
  set_cycles :: "u64 \<Rightarrow> 'm \<Rightarrow> 'm"
  add_cycles_no_checking :: "u64 \<Rightarrow> ('m, unit) prog"
  set_max_cycles :: "u64 \<Rightarrow> 'm \<Rightarrow> 'm"
  set_pause :: "'z \<Rightarrow> 'm \<Rightarrow> 'm"
  pause_new :: 'z
  exit_code :: "'m \<Rightarrow> i8"
  asm_run :: "(('m, 'c, 'd) vmcall, bool) prog \<Rightarrow> (('m, 'c, 'd) vmcall, i8) prog"
  \<comment> \<open>snapshots\<close>
  sc_new :: "'d tx_data \<Rightarrow> 'c"
  sc_store_bytes :: "u64 \<Rightarrow> data_piece_id \<Rightarrow> u64 \<Rightarrow> u64 \<Rightarrow> ('c \<times> 'm, u64 \<times> u64) prog"
  sc_track_pages :: "u64 \<Rightarrow> u64 \<Rightarrow> data_piece_id \<Rightarrow> u64 \<Rightarrow> ('c \<times> 'm, unit) prog"
  sc_mark_program :: "'e \<Rightarrow> data_piece_id \<Rightarrow> u64 \<Rightarrow> ('c \<times> 'm, unit) prog"
  sc_resume :: "'s \<Rightarrow> ('c \<times> 'm, unit) prog"
  sc_make_snapshot :: "('c \<times> 'm, 's) prog"
  \<comment> \<open>creating machines and loading programs\<close>
  select_version :: "string + script_version"
  build_machine :: "script_version \<Rightarrow> script_version \<Rightarrow> 'm"
  machine_version :: "'m \<Rightarrow> nat"
  parse_elf :: "bytes \<Rightarrow> nat \<Rightarrow> 'e res"
  load_program_with_metadata :: "bytes \<Rightarrow> 'e \<Rightarrow> bytes list \<Rightarrow> ('m, u64) prog"

text \<open>The argument registers of RISC-V (\<open>ckb_vm::registers\<close>).\<close>

abbreviation A0 :: nat where "A0 \<equiv> 10"
abbreviation A1 :: nat where "A1 \<equiv> 11"
abbreviation A2 :: nat where "A2 \<equiv> 12"
abbreviation A3 :: nat where "A3 \<equiv> 13"
abbreviation A4 :: nat where "A4 \<equiv> 14"
abbreviation A5 :: nat where "A5 \<equiv> 15"
abbreviation A7 :: nat where "A7 \<equiv> 17"

section \<open>Programs of a syscall handler\<close>

text \<open>A program over the machine, or over the snapshot context and the machine.\<close>

definition mach :: "('m, 'a) prog \<Rightarrow> (('m, 'c, 'd) vmcall, 'a) prog" where
  "mach f v = (case f (vc_machine v) of (r, m) \<Rightarrow> (r, v\<lparr>vc_machine := m\<rparr>))"

definition snap :: "('c \<times> 'm, 'a) prog \<Rightarrow> (('m, 'c, 'd) vmcall, 'a) prog" where
  "snap f v = (case f (mc_snapshot2_context (vc_context v), vc_machine v) of
     (r, c, m) \<Rightarrow> (r, v\<lparr>vc_machine := m,
        vc_context := (vc_context v)\<lparr>mc_snapshot2_context := c\<rparr>\<rparr>))"

definition read_reg ::
    "('m, 'c, 's, 'e, 'z, 'd) ckb_env \<Rightarrow> nat \<Rightarrow> (('m, 'c, 'd) vmcall, u64) prog" where
  "read_reg env r = gets (\<lambda>v. get_register env (vc_machine v) r)"

definition write_reg ::
    "('m, 'c, 's, 'e, 'z, 'd) ckb_env \<Rightarrow> nat \<Rightarrow> u64 \<Rightarrow> (('m, 'c, 'd) vmcall, unit) prog" where
  "write_reg env r x = modify (\<lambda>v. v\<lparr>vc_machine := set_register env r x (vc_machine v)\<rparr>)"

definition push_message :: "message \<Rightarrow> (('m, 'c, 'd) vmcall, unit) prog" where
  "push_message msg = modify (\<lambda>v. v\<lparr>vc_box := vc_box v @ [msg]\<rparr>)"

definition YIELD :: vm_error where
  "YIELD = External ''YIELD''"

text \<open>What none of these programs can change.\<close>

abbreviation vc_id :: "('m, 'c, 'd) vmcall \<Rightarrow> vm_id" where
  "vc_id v \<equiv> mc_id (vc_context v)"

abbreviation vc_data :: "('m, 'c, 'd) vmcall \<Rightarrow> 'd tx_data" where
  "vc_data v \<equiv> mc_data_source (vc_context v)"

lemma keeps_mach [keeps_intros]:
  "keeps vc_box (mach f)" "keeps vc_context (mach f)" "keeps vc_id (mach f)"
  "keeps vc_data (mach f)"
  by (simp_all add: keeps_def mach_def split: prod.splits)

lemma keeps_snap [keeps_intros]:
  "keeps vc_box (snap f)" "keeps vc_id (snap f)" "keeps vc_data (snap f)"
  by (simp_all add: keeps_def snap_def split: prod.splits)

lemma keeps_regs [keeps_intros]:
  "keeps vc_box (write_reg env r x)" "keeps vc_id (write_reg env r x)"
  "keeps vc_data (write_reg env r x)" "keeps p (read_reg env r)"
  by (simp_all add: write_reg_def read_reg_def keeps_def modify_def gets_def)

lemma wp_read_reg [wp_simps]:
  "wp (read_reg env r) Q E X v = Q (get_register env (vc_machine v) r) v"
  by (simp add: read_reg_def wp_simps)

lemma wp_write_reg [wp_simps]:
  "wp (write_reg env r x) Q E X v = Q () (v\<lparr>vc_machine := set_register env r x (vc_machine v)\<rparr>)"
  by (simp add: write_reg_def wp_simps)

lemma wp_push_message [wp_simps]:
  "wp (push_message msg) Q E X v = Q () (v\<lparr>vc_box := vc_box v @ [msg]\<rparr>)"
  by (simp add: push_message_def wp_simps)

section \<open>Panics from outside\<close>

text \<open>
  \<open>panics_within env X\<close>: \<open>X\<close> allows arithmetic and capacity overflow, a loop that does not
  end, and whatever panics the external operations have; a run adds none to its handler's.
\<close>

definition panics_within :: "('m, 'c, 's, 'e, 'z, 'd) ckb_env \<Rightarrow> (panic \<Rightarrow> bool) \<Rightarrow> bool" where
  "panics_within env X \<longleftrightarrow>
     X ArithOverflow \<and> X CapacityOverflow \<and> X Diverges
     \<and> (\<forall>a. panics_in X (load8 env a)) \<and> (\<forall>a. panics_in X (load64 env a))
     \<and> (\<forall>a x. panics_in X (store8 env a x)) \<and> (\<forall>a x. panics_in X (store64 env a x))
     \<and> (\<forall>a n. panics_in X (load_bytes env a n)) \<and> (\<forall>a bs. panics_in X (store_bytes env a bs))
     \<and> (\<forall>a n fl d off. panics_in X (init_pages env a n fl d off))
     \<and> (\<forall>n. panics_in X (add_cycles_no_checking env n))
     \<and> (\<forall>a p off n. panics_in X (sc_store_bytes env a p off n))
     \<and> (\<forall>a n p off. panics_in X (sc_track_pages env a n p off))
     \<and> (\<forall>md p off. panics_in X (sc_mark_program env md p off))
     \<and> (\<forall>snapshot. panics_in X (sc_resume env snapshot)) \<and> panics_in X (sc_make_snapshot env)
     \<and> (\<forall>bs ver k. parse_elf env bs ver = Panic k \<longrightarrow> X k)
     \<and> (\<forall>bs md args. panics_in X (load_program_with_metadata env bs md args))
     \<and> (\<forall>h. panics_in X h \<longrightarrow> panics_in X (asm_run env h))"

lemma panics_withinD:
  assumes "panics_within env X"
  shows "X ArithOverflow" "X CapacityOverflow" "X Diverges"
    "panics_in X (load8 env a)" "panics_in X (load64 env a)" "panics_in X (store8 env a x)"
    "panics_in X (store64 env a x)" "panics_in X (load_bytes env a x)"
    "panics_in X (store_bytes env a bs)" "panics_in X (init_pages env a n fl d off)"
    "panics_in X (add_cycles_no_checking env n)" "panics_in X (sc_store_bytes env a p off n)"
    "panics_in X (sc_track_pages env a n p off)" "panics_in X (sc_mark_program env md p off)"
    "panics_in X (sc_resume env snapshot)" "panics_in X (sc_make_snapshot env)"
    "panics_in X (load_program_with_metadata env bs md args)"
    "panics_in X h \<Longrightarrow> panics_in X (asm_run env h)"
    "panics_in X (lift_res (parse_elf env bs ver))"
  using assms by (simp_all add: panics_within_def panics_in_lift_res)

lemma panics_in_mach [panics_intros]:
  assumes "panics_in X f"
  shows "panics_in X (mach f)" and "panics_in X (\<lambda>(c, m). case f m of (r, m') \<Rightarrow> (r, (c, m')))"
  using assms by (auto simp: panics_in_def mach_def split: prod.splits) (metis fst_conv)+

lemma panics_in_snap [panics_intros]: "panics_in X f \<Longrightarrow> panics_in X (snap f)"
  by (auto simp: panics_in_def snap_def split: prod.splits) (metis fst_conv)

lemma panics_in_regs [panics_intros]:
  "panics_in X (read_reg env r)" "panics_in X (write_reg env r x)" "panics_in X (push_message msg)"
  by (simp_all add: read_reg_def write_reg_def push_message_def panics_in_pure)

section \<open>The contract of \<open>machine.run()\<close>\<close>

text \<open>
  \<open>engine_trace h v r v'\<close>: a run of the engine with handler \<open>h\<close> from \<open>v\<close> can end in \<open>v'\<close>
  with result \<open>r\<close>. Instructions change the machine, ckb-script's syscalls too; the context
  and the message box change only inside \<open>h\<close>. An error that is not the handler's own is
  never a \<open>YIELD\<close>, a string ckb-vm does not know.
\<close>

inductive engine_trace ::
    "(('m, 'c, 'd) vmcall, bool) prog \<Rightarrow> ('m, 'c, 'd) vmcall \<Rightarrow> i8 res \<Rightarrow> ('m, 'c, 'd) vmcall \<Rightarrow> bool"
  for h where
  exits: "engine_trace h v (Ok code) v"
| faults: "e \<noteq> YIELD \<Longrightarrow> engine_trace h v (Err e) v"
| panics: "engine_trace h v (Panic k) v"
| executes: "engine_trace h (v\<lparr>vc_machine := m\<rparr>) r v' \<Longrightarrow> engine_trace h v r v'"
| calls: "h v = (Ok b, v1) \<Longrightarrow> engine_trace h v1 r v' \<Longrightarrow> engine_trace h v r v'"
| call_fails: "h v = (Err e, v') \<Longrightarrow> engine_trace h v (Err e) v'"
| call_panics: "h v = (Panic k, v') \<Longrightarrow> engine_trace h v (Panic k) v'"

definition asm_run_contract :: "('m, 'c, 's, 'e, 'z, 'd) ckb_env \<Rightarrow> bool" where
  "asm_run_contract env \<longleftrightarrow>
     (\<forall>h v. engine_trace h v (fst (asm_run env h v)) (snd (asm_run env h v)))"

text \<open>The handler's effects lifted to runs: a relation every call satisfies and composes.\<close>

lemma engine_trace_lift:
  assumes "engine_trace h v r v'"
    and local: "\<And>v m r v'. R (v\<lparr>vc_machine := m\<rparr>) r v' \<Longrightarrow> R v r v'"
    and exits: "\<And>v code. R v (Ok code) v"
    and faults: "\<And>v e. e \<noteq> YIELD \<Longrightarrow> R v (Err e) v"
    and panics: "\<And>v v' k. R v (Panic k) v'"
    and calls: "\<And>v b v1 r v'. h v = (Ok b, v1) \<Longrightarrow> R v1 r v' \<Longrightarrow> R v r v'"
    and call_fails: "\<And>v e v'. h v = (Err e, v') \<Longrightarrow> R v (Err e) v'"
  shows "R v r v'"
  using assms(1) by induction (auto intro: assms(2-))

end
