(* ===== verification/Sample_Machine.thy ===== *)
theory Sample_Machine
  imports Vm_Interface
begin

text \<open>
  A concrete instance of the external operations, on which the witnesses of the other
  theories run: a machine with registers, a 4 MB byte memory, a cycle counter and a script
  of actions in place of RISC-V code. Loading a program picks the script its first byte
  names. A snapshot is the machine itself. It satisfies what the development assumes of
  ckb-vm (\<open>toy_contract\<close>), so no theorem is vacuous for lack of a machine.
\<close>

section \<open>The machine\<close>

datatype toy_action =
    TExit i8
  | TCall "(nat \<times> u64) list"  \<comment> \<open>set these registers, then execute an ecall\<close>
  | TFault

record toy =
  t_regs :: "nat \<Rightarrow> u64"
  t_mem :: "u64 \<Rightarrow> u8"
  t_cycles :: u64
  t_max :: u64
  t_script :: "toy_action list"
  t_exit :: i8

definition toy_new :: toy where
  "toy_new = \<lparr>t_regs = (\<lambda>_. 0), t_mem = (\<lambda>_. 0), t_cycles = 0, t_max = - 1, t_script = [],
     t_exit = 0\<rparr>"

definition in_memory :: "u64 \<Rightarrow> nat \<Rightarrow> bool" where
  "in_memory a n \<longleftrightarrow> unat a + n \<le> 4194304"

definition peek64 :: "(u64 \<Rightarrow> u8) \<Rightarrow> u64 \<Rightarrow> u64" where
  "peek64 mem a = foldr (\<lambda>i acc. ucast (mem (a + i)) + 256 * acc) [0, 1, 2, 3, 4, 5, 6, 7] 0"

definition poke_bytes :: "u64 \<Rightarrow> bytes \<Rightarrow> (u64 \<Rightarrow> u8) \<Rightarrow> u64 \<Rightarrow> u8" where
  "poke_bytes a bs mem =
     fst (fold (\<lambda>b (m, i). (m(i := b), i + 1)) bs (mem, a))"

definition le_bytes :: "u64 \<Rightarrow> bytes" where
  "le_bytes x = map (\<lambda>i. ucast (drop_bit i x)) [0, 8, 16, 24, 32, 40, 48, 56]"

definition toy_load8 :: "u64 \<Rightarrow> (toy, u8) prog" where
  "toy_load8 a m = (if in_memory a 1 then (Ok (t_mem m a), m) else (Err MemOutOfBound, m))"

definition toy_load64 :: "u64 \<Rightarrow> (toy, u64) prog" where
  "toy_load64 a m =
     (if in_memory a 8 then (Ok (peek64 (t_mem m) a), m) else (Err MemOutOfBound, m))"

definition toy_load_bytes :: "u64 \<Rightarrow> u64 \<Rightarrow> (toy, bytes) prog" where
  "toy_load_bytes a n m =
     (if in_memory a (unat n)
      then (Ok (map (\<lambda>i. t_mem m (a + of_nat i)) [0..<unat n]), m) else (Err MemOutOfBound, m))"

definition toy_store_bytes :: "u64 \<Rightarrow> bytes \<Rightarrow> (toy, unit) prog" where
  "toy_store_bytes a bs m =
     (if in_memory a (length bs) then (Ok (), m\<lparr>t_mem := poke_bytes a bs (t_mem m)\<rparr>)
      else (Err MemOutOfBound, m))"

fun toy_steps :: "((toy, 'c, 'd) vmcall, bool) prog \<Rightarrow> toy_action list \<Rightarrow>
    ((toy, 'c, 'd) vmcall, i8) prog" where
  "toy_steps h [] v = (Err (OtherError 0), v)"
| "toy_steps h (act # rest) v =
     (let m = vc_machine v in
      if t_max m \<le> t_cycles m then (Err CyclesExceeded, v)
      else
        let m1 = m\<lparr>t_cycles := t_cycles m + 1, t_script := rest\<rparr> in
        case act of
          TExit c \<Rightarrow> (Ok c, v\<lparr>vc_machine := m1\<lparr>t_exit := c\<rparr>\<rparr>)
        | TFault \<Rightarrow> (Err (OtherError 1), v\<lparr>vc_machine := m1\<rparr>)
        | TCall regs \<Rightarrow>
            (case h (v\<lparr>vc_machine :=
                m1\<lparr>t_regs := fold (\<lambda>(r, x) f. f(r := x)) regs (t_regs m1)\<rparr>\<rparr>) of
               (Ok b, v2) \<Rightarrow> toy_steps h rest v2
             | (Err e, v2) \<Rightarrow> (Err e, v2)
             | (Panic k, v2) \<Rightarrow> (Panic k, v2)))"

definition toy_run ::
    "((toy, 'c, 'd) vmcall, bool) prog \<Rightarrow> ((toy, 'c, 'd) vmcall, i8) prog" where
  "toy_run h v = toy_steps h (t_script (vc_machine v)) v"

type_synonym toy_env_type = "(toy, unit, toy, toy_action list, unit, nat) ckb_env"

definition toy_env :: "bool \<Rightarrow> (u8 \<Rightarrow> toy_action list) \<Rightarrow> toy_env_type" where
  "toy_env chk scripts = \<lparr>
     overflow_checks = chk,
     size_of_bytes = 32,
     utf8_error_debug = (\<lambda>_. []),
     get_register = (\<lambda>m r. t_regs m r),
     set_register = (\<lambda>r x m. m\<lparr>t_regs := (t_regs m)(r := x)\<rparr>),
     load8 = toy_load8,
     load64 = toy_load64,
     store8 = (\<lambda>a x. toy_store_bytes a [ucast x]),
     store64 = (\<lambda>a x. toy_store_bytes a (le_bytes x)),
     load_bytes = toy_load_bytes,
     store_bytes = toy_store_bytes,
     init_pages = (\<lambda>a n fl d off. toy_store_bytes a (case d of None \<Rightarrow> [] | Some bs \<Rightarrow> bs)),
     flag_executable = 2,
     flag_freezed = 1,
     get_cycles = t_cycles,
     set_cycles = (\<lambda>n m. m\<lparr>t_cycles := n\<rparr>),
     add_cycles_no_checking = (\<lambda>n m. (Ok (), m\<lparr>t_cycles := t_cycles m + n\<rparr>)),
     set_max_cycles = (\<lambda>n m. m\<lparr>t_max := n\<rparr>),
     set_pause = (\<lambda>_ m. m),
     pause_new = (),
     exit_code = t_exit,
     asm_run = toy_run,
     sc_new = (\<lambda>_. ()),
     sc_store_bytes = (\<lambda>a p off n. fail (External ''INDEX_OUT_OF_BOUND'')),
     sc_track_pages = (\<lambda>a n p off. ret ()),
     sc_mark_program = (\<lambda>e p off. ret ()),
     sc_resume = (\<lambda>s (c, m). (Ok (), (c, s))),
     sc_make_snapshot = (\<lambda>(c, m). (Ok m, (c, m))),
     select_version = Inr V2,
     build_machine = (\<lambda>_ _. toy_new),
     machine_version = (\<lambda>_. 2),
     parse_elf = (\<lambda>bs _. case bs of [] \<Rightarrow> Err (OtherError 2) | b # _ \<Rightarrow> Ok (scripts b)),
     load_program_with_metadata =
       (\<lambda>bs script args m. (Ok (of_nat (length bs)), m\<lparr>t_script := script\<rparr>))\<rparr>"

text \<open>The fields, as simplification rules: the record itself stays folded.\<close>

lemma toy_env_sel [simp]:
  "overflow_checks (toy_env chk scripts) = chk"
  "size_of_bytes (toy_env chk scripts) = 32"
  "utf8_error_debug (toy_env chk scripts) = (\<lambda>_. [])"
  "get_register (toy_env chk scripts) = (\<lambda>m r. t_regs m r)"
  "set_register (toy_env chk scripts) = (\<lambda>r x m. m\<lparr>t_regs := (t_regs m)(r := x)\<rparr>)"
  "load8 (toy_env chk scripts) = toy_load8"
  "load64 (toy_env chk scripts) = toy_load64"
  "store8 (toy_env chk scripts) = (\<lambda>a x. toy_store_bytes a [ucast x])"
  "store64 (toy_env chk scripts) = (\<lambda>a x. toy_store_bytes a (le_bytes x))"
  "load_bytes (toy_env chk scripts) = toy_load_bytes"
  "store_bytes (toy_env chk scripts) = toy_store_bytes"
  "init_pages (toy_env chk scripts) = (\<lambda>a n fl d off. toy_store_bytes a (case d of None \<Rightarrow> [] | Some bs \<Rightarrow> bs))"
  "flag_executable (toy_env chk scripts) = 2"
  "flag_freezed (toy_env chk scripts) = 1"
  "get_cycles (toy_env chk scripts) = t_cycles"
  "set_cycles (toy_env chk scripts) = (\<lambda>n m. m\<lparr>t_cycles := n\<rparr>)"
  "add_cycles_no_checking (toy_env chk scripts) = (\<lambda>n m. (Ok (), m\<lparr>t_cycles := t_cycles m + n\<rparr>))"
  "set_max_cycles (toy_env chk scripts) = (\<lambda>n m. m\<lparr>t_max := n\<rparr>)"
  "set_pause (toy_env chk scripts) = (\<lambda>_ m. m)"
  "pause_new (toy_env chk scripts) = ()"
  "exit_code (toy_env chk scripts) = t_exit"
  "asm_run (toy_env chk scripts) = toy_run"
  "sc_new (toy_env chk scripts) = (\<lambda>_. ())"
  "sc_store_bytes (toy_env chk scripts) = (\<lambda>a p off n. fail (External ''INDEX_OUT_OF_BOUND''))"
  "sc_track_pages (toy_env chk scripts) = (\<lambda>a n p off. ret ())"
  "sc_mark_program (toy_env chk scripts) = (\<lambda>e p off. ret ())"
  "sc_resume (toy_env chk scripts) = (\<lambda>s (c, m). (Ok (), (c, s)))"
  "sc_make_snapshot (toy_env chk scripts) = (\<lambda>(c, m). (Ok m, (c, m)))"
  "select_version (toy_env chk scripts) = (Inr V2)"
  "build_machine (toy_env chk scripts) = (\<lambda>_ _. toy_new)"
  "machine_version (toy_env chk scripts) = (\<lambda>_. 2)"
  "parse_elf (toy_env chk scripts) = (\<lambda>bs _. case bs of [] \<Rightarrow> Err (OtherError 2) | b # _ \<Rightarrow> Ok (scripts b))"
  "load_program_with_metadata (toy_env chk scripts) = (\<lambda>bs script args m. (Ok (of_nat (length bs)), m\<lparr>t_script := script\<rparr>))"
  by (simp_all add: toy_env_def)

section \<open>It satisfies the contract of ckb-vm\<close>

lemma engine_trace_state:
  "engine_trace h (v\<lparr>vc_machine := m\<rparr>) r v' \<Longrightarrow> engine_trace h v r v'"
  by (rule engine_trace.executes)

lemma toy_steps_trace: "engine_trace h v (fst (toy_steps h script v)) (snd (toy_steps h script v))"
proof (induction script arbitrary: v)
  case Nil
  show ?case by (simp add: engine_trace.faults YIELD_def)
next
  case (Cons act rest)
  show ?case
  proof (cases "t_max (vc_machine v) \<le> t_cycles (vc_machine v)")
    case True
    then show ?thesis by (simp add: engine_trace.faults YIELD_def)
  next
    case False
    show ?thesis
    proof (cases act)
      case (TCall regs)
      let ?m1 = "(vc_machine v)\<lparr>t_cycles := t_cycles (vc_machine v) + 1, t_script := rest\<rparr>"
      let ?v1 = "v\<lparr>vc_machine := ?m1\<lparr>t_regs := fold (\<lambda>(r, x) f. f(r := x)) regs (t_regs ?m1)\<rparr>\<rparr>"
      obtain r v2 where hv: "h ?v1 = (r, v2)" by fastforce
      have "engine_trace h ?v1 (fst (toy_steps h (act # rest) v)) (snd (toy_steps h (act # rest) v))"
        using hv False TCall Cons.IH [of v2]
        by (cases r) (auto simp: Let_def intro: engine_trace.intros)
      then show ?thesis by (rule engine_trace.executes)
    qed (use False in \<open>auto simp: Let_def YIELD_def intro: engine_trace.faults engine_trace.exits
        intro!: engine_trace_state [where v = v]\<close>)
  qed
qed

lemma toy_contract: "asm_run_contract (toy_env chk scripts)"
  by (simp add: asm_run_contract_def toy_env_def toy_run_def toy_steps_trace)


lemma toy_steps_panics: "panics_in X h \<Longrightarrow> panics_in X (toy_steps h script)"
proof (induction script)
  case (Cons act rest)
  then show ?case
    by (cases act) (auto simp: panics_in_def Let_def split: prod.splits res.splits if_splits,
        metis fst_conv)
qed (simp add: panics_in_def)

lemma toy_panics: "X ArithOverflow \<Longrightarrow> X CapacityOverflow \<Longrightarrow> X Diverges \<Longrightarrow>
    panics_within (toy_env chk scripts) X"
  using toy_steps_panics [of X]
  by (auto simp: panics_within_def toy_run_def toy_load8_def toy_load64_def toy_load_bytes_def
      toy_store_bytes_def panics_in_pure split: list.splits) (auto simp: panics_in_def toy_load8_def
      toy_load64_def toy_load_bytes_def toy_store_bytes_def toy_run_def split: if_splits)

end
