(* ===== verification/Syscalls.thy ===== *)
theory Syscalls
  imports Sample_Machine
begin

text \<open>
  The syscalls of a VM, \<open>src/syscalls.rs\<close>: one program per method of \<open>MachineContext\<close> and
  the dispatcher \<open>ecall\<close>. A syscall that needs the scheduler leaves one message in the
  message box and fails with \<open>YIELD\<close>, which ends the run of its machine.
\<close>

section \<open>Constants and small utilities\<close>

definition SUCCESS :: u8 where "SUCCESS = 0"
definition INDEX_OUT_OF_BOUND :: u8 where "INDEX_OUT_OF_BOUND = 1"
definition SLICE_OUT_OF_BOUND :: u8 where "SLICE_OUT_OF_BOUND = 3"
definition JOIN_FAILURE :: u8 where "JOIN_FAILURE = 5"
definition INVALID_PIPE :: u8 where "INVALID_PIPE = 6"
definition OTHER_END_CLOSED :: u8 where "OTHER_END_CLOSED = 7"

definition BYTES_PER_CYCLE :: u64 where
  "BYTES_PER_CYCLE = 4"

definition transferred_byte_cycles :: "bool \<Rightarrow> u64 \<Rightarrow> ('st, u64) prog" where
  "transferred_byte_cycles chk n =
     and_then (add_u64 chk n BYTES_PER_CYCLE) (\<lambda>a.
     and_then (sub_u64 chk a 1) (\<lambda>b.
     ret (b div BYTES_PER_CYCLE)))"

text \<open>\<open>machine.set_register(A0, Mac::REG::from_u8(code))\<close>.\<close>

definition set_a0 ::
    "('m, 'c, 's, 'e, 'z, 'd) ckb_env \<Rightarrow> u8 \<Rightarrow> (('m, 'c, 'd) vmcall, unit) prog" where
  "set_a0 env code = write_reg env A0 (ucast code)"

definition charge_bytes ::
    "('m, 'c, 's, 'e, 'z, 'd) ckb_env \<Rightarrow> u64 \<Rightarrow> (('m, 'c, 'd) vmcall, unit) prog" where
  "charge_bytes env n =
     and_then (transferred_byte_cycles (overflow_checks env) n) (\<lambda>cost.
     mach (add_cycles_no_checking env cost))"

text \<open>
  The loop of \<open>load_c_string\<close> and of \<open>debug\<close>: bytes up to the first zero. The fuel is the
  number of addresses; a loop that has read that many bytes has read every address, found
  no zero and does not end.
\<close>

fun scan_zero :: "('m, 'c, 's, 'e, 'z, 'd) ckb_env \<Rightarrow> nat \<Rightarrow> u64 \<Rightarrow> bytes \<Rightarrow>
    (('m, 'c, 'd) vmcall, bytes) prog" where
  "scan_zero env 0 addr buffer = panic Diverges"
| "scan_zero env (Suc n) addr buffer =
     and_then (mach (load8 env addr)) (\<lambda>byte.
       if byte = 0 then ret buffer
       else and_then (add_u64 (overflow_checks env) addr 1) (\<lambda>addr'.
         scan_zero env n addr' (buffer @ [byte])))"

definition load_c_string ::
    "('m, 'c, 's, 'e, 'z, 'd) ckb_env \<Rightarrow> u64 \<Rightarrow> (('m, 'c, 'd) vmcall, bytes) prog" where
  "load_c_string env addr = scan_zero env (2 ^ 64) addr []"

section \<open>Reading and loading syscalls\<close>

definition current_cycles ::
    "('m, 'c, 's, 'e, 'z, 'd) ckb_env \<Rightarrow> (('m, 'c, 'd) vmcall, unit) prog" where
  "current_cycles env =
     and_then (gets (\<lambda>v. (mc_base_cycles (vc_context v), get_cycles env (vc_machine v))))
       (\<lambda>(base, used).
     and_then (ok_or CyclesOverflow (checked_add base used)) (\<lambda>total.
     write_reg env A0 total))"

definition load_cell_data ::
    "('m, 'c, 's, 'e, 'z, 'd) ckb_env \<Rightarrow> (('m, 'c, 'd) vmcall, unit) prog" where
  "load_cell_data env =
     and_then (read_reg env A3) (\<lambda>index.
     and_then (read_reg env A4) (\<lambda>source.
     case data_piece_try_from source index of
       Inl _ \<Rightarrow> set_a0 env INDEX_OUT_OF_BOUND
     | Inr piece \<Rightarrow>
         and_then (read_reg env A0) (\<lambda>addr.
         and_then (read_reg env A1) (\<lambda>size_addr.
         and_then (mach (load64 env size_addr)) (\<lambda>size.
         and_then (read_reg env A2) (\<lambda>offset.
         and_then (attempt (snap (sc_store_bytes env addr piece offset size))) (\<lambda>stored.
         case stored of
           Ok (wrote_size, full_size) \<Rightarrow>
             and_then (mach (store64 env size_addr full_size)) (\<lambda>_.
             and_then (charge_bytes env wrote_size) (\<lambda>_.
             set_a0 env SUCCESS))
         | Err e \<Rightarrow>
             if e = INDEX_OUT_OF_BOUND_ERR then set_a0 env INDEX_OUT_OF_BOUND else fail e
         | Panic k \<Rightarrow> panic k)))))))"

definition load_cell_data_as_code ::
    "('m, 'c, 's, 'e, 'z, 'd) ckb_env \<Rightarrow> (('m, 'c, 'd) vmcall, unit) prog" where
  "load_cell_data_as_code env =
     and_then (read_reg env A0) (\<lambda>addr.
     and_then (read_reg env A1) (\<lambda>memory_size.
     and_then (read_reg env A2) (\<lambda>content_offset.
     and_then (read_reg env A3) (\<lambda>content_size.
     and_then (read_reg env A4) (\<lambda>index.
     and_then (read_reg env A5) (\<lambda>source.
     case data_piece_try_from source index of
       Inl _ \<Rightarrow> set_a0 env INDEX_OUT_OF_BOUND
     | Inr piece \<Rightarrow>
         and_then (gets vc_data) (\<lambda>tx.
         case load_data tx piece 0 u64_max of
           Err e \<Rightarrow>
             if e = INDEX_OUT_OF_BOUND_ERR then set_a0 env INDEX_OUT_OF_BOUND else fail e
         | Panic k \<Rightarrow> panic k
         | Ok (cell, _) \<Rightarrow>
             and_then (ok_or MemOutOfBound (checked_add content_offset content_size))
               (\<lambda>content_end.
             if of_nat (length cell) \<le> content_offset \<or> of_nat (length cell) < content_end
                \<or> memory_size < content_size
             then set_a0 env SLICE_OUT_OF_BOUND
             else
               and_then (mach (init_pages env addr memory_size
                   (flag_executable env OR flag_freezed env)
                   (Some (take (unat content_end - unat content_offset)
                     (drop (unat content_offset) cell))) 0)) (\<lambda>_.
               and_then (snap (sc_track_pages env addr memory_size piece content_offset)) (\<lambda>_.
               and_then (charge_bytes env memory_size) (\<lambda>_.
               set_a0 env SUCCESS)))))))))))"

text \<open>
  \<open>String::from_utf8\<close> accepts exactly the well-formed byte sequences of the Unicode
  standard (table 3-7).
\<close>

definition cont_byte :: "u8 \<Rightarrow> bool" where
  "cont_byte b \<longleftrightarrow> 0x80 \<le> b \<and> b \<le> 0xBF"

fun valid_utf8 :: "bytes \<Rightarrow> bool" where
  "valid_utf8 [] = True"
| "valid_utf8 (a # bs) =
     (if a \<le> 0x7F then valid_utf8 bs
      else case bs of
        [] \<Rightarrow> False
      | b # cs \<Rightarrow>
        if 0xC2 \<le> a \<and> a \<le> 0xDF then cont_byte b \<and> valid_utf8 cs
        else case cs of
          [] \<Rightarrow> False
        | c # ds \<Rightarrow>
          if 0xE0 \<le> a \<and> a \<le> 0xEF then
            (if a = 0xE0 then 0xA0 \<le> b \<and> b \<le> 0xBF
             else if a = 0xED then 0x80 \<le> b \<and> b \<le> 0x9F else cont_byte b)
            \<and> cont_byte c \<and> valid_utf8 ds
          else case ds of
            [] \<Rightarrow> False
          | d # es \<Rightarrow>
            0xF0 \<le> a \<and> a \<le> 0xF4
            \<and> (if a = 0xF0 then 0x90 \<le> b \<and> b \<le> 0xBF
               else if a = 0xF4 then 0x80 \<le> b \<and> b \<le> 0x8F else cont_byte b)
            \<and> cont_byte c \<and> cont_byte d \<and> valid_utf8 es)"

definition debug_syscall ::
    "('m, 'c, 's, 'e, 'z, 'd) ckb_env \<Rightarrow> (('m, 'c, 'd) vmcall, unit) prog" where
  "debug_syscall env =
     and_then (read_reg env A0) (\<lambda>addr.
     and_then (scan_zero env (2 ^ 64) addr []) (\<lambda>buffer.
     and_then (charge_bytes env (of_nat (length buffer))) (\<lambda>_.
     if valid_utf8 buffer then ret ()
     else fail (External (''String from buffer '' @ utf8_error_debug env buffer)))))"

section \<open>Syscalls that yield to the scheduler\<close>

definition yield_with :: "message \<Rightarrow> (('m, 'c, 'd) vmcall, unit) prog" where
  "yield_with msg = and_then (push_message msg) (\<lambda>_. fail YIELD)"

text \<open>
  \<open>Vec::with_capacity(n)\<close> for items of \<open>item_size\<close> bytes panics when they take more than
  \<open>isize::MAX\<close> bytes.
\<close>

definition with_capacity :: "nat \<Rightarrow> u64 \<Rightarrow> ('st, unit) prog" where
  "with_capacity item_size n =
     (if unat n * item_size > 2 ^ 63 - 1 then panic CapacityOverflow else ret ())"

fun read_argv :: "('m, 'c, 's, 'e, 'z, 'd) ckb_env \<Rightarrow> nat \<Rightarrow> u64 \<Rightarrow> bytes list \<Rightarrow>
    (('m, 'c, 'd) vmcall, bytes list) prog" where
  "read_argv env 0 argv_addr argv = ret argv"
| "read_argv env (Suc n) argv_addr argv =
     and_then (mach (load64 env argv_addr)) (\<lambda>target_addr.
     and_then (load_c_string env target_addr) (\<lambda>cstr.
     and_then (add_u64 (overflow_checks env) argv_addr 8) (\<lambda>argv_addr'.
     read_argv env n argv_addr' (argv @ [cstr]))))"

fun read_pipes :: "('m, 'c, 's, 'e, 'z, 'd) ckb_env \<Rightarrow> nat \<Rightarrow> u64 \<Rightarrow> pipe_id list \<Rightarrow>
    (('m, 'c, 'd) vmcall, pipe_id list) prog" where
  "read_pipes env 0 pipes_addr acc = panic Diverges"
| "read_pipes env (Suc n) pipes_addr acc =
     and_then (mach (load64 env pipes_addr)) (\<lambda>pipe.
       if pipe = 0 then ret acc
       else and_then (add_u64 (overflow_checks env) pipes_addr 8) (\<lambda>pipes_addr'.
         read_pipes env n pipes_addr' (acc @ [PipeId pipe])))"

definition spawn_argv ::
    "('m, 'c, 's, 'e, 'z, 'd) ckb_env \<Rightarrow> (('m, 'c, 'd) vmcall, bytes list) prog" where
  "spawn_argv env =
     and_then (read_reg env A3) (\<lambda>argc.
     and_then (read_reg env A4) (\<lambda>argv_addr.
     and_then (with_capacity (size_of_bytes env) argc) (\<lambda>_.
     read_argv env (unat argc) argv_addr [])))"

definition spawn_spgs ::
    "('m, 'c, 's, 'e, 'z, 'd) ckb_env \<Rightarrow> (('m, 'c, 'd) vmcall, u64 \<times> pipe_id list) prog" where
  "spawn_spgs env =
     and_then (read_reg env A5) (\<lambda>spgs_addr.
     and_then (mach (load64 env spgs_addr)) (\<lambda>instance_id_addr.
     and_then (mach (load64 env (spgs_addr + 8))) (\<lambda>pipes_addr.
     and_then (if pipes_addr \<noteq> 0 then read_pipes env (2 ^ 64) pipes_addr [] else ret [])
       (\<lambda>pipes.
     ret (instance_id_addr, pipes)))))"

definition spawn_check ::
    "('m, 'c, 's, 'e, 'z, 'd) ckb_env \<Rightarrow> data_piece_id \<Rightarrow> u64 \<Rightarrow> u64 \<Rightarrow>
     (('m, 'c, 'd) vmcall, u8 option) prog" where
  "spawn_check env piece offset len =
     and_then (gets vc_data) (\<lambda>tx.
     case load_data tx piece 0 0 of
       Err e \<Rightarrow> if e = INDEX_OUT_OF_BOUND_ERR then ret (Some INDEX_OUT_OF_BOUND) else fail e
     | Panic k \<Rightarrow> panic k
     | Ok (_, full_length) \<Rightarrow>
         if full_length \<le> offset then ret (Some SLICE_OUT_OF_BOUND)
         else if 0 < len then
           and_then (ok_or MemOutOfBound (checked_add offset len)) (\<lambda>upto.
           if full_length < upto then ret (Some SLICE_OUT_OF_BOUND) else ret None)
         else ret None)"

definition spawn ::
    "('m, 'c, 's, 'e, 'z, 'd) ckb_env \<Rightarrow> (('m, 'c, 'd) vmcall, unit) prog" where
  "spawn env =
     and_then (read_reg env A0) (\<lambda>index.
     and_then (read_reg env A1) (\<lambda>source.
     case data_piece_try_from source index of
       Inl _ \<Rightarrow> set_a0 env INDEX_OUT_OF_BOUND
     | Inr piece \<Rightarrow>
         and_then (read_reg env A2) (\<lambda>bounds.
         let offset = drop_bit 32 bounds; len = ucast (ucast bounds :: u32) in
         and_then (spawn_argv env) (\<lambda>argv.
         and_then (spawn_spgs env) (\<lambda>(instance_id_addr, pipes).
         and_then (spawn_check env piece offset len) (\<lambda>refused.
         case refused of
           Some code \<Rightarrow> set_a0 env code
         | None \<Rightarrow>
             and_then (gets vc_id) (\<lambda>self_id.
             yield_with (MSpawn self_id
               \<lparr>sp_data_piece_id = piece, sp_offset = offset, sp_length = len, sp_argv = argv,
                sp_pipes = pipes, sp_instance_id_addr = instance_id_addr\<rparr>))))))))"

definition join ::
    "('m, 'c, 's, 'e, 'z, 'd) ckb_env \<Rightarrow> (('m, 'c, 'd) vmcall, unit) prog" where
  "join env =
     and_then (read_reg env A0) (\<lambda>target_id.
     and_then (read_reg env A1) (\<lambda>code_addr.
     and_then (gets vc_id) (\<lambda>self_id.
     yield_with (MJoin self_id
       \<lparr>jn_target_id = target_id, jn_exit_code_addr = code_addr\<rparr>))))"

definition instance_id ::
    "('m, 'c, 's, 'e, 'z, 'd) ckb_env \<Rightarrow> (('m, 'c, 'd) vmcall, unit) prog" where
  "instance_id env = and_then (gets vc_id) (\<lambda>self_id. write_reg env A0 self_id)"

definition pipe ::
    "('m, 'c, 's, 'e, 'z, 'd) ckb_env \<Rightarrow> (('m, 'c, 'd) vmcall, unit) prog" where
  "pipe env =
     and_then (read_reg env A0) (\<lambda>pipe1_addr.
     and_then (gets vc_id) (\<lambda>self_id.
     yield_with (MPipe self_id
       \<lparr>pa_pipe1_addr = pipe1_addr, pa_pipe2_addr = pipe1_addr + 8\<rparr>)))"

definition pipe_write ::
    "('m, 'c, 's, 'e, 'z, 'd) ckb_env \<Rightarrow> (('m, 'c, 'd) vmcall, unit) prog" where
  "pipe_write env =
     and_then (read_reg env A0) (\<lambda>buffer_addr.
     and_then (read_reg env A1) (\<lambda>length_addr.
     and_then (mach (load64 env length_addr)) (\<lambda>len.
     and_then (read_reg env A2) (\<lambda>fd.
     if \<not> is_write (PipeId fd) then set_a0 env INVALID_PIPE
     else
       and_then (gets vc_id) (\<lambda>self_id.
       yield_with (MPipeWrite self_id
         \<lparr>io_pipe = PipeId fd, io_length = len, io_buffer_addr = buffer_addr,
          io_length_addr = length_addr\<rparr>))))))"

definition pipe_read ::
    "('m, 'c, 's, 'e, 'z, 'd) ckb_env \<Rightarrow> (('m, 'c, 'd) vmcall, unit) prog" where
  "pipe_read env =
     and_then (read_reg env A0) (\<lambda>buffer_addr.
     and_then (read_reg env A1) (\<lambda>length_addr.
     and_then (mach (load64 env length_addr)) (\<lambda>len.
     and_then (read_reg env A2) (\<lambda>fd.
     if \<not> is_read (PipeId fd) then set_a0 env INVALID_PIPE
     else
       and_then (gets vc_id) (\<lambda>self_id.
       yield_with (MPipeRead self_id
         \<lparr>io_pipe = PipeId fd, io_length = len, io_buffer_addr = buffer_addr,
          io_length_addr = length_addr\<rparr>))))))"

section \<open>The dispatcher\<close>

definition ecall ::
    "('m, 'c, 's, 'e, 'z, 'd) ckb_env \<Rightarrow> (('m, 'c, 'd) vmcall, bool) prog" where
  "ecall env =
     and_then (read_reg env A7) (\<lambda>code.
     let handled = (\<lambda>f. and_then f (\<lambda>_. ret True)) in
       if code = 2042 then handled (current_cycles env)
       else if code = 2091 then handled (load_cell_data_as_code env)
       else if code = 2092 then handled (load_cell_data env)
       else if code = 2177 then handled (debug_syscall env)
       else if code = 2601 then handled (spawn env)
       else if code = 2602 then handled (join env)
       else if code = 2603 then handled (instance_id env)
       else if code = 2604 then handled (pipe env)
       else if code = 2605 then handled (pipe_write env)
       else if code = 2606 then handled (pipe_read env)
       else ret False)"

section \<open>Which syscalls talk to the scheduler\<close>

definition vc_frame :: "('m, 'c, 'd) vmcall \<Rightarrow> message list \<times> vm_id \<times> 'd tx_data" where
  "vc_frame v = (vc_box v, vc_id v, vc_data v)"

text \<open>\<open>quiet f\<close>: \<open>f\<close> leaves no message and does not yield.\<close>

definition quiet :: "(('m, 'c, 'd) vmcall, 'a) prog \<Rightarrow> bool" where
  "quiet f \<longleftrightarrow> (\<forall>v. vc_frame (snd (f v)) = vc_frame v \<and> fst (f v) \<noteq> Err YIELD)"

text \<open>ckb-vm does not know the string \<open>YIELD\<close>: none of its operations fails with it.\<close>

definition never_yields :: "('st, 'a) prog \<Rightarrow> bool" where
  "never_yields f \<longleftrightarrow> (\<forall>s. fst (f s) \<noteq> Err YIELD)"

definition no_foreign_yield :: "('m, 'c, 's, 'e, 'z, 'd) ckb_env \<Rightarrow> bool" where
  "no_foreign_yield env \<longleftrightarrow>
     (\<forall>a. never_yields (load8 env a)) \<and> (\<forall>a. never_yields (load64 env a))
     \<and> (\<forall>a x. never_yields (store64 env a x))
     \<and> (\<forall>a n fl d off. never_yields (init_pages env a n fl d off))
     \<and> (\<forall>n. never_yields (add_cycles_no_checking env n))
     \<and> (\<forall>a p off n. never_yields (sc_store_bytes env a p off n))
     \<and> (\<forall>a n p off. never_yields (sc_track_pages env a n p off))"

named_theorems quiet_intros

lemma quiet_pure [quiet_intros]:
  "quiet (ret a)" "quiet (panic k)" "quiet (gets g)" "e \<noteq> YIELD \<Longrightarrow> quiet (fail e)"
  "e \<noteq> YIELD \<Longrightarrow> quiet (ok_or e x)" "quiet (add_u64 chk p q)" "quiet (sub_u64 chk p q)"
  "quiet (with_capacity m n)" "quiet (read_reg env r)" "quiet (transferred_byte_cycles chk n)"
  by (simp_all add: quiet_def prog_defs with_capacity_def read_reg_def transferred_byte_cycles_def
      split: option.splits)

lemma quiet_write_reg [quiet_intros]: "quiet (write_reg env r x)" "quiet (set_a0 env code)"
  by (simp_all add: quiet_def write_reg_def set_a0_def modify_def vc_frame_def)

lemma quiet_mach [quiet_intros]: "never_yields f \<Longrightarrow> quiet (mach f)"
  by (simp add: quiet_def mach_def never_yields_def vc_frame_def split: prod.splits)
    (metis fst_conv)

lemma quiet_snap [quiet_intros]: "never_yields f \<Longrightarrow> quiet (snap f)"
  by (simp add: quiet_def snap_def never_yields_def vc_frame_def split: prod.splits)
    (metis fst_conv)

lemma quiet_and_then [quiet_intros]:
  "quiet f \<Longrightarrow> (\<And>a. quiet (g a)) \<Longrightarrow> quiet (and_then f g)"
  by (simp add: quiet_def and_then_def split: prod.splits res.splits) (metis fst_conv snd_conv)

lemma quiet_attempt [quiet_intros]: "quiet f \<Longrightarrow> quiet (attempt f)"
  by (simp add: quiet_def attempt_def split: prod.splits res.splits) (metis snd_conv)

lemma quiet_if [quiet_intros]:
  "(b \<Longrightarrow> quiet f) \<Longrightarrow> (\<not> b \<Longrightarrow> quiet g) \<Longrightarrow> quiet (if b then f else g)"
  by simp

lemma foreign_quiet [quiet_intros]:
  assumes "no_foreign_yield env"
  shows "never_yields (load8 env a)" "never_yields (load64 env a)"
    "never_yields (store64 env a x)" "never_yields (init_pages env a x fl d off)"
    "never_yields (add_cycles_no_checking env x)" "never_yields (sc_store_bytes env a p x y)"
    "never_yields (sc_track_pages env a x p y)"
  using assms by (simp_all add: no_foreign_yield_def)

lemma not_YIELD [simp]: "INDEX_OUT_OF_BOUND_ERR \<noteq> YIELD" "CyclesOverflow \<noteq> YIELD"
  "MemOutOfBound \<noteq> YIELD" "Unexpected u \<noteq> YIELD" "External (CHR ''S'' # t) \<noteq> YIELD"
  by (simp_all add: YIELD_def INDEX_OUT_OF_BOUND_ERR_def)

lemma load_data_no_yield [simp]: "load_data tx piece off len \<noteq> Err YIELD"
  "load_data tx piece off len \<noteq> Panic k"
  by (auto simp: load_data_def load_full_def load_cell_def load_output_def
      split: res.splits data_piece_id.splits option.splits)

lemma quiet_attempt_then [quiet_intros]:
  assumes "quiet f" and "\<And>a. quiet (g (Ok a))" and "\<And>e. e \<noteq> YIELD \<Longrightarrow> quiet (g (Err e))"
  shows "quiet (and_then (attempt f) g)"
proof -
  have "vc_frame (snd (and_then (attempt f) g v)) = vc_frame v
      \<and> fst (and_then (attempt f) g v) \<noteq> Err YIELD" for v
    using assms by (cases "f v"; cases "fst (f v)")
      (auto simp: quiet_def and_then_def attempt_def dest!: spec [of _ v])
  then show ?thesis by (simp add: quiet_def)
qed

lemma quiet_charge_bytes [quiet_intros]: "no_foreign_yield env \<Longrightarrow> quiet (charge_bytes env n)"
  by (auto simp: charge_bytes_def intro: quiet_intros)

lemma quiet_scan_zero [quiet_intros]:
  "no_foreign_yield env \<Longrightarrow> quiet (scan_zero env n addr buffer)"
  by (induction env n addr buffer rule: scan_zero.induct) (auto intro!: quiet_intros)

lemma quiet_load_c_string [quiet_intros]:
  "no_foreign_yield env \<Longrightarrow> quiet (load_c_string env addr)"
  by (simp add: load_c_string_def quiet_intros)

lemma quiet_read_argv [quiet_intros]:
  "no_foreign_yield env \<Longrightarrow> quiet (read_argv env n addr acc)"
  by (induction env n addr acc rule: read_argv.induct) (auto intro!: quiet_intros)

lemma quiet_read_pipes [quiet_intros]:
  "no_foreign_yield env \<Longrightarrow> quiet (read_pipes env n addr acc)"
  by (induction env n addr acc rule: read_pipes.induct) (auto intro!: quiet_intros)

lemma quiet_spawn_parts [quiet_intros]:
  assumes "no_foreign_yield env"
  shows "quiet (spawn_argv env)" "quiet (spawn_spgs env)" "quiet (spawn_check env piece off len)"
  using assms
  by (auto simp: spawn_argv_def spawn_spgs_def spawn_check_def
      intro!: quiet_intros split: res.splits)

lemma quiet_data_syscalls [quiet_intros]:
  assumes "no_foreign_yield env"
  shows "quiet (current_cycles env)" "quiet (debug_syscall env)" "quiet (instance_id env)"
    "quiet (load_cell_data_as_code env)"
  using assms
  by (auto simp: current_cycles_def debug_syscall_def instance_id_def load_cell_data_as_code_def
      intro!: quiet_intros split: res.splits sum.splits prod.splits)

text \<open>
  \<open>messaging f v\<close>: called on \<open>v\<close>, \<open>f\<close> is quiet, or it leaves exactly one message, from the
  calling VM and well-formed, and yields.
\<close>

fun message_from :: "message \<Rightarrow> vm_id" where
  "message_from (MSpawn i _) = i"
| "message_from (MJoin i _) = i"
| "message_from (MPipe i _) = i"
| "message_from (MPipeRead i _) = i"
| "message_from (MPipeWrite i _) = i"

definition spawn_args_ok :: "'d tx_data \<Rightarrow> spawn_args \<Rightarrow> bool" where
  "spawn_args_ok tx a \<longleftrightarrow> (case load_data tx (sp_data_piece_id a) 0 0 of
     Ok (_, full) \<Rightarrow> sp_offset a < full
       \<and> (sp_length a = 0 \<or> unat (sp_offset a) + unat (sp_length a) \<le> unat full)
   | _ \<Rightarrow> False)"

fun message_ok :: "'d tx_data \<Rightarrow> message \<Rightarrow> bool" where
  "message_ok tx (MSpawn _ a) = spawn_args_ok tx a"
| "message_ok tx (MPipeRead _ a) = is_read (io_pipe a)"
| "message_ok tx (MPipeWrite _ a) = is_write (io_pipe a)"
| "message_ok tx _ = True"

definition one_message :: "('m, 'c, 'd) vmcall \<Rightarrow> 'a res \<Rightarrow> ('m, 'c, 'd) vmcall \<Rightarrow> bool" where
  "one_message v r v' \<longleftrightarrow> vc_id v' = vc_id v \<and> vc_data v' = vc_data v \<and>
     (if r = Err YIELD
      then \<exists>msg. vc_box v' = vc_box v @ [msg] \<and> message_from msg = vc_id v
             \<and> message_ok (vc_data v) msg
      else vc_box v' = vc_box v)"

definition messaging :: "(('m, 'c, 'd) vmcall, 'a) prog \<Rightarrow> ('m, 'c, 'd) vmcall \<Rightarrow> bool" where
  "messaging f v \<longleftrightarrow> one_message v (fst (f v)) (snd (f v))"

lemma messaging_quiet: "quiet f \<Longrightarrow> messaging f v"
  by (simp add: quiet_def messaging_def one_message_def vc_frame_def)

lemma messaging_and_then:
  assumes "quiet f" and "\<And>a v'. f v = (Ok a, v') \<Longrightarrow> vc_id v' = vc_id v \<Longrightarrow> vc_data v' = vc_data v \<Longrightarrow> messaging (g a) v'"
  shows "messaging (and_then f g) v"
proof (cases "f v")
  case (Pair r v1)
  have fr: "vc_box v1 = vc_box v" "vc_id v1 = vc_id v" "vc_data v1 = vc_data v" "r \<noteq> Err YIELD"
    using assms(1) Pair by (auto simp: quiet_def vc_frame_def dest!: spec [of _ v])
  show ?thesis
  proof (cases r)
    case (Ok a)
    with assms(2) Pair fr have "messaging (g a) v1" by simp
    with Pair Ok fr show ?thesis
      by (cases "fst (g a v1) = Err YIELD") (simp_all add: messaging_def one_message_def and_then_def)
  qed (use Pair fr in \<open>simp_all add: messaging_def one_message_def and_then_def\<close>)
qed

lemma messaging_yield:
  "message_from msg = vc_id v \<Longrightarrow> message_ok (vc_data v) msg \<Longrightarrow> messaging (yield_with msg) v"
  by (simp add: messaging_def one_message_def yield_with_def push_message_def prog_defs)

lemma gets_Ok [simp]: "gets f v = (Ok a, v') \<longleftrightarrow> a = f v \<and> v' = v"
  by (auto simp: gets_def)

lemma spawn_check_None:
  assumes "spawn_check env piece off len v = (Ok None, v')"
  shows "spawn_args_ok (vc_data v) \<lparr>sp_data_piece_id = piece, sp_offset = off, sp_length = len,
     sp_argv = argv, sp_pipes = ps, sp_instance_id_addr = ia\<rparr>"
  using assms
  by (auto simp: spawn_check_def spawn_args_ok_def prog_defs checked_add_def not_le not_less
      word_le_nat_alt word_less_nat_alt unat_add_u64 split: res.splits if_splits option.splits)

lemma quiet_load_cell_data [quiet_intros]:
  assumes "no_foreign_yield env"
  shows "quiet (load_cell_data env)"
proof -
  have "quiet (and_then (attempt (snap (sc_store_bytes env addr piece off n))) (\<lambda>stored.
       case stored of
         Ok (wrote_size, full_size) \<Rightarrow>
           and_then (mach (store64 env size_addr full_size)) (\<lambda>_.
           and_then (charge_bytes env wrote_size) (\<lambda>_. set_a0 env SUCCESS))
       | Err e \<Rightarrow> if e = INDEX_OUT_OF_BOUND_ERR then set_a0 env INDEX_OUT_OF_BOUND else fail e
       | Panic k \<Rightarrow> panic k))" for addr piece off n size_addr
    using assms by (rule_tac quiet_attempt_then) (auto intro!: quiet_intros)
  note tail = this
  show ?thesis
    using assms by (auto simp: load_cell_data_def intro!: tail quiet_intros split: sum.splits)
qed

lemma messaging_if:
  "(b \<Longrightarrow> messaging f v) \<Longrightarrow> (\<not> b \<Longrightarrow> messaging g v) \<Longrightarrow> messaging (if b then f else g) v"
  by simp

lemma messaging_set_a0: "messaging (set_a0 env code) v"
  by (intro messaging_quiet quiet_intros)

lemmas messaging_rules = messaging_and_then messaging_yield messaging_if messaging_set_a0
  quiet_intros

lemma messaging_handlers:
  assumes "no_foreign_yield env"
  shows "messaging (join env) v" "messaging (pipe env) v"
    "messaging (pipe_write env) v" "messaging (pipe_read env) v"
  using assms
  by (auto simp: join_def pipe_def pipe_write_def pipe_read_def intro!: messaging_rules)

lemma messaging_spawn:
  assumes "no_foreign_yield env"
  shows "messaging (spawn env) v"
proof -
  have "messaging (case refused of
           Some code \<Rightarrow> set_a0 env code
         | None \<Rightarrow>
             and_then (gets vc_id) (\<lambda>self_id.
             yield_with (MSpawn self_id
               \<lparr>sp_data_piece_id = piece, sp_offset = offset, sp_length = len, sp_argv = argv,
                sp_pipes = pipes, sp_instance_id_addr = ia\<rparr>))) v'"
    if "spawn_check env piece offset len v0 = (Ok refused, v')" "vc_data v' = vc_data v0"
    for refused piece offset len argv pipes ia v0 v'
    using that
    by (cases refused) (auto intro!: messaging_rules dest: spawn_check_None)
  then show ?thesis
    using assms by (auto simp: spawn_def Let_def intro!: messaging_rules split: sum.splits prod.splits)
qed

lemma messaging_handled: "messaging f v \<Longrightarrow> messaging (and_then f (\<lambda>_. ret b)) v"
  by (cases "f v"; cases "fst (f v)")
    (auto simp: messaging_def one_message_def and_then_def ret_def)

lemma messaging_ecall:
  assumes "no_foreign_yield env"
  shows "messaging (ecall env) v"
proof -
  note quiet = quiet_data_syscalls [OF assms] quiet_load_cell_data [OF assms]
  have handled: "messaging (and_then f (\<lambda>_. ret True)) v'"
    if "f \<in> {current_cycles env, load_cell_data_as_code env, load_cell_data env,
      debug_syscall env, spawn env, join env, instance_id env, pipe env, pipe_write env,
      pipe_read env}" for f v'
    using that messaging_handlers [OF assms] messaging_spawn [OF assms]
      quiet [THEN messaging_quiet] by (blast intro: messaging_handled)
  show ?thesis
    unfolding ecall_def Let_def
    by (rule messaging_and_then, rule quiet_intros) (simp add: handled messaging_quiet quiet_pure)
qed

text \<open>
  One syscall leaves the scheduler at most one message. It leaves one exactly when it
  yields: then the message names the calling VM, its pipe is an end of the right kind, and
  the slice of a spawn lies inside its cell. Otherwise the message box is untouched.
\<close>

lemma ecall_one_message:
  assumes "no_foreign_yield env" and "ecall env v = (r, v')"
  shows "vc_id v' = vc_id v \<and> vc_data v' = vc_data v \<and>
    (if r = Err YIELD
     then \<exists>msg. vc_box v' = vc_box v @ [msg] \<and> message_from msg = vc_id v
            \<and> message_ok (vc_data v) msg
     else vc_box v' = vc_box v)"
  using messaging_ecall [OF assms(1), of v] assms(2) by (simp add: messaging_def one_message_def)

definition sample_vmcall :: "toy \<Rightarrow> (toy, unit, nat) vmcall" where
  "sample_vmcall m = \<lparr>vc_machine = m, vc_context = \<lparr>mc_id = 3, mc_base_cycles = 0,
     mc_snapshot2_context = (), mc_data_source = sample_tx\<rparr>, vc_box = []\<rparr>"

lemma toy_never_yields [simp]:
  "never_yields (toy_load8 a)" "never_yields (toy_load64 a)" "never_yields (toy_store_bytes a bs)"
  by (simp_all add: never_yields_def toy_load8_def toy_load64_def toy_store_bytes_def YIELD_def)

lemma toy_no_foreign_yield: "no_foreign_yield (toy_env chk scripts)"
  by (simp add: no_foreign_yield_def) (simp add: never_yields_def fail_def ret_def YIELD_def)

definition joining_toy :: toy where
  "joining_toy = toy_new\<lparr>t_regs := (\<lambda>_. 0)(17 := 2602, 10 := 1, 11 := 64)\<rparr>"

lemma ecall_joining_toy:
  "ecall (toy_env chk scripts) (sample_vmcall joining_toy) = (Err YIELD,
     (sample_vmcall joining_toy)
       \<lparr>vc_box := [MJoin 3 \<lparr>jn_target_id = 1, jn_exit_code_addr = 64\<rparr>]\<rparr>)"
  by (simp add: ecall_def join_def yield_with_def push_message_def read_reg_def prog_defs
      sample_vmcall_def joining_toy_def)

lemma ecall_one_message_witness:
  "\<exists>msg. vc_box ((sample_vmcall joining_toy)
       \<lparr>vc_box := [MJoin 3 \<lparr>jn_target_id = 1, jn_exit_code_addr = 64\<rparr>]\<rparr>) =
     vc_box (sample_vmcall joining_toy) @ [msg] \<and> message_from msg = 3"
  using ecall_one_message [OF toy_no_foreign_yield ecall_joining_toy]
  by (simp add: sample_vmcall_def)

lemma run_posts:
  assumes "asm_run_contract env" and "no_foreign_yield env"
    and "asm_run env (ecall env) v = (r, v')" and "\<forall>k. r \<noteq> Panic k"
  shows "one_message v r v'"
proof -
  let ?R = "\<lambda>v r v'. (\<exists>k. r = Panic k) \<or> one_message v r v'"
  have call: "one_message v (fst (ecall env v)) (snd (ecall env v))" for v
    using messaging_ecall [OF assms(2), of v] by (simp add: messaging_def)
  have "engine_trace (ecall env) v r v'"
    using assms(1,3) unfolding asm_run_contract_def by (metis fst_conv snd_conv)
  then have "?R v r v'"
  proof (rule engine_trace_lift)
    fix v b v1 and r' :: "i8 res" and v2
    assume "ecall env v = (Ok b, v1)" and "?R v1 r' v2"
    with call [of v] show "?R v r' v2"
      by (cases "r' = Err YIELD") (auto simp: one_message_def)
  next
    fix v e v1
    assume "ecall env v = (Err e, v1)"
    with call [of v] show "?R v (Err e) v1" by (simp add: one_message_def)
  qed (auto simp: one_message_def)
  with assms(4) show ?thesis by auto
qed

text \<open>
  C10: a whole run of a machine leaves at most one message, and one exactly when the run
  ended with a yield. In particular a VM that exits or faults leaves none, so the scheduler
  never finds a message of a VM that has terminated.
\<close>

theorem run_one_message:
  assumes "asm_run_contract env" and "no_foreign_yield env"
    and "asm_run env (ecall env) v = (r, v')" and "\<forall>k. r \<noteq> Panic k"
  shows "vc_id v' = vc_id v \<and> vc_data v' = vc_data v \<and>
    (if r = Err YIELD
     then \<exists>msg. vc_box v' = vc_box v @ [msg] \<and> message_from msg = vc_id v
            \<and> message_ok (vc_data v) msg
     else vc_box v' = vc_box v)"
  using run_posts [OF assms] by (simp add: one_message_def)

definition joining_script :: toy where
  "joining_script = toy_new\<lparr>t_script := [TCall [(17, 2602), (10, 1), (11, 64)]]\<rparr>"

theorem run_one_message_witness:
  "\<exists>msg. vc_box (snd (asm_run (toy_env True (\<lambda>_. [])) (ecall (toy_env True (\<lambda>_. [])))
       (sample_vmcall joining_script))) = [] @ [msg] \<and> message_from msg = 3"
proof -
  let ?env = "toy_env True (\<lambda>_. [])"
  let ?v = "sample_vmcall joining_script"
  have r: "fst (asm_run ?env (ecall ?env) ?v) = Err YIELD"
    by (simp add: toy_run_def sample_vmcall_def joining_script_def toy_new_def Let_def
        ecall_def join_def yield_with_def push_message_def read_reg_def prog_defs)
  show ?thesis
    using run_one_message [OF toy_contract toy_no_foreign_yield prod.collapse [symmetric],
        of True "\<lambda>_. []" ?v] r
    by (auto simp: sample_vmcall_def)
qed

section \<open>Panics of the syscalls\<close>

lemma panics_in_transferred [panics_intros]:
  "X ArithOverflow \<Longrightarrow> panics_in X (transferred_byte_cycles chk n)"
  unfolding transferred_byte_cycles_def by (intro panics_intros)

lemma panics_in_small [panics_intros]:
  "panics_in X (set_a0 env code)" "panics_in X (yield_with msg)"
  "X CapacityOverflow \<Longrightarrow> panics_in X (with_capacity m n)"
  unfolding set_a0_def yield_with_def with_capacity_def by (intro panics_intros)+

lemma panics_in_charge [panics_intros]:
  assumes "panics_within env X"
  shows "panics_in X (charge_bytes env n)"
  unfolding charge_bytes_def by (intro panics_intros panics_withinD [OF assms])

lemma panics_in_scan [panics_intros]:
  assumes "panics_within env X"
  shows "panics_in X (scan_zero env n addr buffer)"
proof (induction n arbitrary: addr buffer)
  case 0
  then show ?case using panics_withinD(3) [OF assms] by (simp add: panics_in_pure)
next
  case (Suc n)
  then show ?case
    unfolding scan_zero.simps by (intro panics_intros panics_withinD [OF assms])
qed

lemma panics_in_read_pipes [panics_intros]:
  assumes "panics_within env X"
  shows "panics_in X (read_pipes env n addr acc)"
proof (induction n arbitrary: addr acc)
  case 0
  then show ?case using panics_withinD(3) [OF assms] by (simp add: panics_in_pure)
next
  case (Suc n)
  then show ?case
    unfolding read_pipes.simps by (intro panics_intros panics_withinD [OF assms])
qed

lemma panics_in_read_argv [panics_intros]:
  assumes "panics_within env X"
  shows "panics_in X (read_argv env n addr acc)"
proof (induction n arbitrary: addr acc)
  case (Suc n)
  then show ?case
    unfolding read_argv.simps load_c_string_def
    by (intro panics_intros panics_withinD [OF assms] assms)
qed (simp add: panics_in_pure)

lemma panics_in_res [panics_intros]:
  assumes "\<And>a. panics_in X (f a)" and "\<And>e. panics_in X (g e)"
  shows "panics_in X (case load_data tx piece off n of Ok a \<Rightarrow> f a | Err e \<Rightarrow> g e | Panic k \<Rightarrow> panic k)"
  using assms by (auto split: res.split)

lemma panics_in_sum [panics_intros]:
  assumes "\<And>a. panics_in X (f a)" and "\<And>b. panics_in X (g b)"
  shows "panics_in X (case x of Inl a \<Rightarrow> f a | Inr b \<Rightarrow> g b)"
  using assms by (simp split: sum.split)

lemma panics_in_option [panics_intros]:
  assumes "panics_in X f" and "\<And>b. panics_in X (g b)"
  shows "panics_in X (case x of None \<Rightarrow> f | Some b \<Rightarrow> g b)"
  using assms by (simp split: option.split)

lemma panics_in_spawn [panics_intros]:
  assumes "panics_within env X"
  shows "panics_in X (spawn env)"
  unfolding spawn_def Let_def spawn_argv_def spawn_spgs_def spawn_check_def
  by (intro panics_intros panics_withinD [OF assms] assms)

lemma panics_in_load_cell_data [panics_intros]:
  assumes "panics_within env X"
  shows "panics_in X (load_cell_data env)"
proof -
  have stored: "panics_in X (and_then (attempt (snap (sc_store_bytes env addr piece offset n)))
     (\<lambda>stored. case stored of
           Ok (wrote_size, full_size) \<Rightarrow>
             and_then (mach (store64 env size_addr full_size)) (\<lambda>_.
             and_then (charge_bytes env wrote_size) (\<lambda>_.
             set_a0 env SUCCESS))
         | Err e \<Rightarrow>
             if e = INDEX_OUT_OF_BOUND_ERR then set_a0 env INDEX_OUT_OF_BOUND else fail e
         | Panic k \<Rightarrow> panic k))" for addr piece offset n size_addr
    by (rule panics_in_attempt_then; (simp only: res.case)?)
      (intro panics_intros panics_withinD [OF assms] assms)+
  show ?thesis
    unfolding load_cell_data_def
    by (intro panics_in_and_then [where f = "read_reg env r" for r] stored
        panics_in_and_then [where f = "mach f" for f] panics_in_sum panics_in_mach panics_in_regs panics_in_small panics_withinD [OF assms])
qed

text \<open>
  The syscalls themselves never fail an assertion, an \<open>unwrap\<close>, an index or reach
  \<open>unreachable!\<close>: besides foreign panics they have arithmetic overflow, the allocation of
  \<open>argv\<close> and scans that do not end.
\<close>

lemma panics_in_ecall:
  assumes "panics_within env X"
  shows "panics_in X (ecall env)"
  unfolding ecall_def Let_def current_cycles_def load_cell_data_as_code_def
    debug_syscall_def join_def instance_id_def pipe_def pipe_write_def pipe_read_def
  by (intro panics_intros panics_withinD [OF assms] assms)

section \<open>Reading strings and pipes from guest memory\<close>

lemma scan_zero_reads:
  assumes "\<forall>i \<le> n. load8 env (addr + of_nat i) (vc_machine v) = (Ok (mem i), vc_machine v)"
    and "\<forall>i < n. mem i \<noteq> 0" and "mem n = 0" and "unat addr + n < 2 ^ 64" and "n < fuel"
  shows "scan_zero env fuel addr buffer v = (Ok (buffer @ map mem [0..<n]), v)"
  using assms
proof (induction n arbitrary: addr buffer mem fuel)
  case 0
  then show ?case by (cases fuel) (simp_all add: mach_def prog_defs)
next
  case (Suc n)
  obtain f where f: "fuel = Suc f" using Suc.prems(5) by (cases fuel) simp_all
  have one: "load8 env addr (vc_machine v) = (Ok (mem 0), vc_machine v)" "mem 0 \<noteq> 0"
    using Suc.prems(1) [rule_format, of 0] Suc.prems(2) [rule_format, of 0] by simp_all
  have addr1: "unat (addr + 1) = unat addr + 1"
    using Suc.prems(4) by (simp add: unat_add_u64)
  have shift: "\<forall>i \<le> n. load8 env (addr + 1 + of_nat i) (vc_machine v)
      = (Ok (mem (Suc i)), vc_machine v)"
    using Suc.prems(1) [rule_format, of "Suc i" for i] by (simp add: add.assoc)
  have "scan_zero env f (addr + 1) (buffer @ [mem 0]) v
      = (Ok ((buffer @ [mem 0]) @ map (\<lambda>i. mem (Suc i)) [0..<n]), v)"
    by (rule Suc.IH [OF shift]) (use Suc.prems f addr1 in auto)
  moreover have "map mem [0..<Suc n] = mem 0 # map (\<lambda>i. mem (Suc i)) [0..<n]"
    by (simp add: map_upt_Suc del: upt_Suc)
  ultimately show ?case
    using f one Suc.prems(4) addr1 by (simp add: mach_def prog_defs del: upt_Suc)
qed

text \<open>
  \<open>load_c_string\<close> returns the bytes before the first zero, where memory holds them and
  reading does not change the machine; it changes nothing.
\<close>

lemma load_c_string_reads:
  assumes "\<forall>i \<le> n. load8 env (addr + of_nat i) (vc_machine v) = (Ok (mem i), vc_machine v)"
    and "\<forall>i < n. mem i \<noteq> 0" and "mem n = 0" and "unat addr + n < 2 ^ 64"
  shows "load_c_string env addr v = (Ok (map mem [0..<n]), v)"
  using scan_zero_reads [OF assms, of "2 ^ 64" "[]"] assms(4) by (simp add: load_c_string_def)

definition string_toy :: toy where
  "string_toy = toy_new\<lparr>t_mem := (\<lambda>_. 0)(100 := 104, 101 := 105)\<rparr>"

lemma load_c_string_reads_witness:
  "load_c_string (toy_env True (\<lambda>_. [])) 100 (sample_vmcall string_toy) =
     (Ok (map (\<lambda>i. t_mem string_toy (100 + of_nat i)) [0..<2]), sample_vmcall string_toy)"
proof (rule load_c_string_reads)
  have upto2: "i \<le> 2 \<longleftrightarrow> i = 0 \<or> i = 1 \<or> i = 2" "i < 2 \<longleftrightarrow> i = 0 \<or> i = 1" for i :: nat
    by auto
  show "\<forall>i \<le> 2. load8 (toy_env True (\<lambda>_. [])) (100 + of_nat i)
      (vc_machine (sample_vmcall string_toy)) =
      (Ok (t_mem string_toy (100 + of_nat i)), vc_machine (sample_vmcall string_toy))"
    by (simp add: upto2 toy_load8_def in_memory_def sample_vmcall_def)
  show "\<forall>i < 2. t_mem string_toy (100 + of_nat i) \<noteq> 0"
    by (simp add: upto2 string_toy_def)
qed (simp_all add: string_toy_def)

lemma scan_zero_terminates:
  assumes "overflow_checks env" and "\<forall>a m. fst (load8 env a m) \<noteq> Panic Diverges"
    and "2 ^ 64 \<le> unat addr + fuel"
  shows "fst (scan_zero env fuel addr buffer v) \<noteq> Panic Diverges"
  using assms(3)
proof (induction fuel arbitrary: addr buffer v)
  case 0
  then show ?case using unat_bound_u64 [of addr] by simp
next
  case (Suc n)
  have "2 ^ 64 \<le> unat (addr + 1) + n" if "unat addr + 1 < 2 ^ 64"
    using that Suc.prems by (simp add: unat_add_u64)
  moreover have "load8 env a m \<noteq> (Panic Diverges, m')" for a m m'
    using assms(2) by (metis fst_conv)
  ultimately show ?case
    using assms(1) by (auto simp: mach_def prog_defs Suc.IH split: prod.splits res.splits)
qed

lemma read_pipes_terminates:
  assumes "overflow_checks env" and "\<forall>a m. fst (load64 env a m) \<noteq> Panic Diverges"
    and "2 ^ 64 \<le> unat addr + fuel"
  shows "fst (read_pipes env fuel addr acc v) \<noteq> Panic Diverges"
  using assms(3)
proof (induction fuel arbitrary: addr acc v)
  case 0
  then show ?case using unat_bound_u64 [of addr] by simp
next
  case (Suc n)
  have "2 ^ 64 \<le> unat (addr + 8) + n" if "unat addr + 8 < 2 ^ 64"
    using that Suc.prems by (simp add: unat_add_u64)
  moreover have "load64 env a m \<noteq> (Panic Diverges, m')" for a m m'
    using assms(2) by (metis fst_conv)
  ultimately show ?case
    using assms(1) by (auto simp: mach_def prog_defs Suc.IH split: prod.splits res.splits)
qed



section \<open>Spawn, pipes, cycles and the dispatcher\<close>

lemma spawn_args_ok_slice:
  assumes "spawn_args_ok tx a" and "\<forall>data. load_full tx (sp_data_piece_id a) = Ok data \<longrightarrow> length data < 2 ^ 64"
  shows "\<exists>bs full. load_data tx (sp_data_piece_id a) (sp_offset a) (sp_length a) = Ok (bs, full)
    \<and> bs \<noteq> [] \<and> (sp_length a \<noteq> 0 \<longrightarrow> length bs = unat (sp_length a))"
proof (cases "load_full tx (sp_data_piece_id a)")
  case (Ok data)
  with assms(2) have len: "length data < 2 ^ 64" by simp
  have full: "unat (of_nat (length data) :: u64) = length data"
    using len by (simp add: unsigned_of_nat take_bit_nat_eq_self)
  have "unat (sp_offset a) < length data"
    and "sp_length a = 0 \<or> unat (sp_offset a) + unat (sp_length a) \<le> length data"
    using assms(1) Ok full
    by (auto simp: spawn_args_ok_def load_data_def slice_data_def word_less_nat_alt)
  then have "length (fst (slice_data data (sp_offset a) (sp_length a))) =
      (if sp_length a = 0 then length data - unat (sp_offset a) else unat (sp_length a))"
    by (auto simp: length_slice_data)
  moreover have "sp_length a \<noteq> 0 \<Longrightarrow> 0 < unat (sp_length a)" by (simp add: unat_gt_0)
  ultimately have "fst (slice_data data (sp_offset a) (sp_length a)) \<noteq> []"
    using \<open>unat (sp_offset a) < length data\<close> by (auto split: if_splits)
  with Ok \<open>length (fst (slice_data data (sp_offset a) (sp_length a))) = _\<close> show ?thesis
    by (cases "slice_data data (sp_offset a) (sp_length a)") (auto simp: load_data_def)
qed (use assms(1) in \<open>auto simp: spawn_args_ok_def load_data_def\<close>)

text \<open>
  C19: what a spawn message promises: the program slice it names loads, is not empty, and has
  exactly the requested length unless the length is 0, which means up to the end. Loading
  the program when the scheduler boots the VM cannot fail on the bounds.
\<close>

theorem spawn_message_slice:
  assumes "no_foreign_yield env" and "spawn env v = (r, v')"
    and "vc_box v' = vc_box v @ [MSpawn i a]"
    and "\<forall>data. load_full (vc_data v) (sp_data_piece_id a) = Ok data \<longrightarrow> length data < 2 ^ 64"
  shows "i = vc_id v \<and> (\<exists>bs full.
    load_data (vc_data v) (sp_data_piece_id a) (sp_offset a) (sp_length a) = Ok (bs, full)
    \<and> bs \<noteq> [] \<and> (sp_length a \<noteq> 0 \<longrightarrow> length bs = unat (sp_length a)))"
proof -
  have "one_message v r v'"
    using messaging_spawn [OF assms(1), of v] assms(2) by (simp add: messaging_def)
  with assms(3) have "message_from (MSpawn i a) = vc_id v \<and> spawn_args_ok (vc_data v) a"
    by (cases "r = Err YIELD") (auto simp: one_message_def)
  with spawn_args_ok_slice [OF _ assms(4)] show ?thesis by simp
qed

definition spawning_toy :: toy where
  "spawning_toy = toy_new\<lparr>t_regs := (\<lambda>_. 0)(11 := 2, 12 := 0x100000002, 15 := 64)\<rparr>"

definition spawned_args :: spawn_args where
  "spawned_args = \<lparr>sp_data_piece_id = Output 0, sp_offset = 1, sp_length = 2, sp_argv = [],
     sp_pipes = [], sp_instance_id_addr = 0\<rparr>"

lemma spawn_spawning_toy:
  "spawn (toy_env True scripts) (sample_vmcall spawning_toy) =
     (Err YIELD, (sample_vmcall spawning_toy)\<lparr>vc_box := [MSpawn 3 spawned_args]\<rparr>)"
  by (simp add: spawn_def Let_def read_reg_def sample_vmcall_def spawning_toy_def
      data_piece_try_from_def spawn_argv_def spawn_spgs_def with_capacity_def mach_def toy_load64_def
      in_memory_def peek64_def toy_new_def spawn_check_def load_data_def load_full_def
      load_output_def slice_get_def sample_tx_def slice_data_def checked_add_def yield_with_def
      push_message_def spawned_args_def prog_defs word_le_nat_alt)

theorem spawn_message_slice_witness:
  "3 = vc_id (sample_vmcall spawning_toy) \<and> (\<exists>bs full.
     load_data sample_tx (Output 0) 1 2 = Ok (bs, full) \<and> bs \<noteq> [] \<and> length bs = 2)"
  using spawn_message_slice [OF toy_no_foreign_yield [of True "\<lambda>_. []"]
      spawn_spawning_toy [of "\<lambda>_. []"]]
  by (simp add: sample_vmcall_def spawned_args_def sample_tx_def load_full_def load_output_def
      slice_get_def)

text \<open>
  C22: \<open>spawn\<close> allocates the argument vector for the \<open>argc\<close> in register A3 before it reads
  a single argument. A guest that passes an \<open>argc\<close> whose vector would exceed \<open>isize::MAX\<close>
  bytes makes \<open>Vec::with_capacity\<close> panic in the host instead of getting an error code.
\<close>

theorem spawn_argc_panics:
  assumes "data_piece_try_from (get_register env (vc_machine v) A1)
      (get_register env (vc_machine v) A0) = Inr piece"
    and "unat (get_register env (vc_machine v) A3) * size_of_bytes env > 2 ^ 63 - 1"
  shows "spawn env v = (Panic CapacityOverflow, v)"
  using assms by (simp add: spawn_def Let_def read_reg_def spawn_argv_def with_capacity_def prog_defs)

theorem spawn_argc_panics_witness:
  "spawn (toy_env True (\<lambda>_. [])) (sample_vmcall
       (toy_new\<lparr>t_regs := (\<lambda>_. 0)(11 := 1, 13 := 0x7FFFFFFFFFFFFFFF)\<rparr>)) =
     (Panic CapacityOverflow, sample_vmcall
       (toy_new\<lparr>t_regs := (\<lambda>_. 0)(11 := 1, 13 := 0x7FFFFFFFFFFFFFFF)\<rparr>))"
  by (rule spawn_argc_panics [where piece = "Input 0"])
    (simp_all add: sample_vmcall_def data_piece_try_from_def)

text \<open>
  The wrong end of a pipe is refused at once: writing to a read end and reading from a
  write end set A0 to \<open>INVALID_PIPE\<close>, leave no message and let the VM go on.
\<close>

lemma wrong_pipe_end_refused:
  assumes "load64 env (get_register env (vc_machine v) A1) (vc_machine v) = (Ok len, m)"
    and "get_register env m A2 = fd"
  shows "(is_read (PipeId fd) \<longrightarrow> pipe_write env v =
           (Ok (), v\<lparr>vc_machine := set_register env A0 6 m\<rparr>))
       \<and> (is_write (PipeId fd) \<longrightarrow> pipe_read env v =
           (Ok (), v\<lparr>vc_machine := set_register env A0 6 m\<rparr>))"
  using assms
  by (simp add: pipe_write_def pipe_read_def read_reg_def write_reg_def set_a0_def mach_def
      is_write_iff INVALID_PIPE_def prog_defs)

lemma wrong_pipe_end_refused_witness:
  "pipe_write (toy_env True (\<lambda>_. [])) (sample_vmcall (toy_new\<lparr>t_regs := (\<lambda>_. 0)(12 := 4)\<rparr>)) =
     (Ok (), (sample_vmcall (toy_new\<lparr>t_regs := (\<lambda>_. 0)(12 := 4)\<rparr>))\<lparr>vc_machine :=
        toy_new\<lparr>t_regs := (\<lambda>_. 0)(12 := 4, 10 := 6)\<rparr>\<rparr>)"
  using wrong_pipe_end_refused [of "toy_env True (\<lambda>_. [])"
      "sample_vmcall (toy_new\<lparr>t_regs := (\<lambda>_. 0)(12 := 4)\<rparr>)" 0
      "toy_new\<lparr>t_regs := (\<lambda>_. 0)(12 := 4)\<rparr>" 4]
  by (auto simp: toy_load64_def sample_vmcall_def in_memory_def peek64_def toy_new_def
      is_read_def fun_upd_def fun_eq_iff)

text \<open>
  \<open>transferred_byte_cycles\<close> charges one cycle for every four bytes, rounded up: the
  result is the least number of cycles whose bytes cover the transfer.
\<close>

lemma transferred_byte_cycles_ceiling:
  fixes st :: 'a
  assumes "unat n + 4 < 2 ^ 64"
  shows "\<exists>c. transferred_byte_cycles chk n st = (Ok c, st)
    \<and> unat n \<le> 4 * unat c \<and> 4 * unat c < unat n + 4"
proof -
  have n4: "unat (n + 4) = unat n + 4" using assms by (simp add: unat_add_u64)
  then have "1 \<le> n + 4" by (simp add: word_le_nat_alt)
  have n3: "unat (n + 3) = unat n + 3" using assms by (simp add: unat_add_u64)
  have "unat ((n + 3) div 4) = (unat n + 3) div 4"
    by (simp add: unat_div n3)
  moreover have "unat (4 :: u64) = 4" by simp
  then have "add_u64 chk n 4 = (ret (n + 4) :: 'a \<Rightarrow> _)" and
    "sub_u64 chk (n + 4) 1 = (ret (n + 3) :: 'a \<Rightarrow> _)"
    using assms \<open>1 \<le> n + 4\<close> by (simp_all only: add_u64_ok sub_u64_ok) (simp_all add: add.commute)
  then have "transferred_byte_cycles chk n st = (Ok ((n + 3) div 4), st)"
    by (simp add: transferred_byte_cycles_def BYTES_PER_CYCLE_def ret_def and_then_def)
  ultimately show ?thesis by (intro exI [of _ "(n + 3) div 4"]) (simp; arith)
qed

lemma transferred_byte_cycles_ceiling_witness:
  "\<exists>c. transferred_byte_cycles True 5 () = (Ok c, ())
    \<and> unat (5 :: u64) \<le> 4 * unat c \<and> 4 * unat c < unat (5 :: u64) + 4"
  by (rule transferred_byte_cycles_ceiling) simp

lemma handled_not_False: "and_then f (\<lambda>_. ret True) v \<noteq> (Ok False, v')"
  by (auto simp: and_then_def ret_def split: prod.splits res.splits)

text \<open>
  \<open>ecall\<close> handles exactly ten syscall numbers. Any other is passed on to the syscalls of
  ckb-script (\<open>Ok(false)\<close>) with nothing changed, and none of the ten ever is.
\<close>

lemma ecall_numbers:
  "(\<exists>v'. ecall env v = (Ok False, v')) \<longleftrightarrow> get_register env (vc_machine v) A7 \<notin>
     {2042, 2091, 2092, 2177, 2601, 2602, 2603, 2604, 2605, 2606}"
  by (simp add: and_then_value ecall_def Let_def read_reg_def handled_not_False if_distrib [where f = "\<lambda>f. f v"]
      ret_def)

end
