(* ===== verification/Vm_Table.thy ===== *)
theory Vm_Table
  imports Syscalls
begin

text \<open>
  The state of the scheduler (\<open>struct Scheduler\<close> of src/lib.rs) and the operations that
  keep its machines: \<open>create_dummy_vm\<close>, \<open>resume_vm\<close>, \<open>suspend_vm\<close>,
  \<open>ensure_vms_instantiated\<close> and \<open>boot_vm\<close>. At most four machines are instantiated; the
  others are kept as snapshots.

  The invariant \<open>table_ok\<close> says that no VM is both instantiated and suspended and that the
  limit holds. The rest of the scheduler uses the table through the locale \<open>vm_table\<close>:
  after \<open>ensure\<close> the requested machines are instantiated, no VM is lost or invented and
  nothing else of the scheduler has changed.
\<close>

section \<open>State\<close>

record ('m, 'c, 's, 'd) scheduler =
  sch_tx_data :: "'d tx_data"
  total_cycles :: u64
  next_vm_id :: vm_id
  next_pipe_slot :: u64
  states :: "(vm_id, vm_state) btree"
  pipes :: "(pipe_id, vm_id) hashmap"
  instantiated :: "(vm_id, ('c, 'd) machine_context \<times> 'm) btree"
  suspended :: "(vm_id, 's) hashmap"
  terminated_vms :: "(vm_id, i8) hashmap"
  message_box :: "message list"

definition ROOT_VM_ID :: vm_id where
  "ROOT_VM_ID = FIRST_VM_ID"

definition MAX_INSTANTIATED_VMS :: nat where
  "MAX_INSTANTIATED_VMS = 4"

section \<open>Operations\<close>

text \<open>A call on values that are not (yet) part of the scheduler's state.\<close>

definition on_local :: "('x, 'a) prog \<Rightarrow> 'x \<Rightarrow> ('st, 'a \<times> 'x) prog" where
  "on_local f x s = (case f x of
     (Ok a, x') \<Rightarrow> (Ok (a, x'), s) | (Err e, x') \<Rightarrow> (Err e, s) | (Panic k, x') \<Rightarrow> (Panic k, s))"

text \<open>\<open>self.instantiated.get_mut(&vm).unwrap()\<close> and a call on what it points to.\<close>

definition with_vm :: "vm_id \<Rightarrow> ('c \<times> 'm, 'a) prog \<Rightarrow> (('m, 'c, 's, 'd) scheduler, 'a) prog" where
  "with_vm vm f s = (case bt_get (instantiated s) vm of
     None \<Rightarrow> (Panic UnwrapNone, s)
   | Some (ctx, m) \<Rightarrow> (case f (mc_snapshot2_context ctx, m) of
       (r, c', m') \<Rightarrow> (r, s\<lparr>instantiated :=
          bt_insert vm (ctx\<lparr>mc_snapshot2_context := c'\<rparr>, m') (instantiated s)\<rparr>)))"

definition with_machine :: "vm_id \<Rightarrow> ('m, 'a) prog \<Rightarrow> (('m, 'c, 's, 'd) scheduler, 'a) prog" where
  "with_machine vm f = with_vm vm (\<lambda>(c, m). case f m of (r, m') \<Rightarrow> (r, (c, m')))"

definition create_dummy_vm :: "('m, 'c, 's, 'e, 'z, 'd) ckb_env \<Rightarrow> vm_id \<Rightarrow>
    (('m, 'c, 's, 'd) scheduler, ('c, 'd) machine_context \<times> 'm) prog" where
  "create_dummy_vm env vm =
     and_then (gets sch_tx_data) (\<lambda>tx.
     case select_version env of
       Inl msg \<Rightarrow> fail (Unexpected (SelectVersionFailed msg))
     | Inr version \<Rightarrow>
         ret (\<lparr>mc_id = vm, mc_base_cycles = 0, mc_snapshot2_context = sc_new env tx,
               mc_data_source = tx\<rparr>,
              build_machine env version (if version = V2 then V1 else version)))"

definition resume_vm :: "('m, 'c, 's, 'e, 'z, 'd) ckb_env \<Rightarrow> vm_id \<Rightarrow>
    (('m, 'c, 's, 'd) scheduler, unit) prog" where
  "resume_vm env vm =
     and_then (gets (\<lambda>s. hm_get (suspended s) vm)) (\<lambda>found.
     case found of
       None \<Rightarrow> fail (Unexpected (NotSuspended vm))
     | Some snapshot \<Rightarrow>
         and_then (create_dummy_vm env vm) (\<lambda>(ctx, machine).
         and_then (on_local (sc_resume env snapshot) (mc_snapshot2_context ctx, machine))
           (\<lambda>(_, c, m).
         modify (\<lambda>s. s\<lparr>
           instantiated :=
             bt_insert vm (ctx\<lparr>mc_snapshot2_context := c\<rparr>, m) (instantiated s),
           suspended := hm_remove vm (suspended s)\<rparr>))))"

definition suspend_vm :: "('m, 'c, 's, 'e, 'z, 'd) ckb_env \<Rightarrow> vm_id \<Rightarrow>
    (('m, 'c, 's, 'd) scheduler, unit) prog" where
  "suspend_vm env vm =
     and_then (gets (\<lambda>s. bt_contains (instantiated s) vm)) (\<lambda>found.
     if \<not> found then fail (Unexpected (NotInstantiated vm))
     else
       and_then (with_vm vm (sc_make_snapshot env)) (\<lambda>snapshot.
       modify (\<lambda>s. s\<lparr>
         suspended := hm_insert vm snapshot (suspended s),
         instantiated := bt_remove vm (instantiated s)\<rparr>)))"

text \<open>
  The \<open>while\<close> loop of \<open>ensure_vms_instantiated\<close>. \<open>pop\<close> takes from the end of the vector,
  so the argument is the vector reversed; the result is what is left in the vector.
\<close>

fun fill_slots :: "('m, 'c, 's, 'e, 'z, 'd) ckb_env \<Rightarrow> vm_id list \<Rightarrow>
    (('m, 'c, 's, 'd) scheduler, vm_id list) prog" where
  "fill_slots env [] = ret []"
| "fill_slots env (vm # ids) =
     and_then (gets (\<lambda>s. length (instantiated s))) (\<lambda>n.
     if n < MAX_INSTANTIATED_VMS
     then and_then (resume_vm env vm) (\<lambda>_. fill_slots env ids)
     else ret (rev (vm # ids)))"

definition swap_vms :: "('m, 'c, 's, 'e, 'z, 'd) ckb_env \<Rightarrow> vm_id \<times> vm_id \<Rightarrow>
    (('m, 'c, 's, 'd) scheduler, unit) prog" where
  "swap_vms env p = and_then (suspend_vm env (fst p)) (\<lambda>_. resume_vm env (snd p))"

definition ensure_vms_instantiated :: "('m, 'c, 's, 'e, 'z, 'd) ckb_env \<Rightarrow> vm_id list \<Rightarrow>
    (('m, 'c, 's, 'd) scheduler, unit) prog" where
  "ensure_vms_instantiated env ids =
     (if length ids > MAX_INSTANTIATED_VMS
      then fail (Unexpected (TooManyInstantiated MAX_INSTANTIATED_VMS (length ids)))
      else
        and_then (gets (\<lambda>s. filter (\<lambda>vm. \<not> bt_contains (instantiated s) vm) ids))
          (\<lambda>uninstantiated_ids.
        and_then (fill_slots env (rev uninstantiated_ids)) (\<lambda>left.
        if left = [] then ret ()
        else
          and_then (gets (\<lambda>s. filter (\<lambda>vm. vm \<notin> set ids) (bt_keys (instantiated s))))
            (\<lambda>suspendable_ids.
          and_then (assert (length suspendable_ids \<ge> length left)) (\<lambda>_.
          for_each (swap_vms env) (zip suspendable_ids left))))))"

text \<open>
  The \<open>while\<close> loop of \<open>boot_vm\<close>. Every iteration removes a machine, so the number of
  machines is fuel enough.
\<close>

fun make_room :: "('m, 'c, 's, 'e, 'z, 'd) ckb_env \<Rightarrow> nat \<Rightarrow>
    (('m, 'c, 's, 'd) scheduler, unit) prog" where
  "make_room env 0 = panic Diverges"
| "make_room env (Suc n) =
     and_then (gets instantiated) (\<lambda>inst.
     if length inst \<ge> MAX_INSTANTIATED_VMS
     then
       and_then (unwrap UnwrapNone (bt_first_key inst)) (\<lambda>vm.
       and_then (suspend_vm env vm) (\<lambda>_. make_room env n))
     else ret ())"

text \<open>The block of \<open>boot_vm\<close> that loads the program, on the new context and machine.\<close>

definition load_program :: "('m, 'c, 's, 'e, 'z, 'd) ckb_env \<Rightarrow> 'd tx_data \<Rightarrow>
    data_piece_id \<Rightarrow> u64 \<Rightarrow> u64 \<Rightarrow> bytes list \<Rightarrow> ('c \<times> 'm, unit) prog" where
  "load_program env tx piece offset len args =
     and_then (lift_res (load_data tx piece offset len)) (\<lambda>(prg, _).
     and_then (gets (\<lambda>(c, m). machine_version env m)) (\<lambda>version.
     and_then (lift_res (parse_elf env prg version)) (\<lambda>metadata.
     and_then (\<lambda>(c, m). case load_program_with_metadata env prg metadata args m of
         (r, m') \<Rightarrow> (r, (c, m'))) (\<lambda>n.
     and_then (sc_mark_program env metadata piece offset) (\<lambda>_.
     and_then (transferred_byte_cycles (overflow_checks env) n) (\<lambda>cost.
     (\<lambda>(c, m). case add_cycles_no_checking env cost m of (r, m') \<Rightarrow> (r, (c, m')))))))))"

definition boot_vm :: "('m, 'c, 's, 'e, 'z, 'd) ckb_env \<Rightarrow> data_piece_id \<Rightarrow> u64 \<Rightarrow> u64 \<Rightarrow>
    bytes list \<Rightarrow> (('m, 'c, 's, 'd) scheduler, vm_id) prog" where
  "boot_vm env piece offset len args =
     and_then (gets (\<lambda>s. Suc (length (instantiated s)))) (\<lambda>fuel.
     and_then (make_room env fuel) (\<lambda>_.
     and_then (gets next_vm_id) (\<lambda>vm.
     and_then (add_u64 (overflow_checks env) vm 1) (\<lambda>next_id.
     and_then (modify (\<lambda>s. s\<lparr>next_vm_id := next_id\<rparr>)) (\<lambda>_.
     and_then (create_dummy_vm env vm) (\<lambda>(ctx, machine).
     and_then (on_local (load_program env (mc_data_source ctx) piece offset len args)
         (mc_snapshot2_context ctx, machine)) (\<lambda>(_, c, m).
     and_then (modify (\<lambda>s. s\<lparr>
         instantiated :=
           bt_insert vm (ctx\<lparr>mc_snapshot2_context := c\<rparr>, m) (instantiated s),
         states := bt_insert vm Runnable (states s)\<rparr>)) (\<lambda>_.
     ret vm))))))))"

section \<open>The table invariant\<close>

definition insts :: "('m, 'c, 's, 'd) scheduler \<Rightarrow> vm_id set" where
  "insts s = dom (bt_get (instantiated s))"

definition susps :: "('m, 'c, 's, 'd) scheduler \<Rightarrow> vm_id set" where
  "susps s = dom (hm_get (suspended s))"

definition vms :: "('m, 'c, 's, 'd) scheduler \<Rightarrow> vm_id set" where
  "vms s = insts s \<union> susps s"

text \<open>The context of an instantiated machine carries the ID it is stored under.\<close>

definition inst_wf :: "(vm_id, ('c, 'd) machine_context \<times> 'm) btree \<Rightarrow> bool" where
  "inst_wf m \<longleftrightarrow> bt_wf m \<and> (\<forall>vm ctx mc. bt_get m vm = Some (ctx, mc) \<longrightarrow> mc_id ctx = vm)"

lemma inst_wf_bt: "inst_wf m \<Longrightarrow> bt_wf m"
  by (simp add: inst_wf_def)

lemma inst_wf_insert [simp]: "inst_wf m \<Longrightarrow> mc_id ctx = vm \<Longrightarrow> inst_wf (bt_insert vm (ctx, mc) m)"
  by (auto simp: inst_wf_def map_laws)

lemma inst_wf_remove [simp]: "inst_wf m \<Longrightarrow> inst_wf (bt_remove vm m)"
  by (auto simp: inst_wf_def map_laws)

lemma inst_wf_retain [simp]: "inst_wf m \<Longrightarrow> inst_wf (bt_retain p m)"
  by (auto simp: inst_wf_def map_laws split: option.splits if_splits)

lemma inst_wf_get: "inst_wf m \<Longrightarrow> bt_get m vm = Some (ctx, mc) \<Longrightarrow> mc_id ctx = vm"
  by (simp add: inst_wf_def)

definition table_ok :: "('m, 'c, 's, 'd) scheduler \<Rightarrow> bool" where
  "table_ok s \<longleftrightarrow> inst_wf (instantiated s) \<and> hm_wf (suspended s) \<and> insts s \<inter> susps s = {}
     \<and> card (insts s) \<le> MAX_INSTANTIATED_VMS"

text \<open>\<open>same_but_table s s'\<close>: only the two tables differ.\<close>

definition same_but_table :: "('m, 'c, 's, 'd) scheduler \<Rightarrow> ('m, 'c, 's, 'd) scheduler \<Rightarrow> bool" where
  "same_but_table s s' \<longleftrightarrow>
     sch_tx_data s' = sch_tx_data s \<and> total_cycles s' = total_cycles s
     \<and> next_vm_id s' = next_vm_id s \<and> next_pipe_slot s' = next_pipe_slot s
     \<and> states s' = states s \<and> pipes s' = pipes s \<and> terminated_vms s' = terminated_vms s
     \<and> message_box s' = message_box s"

lemma finite_insts [simp]: "finite (insts s)"
  using set_bt_keys [of "instantiated s"] unfolding insts_def by (metis List.finite_set)

lemma finite_susps [simp]: "hm_wf (suspended s) \<Longrightarrow> finite (susps s)"
  by (simp add: susps_def hash.finite_dom)

lemma bt_contains_insts [simp]: "bt_contains (instantiated s) vm \<longleftrightarrow> vm \<in> insts s"
  by (simp add: bt_contains_iff insts_def)

lemma set_keys_insts [simp]: "set (bt_keys (instantiated s)) = insts s"
  by (simp add: set_bt_keys insts_def)

lemma insts_updates [simp]:
  "insts (s\<lparr>instantiated := bt_insert vm x m\<rparr>) = insert vm (insts (s\<lparr>instantiated := m\<rparr>))"
  "insts (s\<lparr>instantiated := bt_remove vm m\<rparr>) = insts (s\<lparr>instantiated := m\<rparr>) - {vm}"
  "susps (s\<lparr>suspended := hm_insert vm y n\<rparr>) = insert vm (susps (s\<lparr>suspended := n\<rparr>))"
  "susps (s\<lparr>suspended := hm_remove vm n\<rparr>) = susps (s\<lparr>suspended := n\<rparr>) - {vm}"
  by (simp_all add: insts_def susps_def btree.dom_upd btree.dom_del hash.dom_upd hash.dom_del)

lemma insts_same [simp]: "insts (s\<lparr>instantiated := instantiated t\<rparr>) = insts t"
  "susps (s\<lparr>suspended := suspended t\<rparr>) = susps t"
  by (simp_all add: insts_def susps_def)

lemma length_insts: "table_ok s \<Longrightarrow> length (instantiated s) = card (insts s)"
  by (simp add: table_ok_def inst_wf_bt length_bt insts_def)

lemma same_refl [simp]: "same_but_table s s"
  by (simp add: same_but_table_def)

lemma same_trans [trans]: "same_but_table s t \<Longrightarrow> same_but_table t u \<Longrightarrow> same_but_table s u"
  by (simp add: same_but_table_def)

lemma table_frame [simp]:
  "insts (sch_tx_data_update f0 s) = insts s" "susps (sch_tx_data_update f0 s) = susps s"
  "insts (total_cycles_update f1 s) = insts s" "susps (total_cycles_update f1 s) = susps s"
  "insts (next_vm_id_update f2 s) = insts s" "susps (next_vm_id_update f2 s) = susps s"
  "insts (next_pipe_slot_update f3 s) = insts s" "susps (next_pipe_slot_update f3 s) = susps s"
  "insts (states_update f4 s) = insts s" "susps (states_update f4 s) = susps s"
  "insts (pipes_update f5 s) = insts s" "susps (pipes_update f5 s) = susps s"
  "insts (terminated_vms_update f6 s) = insts s" "susps (terminated_vms_update f6 s) = susps s"
  "insts (message_box_update f7 s) = insts s" "susps (message_box_update f7 s) = susps s"
  "insts (suspended_update g s) = insts s" "susps (instantiated_update h s) = susps s"
  by (simp_all add: insts_def susps_def)

lemma vms_frame [simp]:
  "vms (sch_tx_data_update f0 s) = vms s" "table_ok (sch_tx_data_update f0 s) = table_ok s"
  "vms (total_cycles_update f1 s) = vms s" "table_ok (total_cycles_update f1 s) = table_ok s"
  "vms (next_vm_id_update f2 s) = vms s" "table_ok (next_vm_id_update f2 s) = table_ok s"
  "vms (next_pipe_slot_update f3 s) = vms s" "table_ok (next_pipe_slot_update f3 s) = table_ok s"
  "vms (states_update f4 s) = vms s" "table_ok (states_update f4 s) = table_ok s"
  "vms (pipes_update f5 s) = vms s" "table_ok (pipes_update f5 s) = table_ok s"
  "vms (terminated_vms_update f6 s) = vms s" "table_ok (terminated_vms_update f6 s) = table_ok s"
  "vms (message_box_update f7 s) = vms s" "table_ok (message_box_update f7 s) = table_ok s"
  by (simp_all add: vms_def table_ok_def)

section \<open>One machine at a time\<close>

lemma with_vm_missing: "bt_get (instantiated s) vm = None \<Longrightarrow> with_vm vm f s = (Panic UnwrapNone, s)"
  by (simp add: with_vm_def)

lemma wp_with_vm:
  assumes "vm \<in> insts s" and "panics_in X f"
  shows "wp (with_vm vm f)
    (\<lambda>_ s'. same_but_table s s' \<and> insts s' = insts s \<and> suspended s' = suspended s
        \<and> (inst_wf (instantiated s) \<longrightarrow> inst_wf (instantiated s')))
    (\<lambda>_ s'. same_but_table s s' \<and> insts s' = insts s \<and> suspended s' = suspended s
        \<and> (inst_wf (instantiated s) \<longrightarrow> inst_wf (instantiated s')))
    X s"
proof -
  obtain ctx m where g: "bt_get (instantiated s) vm = Some (ctx, m)" using assms(1) by (auto simp: insts_def)
  obtain r c' m' where f: "f (mc_snapshot2_context ctx, m) = (r, c', m')"
    using prod_cases3 by blast
  have "X k" if "r = Panic k" for k
    using assms(2) f that unfolding panics_in_def by (metis fst_conv)
  moreover have "inst_wf (instantiated s) \<Longrightarrow>
      inst_wf (bt_insert vm (ctx\<lparr>mc_snapshot2_context := c'\<rparr>, m') (instantiated s))"
    using inst_wf_get [OF _ g] by simp
  ultimately show ?thesis using g f
    by (cases r) (auto simp: wp_def with_vm_def same_but_table_def insert_absorb [OF assms(1)])
qed

lemma wp_create_dummy_vm:
  "wp (create_dummy_vm env vm) (\<lambda>(ctx, _) s'. s' = s \<and> mc_id ctx = vm \<and> mc_data_source ctx = sch_tx_data s)
     (\<lambda>_ s'. s' = s) X s"
  by (simp add: create_dummy_vm_def wp_simps split: sum.splits)

lemma wp_on_local:
  "panics_in X f \<Longrightarrow> wp (on_local f x) (\<lambda>(a, x') s'. s' = s \<and> f x = (Ok a, x')) (\<lambda>e s'. s' = s) X s"
  by (cases "f x"; cases "fst (f x)") (auto simp: wp_def on_local_def panics_in_def dest: spec [of _ x])

lemma wp_resume_vm:
  assumes "panics_within env X" and "vm \<in> susps s"
  shows "wp (resume_vm env vm)
    (\<lambda>_ s'. same_but_table s s' \<and> insts s' = insert vm (insts s) \<and> susps s' = susps s - {vm}
        \<and> (inst_wf (instantiated s) \<longrightarrow> inst_wf (instantiated s'))
        \<and> (hm_wf (suspended s) \<longrightarrow> hm_wf (suspended s')))
    (\<lambda>_ s'. s' = s) X s"
proof -
  obtain snap where g: "hm_get (suspended s) vm = Some snap" using assms(2) by (auto simp: susps_def)
  have p: "panics_in X (sc_resume env snap)" using assms(1) by (rule panics_withinD)
  show ?thesis
    by (auto simp: resume_vm_def wp_simps g same_but_table_def
        intro!: wp_mono [OF wp_create_dummy_vm [where s = s]] wp_mono [OF wp_on_local [OF p]])
qed

lemma wp_suspend_vm:
  assumes "panics_within env X" and "vm \<in> insts s"
  shows "wp (suspend_vm env vm)
    (\<lambda>_ s'. same_but_table s s' \<and> insts s' = insts s - {vm} \<and> susps s' = insert vm (susps s)
        \<and> (inst_wf (instantiated s) \<longrightarrow> inst_wf (instantiated s'))
        \<and> (hm_wf (suspended s) \<longrightarrow> hm_wf (suspended s')))
    (\<lambda>_ s'. same_but_table s s' \<and> insts s' = insts s \<and> suspended s' = suspended s
        \<and> (inst_wf (instantiated s) \<longrightarrow> inst_wf (instantiated s'))) X s"
proof -
  have p: "panics_in X (sc_make_snapshot env)" using assms(1) by (rule panics_withinD)
  show ?thesis
    by (auto simp: suspend_vm_def wp_simps assms(2) same_but_table_def
        intro!: wp_mono [OF wp_with_vm [OF assms(2) p]])
qed

abbreviation table_kept :: "('m, 'c, 's, 'd) scheduler \<Rightarrow> ('m, 'c, 's, 'd) scheduler \<Rightarrow> bool" where
  "table_kept s s' \<equiv> table_ok s' \<and> same_but_table s s' \<and> vms s' = vms s"

lemma wp_resume_table:
  assumes "panics_within env X" and "table_ok s" and "vm \<in> susps s"
    and "card (insts s) < MAX_INSTANTIATED_VMS"
  shows "wp (resume_vm env vm) (\<lambda>_ s'. table_kept s s' \<and> insts s' = insert vm (insts s))
     (\<lambda>_ s'. s' = s) X s"
proof (rule wp_mono [OF wp_resume_vm [OF assms(1,3)]])
  have "vm \<notin> insts s" using assms(2,3) by (auto simp: table_ok_def)
  moreover fix s'
  assume "same_but_table s s' \<and> insts s' = insert vm (insts s) \<and> susps s' = susps s - {vm}
        \<and> (inst_wf (instantiated s) \<longrightarrow> inst_wf (instantiated s'))
        \<and> (hm_wf (suspended s) \<longrightarrow> hm_wf (suspended s'))"
  ultimately show "table_kept s s' \<and> insts s' = insert vm (insts s)"
    using assms(2-) by (auto simp: table_ok_def vms_def)
qed simp_all

lemma wp_suspend_table:
  assumes "panics_within env X" and "table_ok s" and "vm \<in> insts s"
  shows "wp (suspend_vm env vm) (\<lambda>_ s'. table_kept s s' \<and> insts s' = insts s - {vm})
     (\<lambda>_. table_kept s) X s"
proof (rule wp_mono [OF wp_suspend_vm [OF assms(1,3)]])
  fix s'
  assume "same_but_table s s' \<and> insts s' = insts s - {vm} \<and> susps s' = insert vm (susps s)
        \<and> (inst_wf (instantiated s) \<longrightarrow> inst_wf (instantiated s'))
        \<and> (hm_wf (suspended s) \<longrightarrow> hm_wf (suspended s'))"
  moreover have "card (insts s - {vm}) \<le> card (insts s)" by (simp add: card_mono)
  ultimately show "table_kept s s' \<and> insts s' = insts s - {vm}"
    using assms(2-) by (auto simp: table_ok_def vms_def)
qed (use assms(2) in \<open>auto simp: table_ok_def vms_def susps_def\<close>)

lemma susps_eq: "table_ok s \<Longrightarrow> susps s = vms s - insts s"
  by (auto simp: table_ok_def vms_def)

lemma wp_fill_slots:
  assumes "panics_within env X" and "table_ok s" and "distinct ids" and "set ids \<subseteq> susps s"
  shows "wp (fill_slots env ids)
    (\<lambda>left s'. table_kept s s'
       \<and> (\<exists>resumed. ids = resumed @ rev left \<and> insts s' = insts s \<union> set resumed)
       \<and> (left \<noteq> [] \<longrightarrow> card (insts s') = MAX_INSTANTIATED_VMS))
    (\<lambda>_. table_kept s) X s"
  using assms(2-)
proof (induction ids arbitrary: s)
  case Nil
  then show ?case by (simp add: wp_simps)
next
  case (Cons vm ids)
  note len = length_insts [OF Cons.prems(1)]
  show ?case
  proof (cases "card (insts s) < MAX_INSTANTIATED_VMS")
    case False
    then have "card (insts s) = MAX_INSTANTIATED_VMS"
      using Cons.prems(1) by (simp add: table_ok_def)
    then show ?thesis using Cons.prems(1) len by (auto simp: wp_simps intro: exI [of _ "[]"])
  next
    case True
    have vm: "vm \<in> susps s" using Cons.prems(3) by simp
    have "wp (and_then (resume_vm env vm) (\<lambda>_. fill_slots env ids))
      (\<lambda>left s'. table_kept s s'
         \<and> (\<exists>resumed. vm # ids = resumed @ rev left \<and> insts s' = insts s \<union> set resumed)
         \<and> (left \<noteq> [] \<longrightarrow> card (insts s') = MAX_INSTANTIATED_VMS))
      (\<lambda>_. table_kept s) X s"
    proof (rule wp_seq [OF wp_resume_table [OF assms(1) Cons.prems(1) vm True]])
      fix s1
      assume s1: "table_kept s s1 \<and> insts s1 = insert vm (insts s)"
      then have "set ids \<subseteq> susps s1"
        using Cons.prems susps_eq [of s] susps_eq [of s1] by auto
      with s1 Cons.prems(2) show "wp (fill_slots env ids)
        (\<lambda>left s'. table_kept s s'
           \<and> (\<exists>resumed. vm # ids = resumed @ rev left \<and> insts s' = insts s \<union> set resumed)
           \<and> (left \<noteq> [] \<longrightarrow> card (insts s') = MAX_INSTANTIATED_VMS))
        (\<lambda>_. table_kept s) X s1"
        by (intro wp_mono [OF Cons.IH [of s1]])
          (auto intro: same_trans exI [of _ "vm # r" for r])
    qed (use Cons.prems(1) in auto)
    with True len show ?thesis by (simp add: wp_simps)
  qed
qed

lemma wp_swap_vms:
  assumes "panics_within env X" and "table_ok s" and "a \<in> insts s" and "b \<in> susps s"
  shows "wp (swap_vms env (a, b)) (\<lambda>_ s'. table_kept s s' \<and> insts s' = insert b (insts s - {a}))
    (\<lambda>_. table_kept s) X s"
  unfolding swap_vms_def fst_conv snd_conv
proof (rule wp_seq [OF wp_suspend_table [OF assms(1-3)]])
  fix s1
  assume s1: "table_kept s s1 \<and> insts s1 = insts s - {a}"
  have "card (insts s - {a}) < MAX_INSTANTIATED_VMS"
    using assms(2,3) card_Diff1_less [OF finite_insts assms(3)] by (simp add: table_ok_def)
  moreover have "b \<in> susps s1" using s1 assms(2,4) susps_eq [of s] susps_eq [of s1] by auto
  ultimately show "wp (resume_vm env b)
      (\<lambda>_ s'. table_kept s s' \<and> insts s' = insert b (insts s - {a})) (\<lambda>_. table_kept s) X s1"
    using s1 by (intro wp_mono [OF wp_resume_table [OF assms(1), of s1]]) (auto intro: same_trans)
qed auto

lemma wp_swap_all:
  assumes "panics_within env X" and "table_ok s" and "distinct outs" and "distinct ins"
    and "set outs \<subseteq> insts s" and "set ins \<subseteq> susps s" and "length ins \<le> length outs"
  shows "wp (for_each (swap_vms env) (zip outs ins))
    (\<lambda>_ s'. table_kept s s' \<and> insts s - set outs \<union> set ins \<subseteq> insts s')
    (\<lambda>_. table_kept s) X s"
  using assms(2-)
proof (induction ins arbitrary: outs s)
  case Nil
  then show ?case by (auto simp: wp_simps)
next
  case (Cons b ins)
  then obtain a outs' where outs: "outs = a # outs'" by (cases outs) auto
  have ab: "a \<in> insts s" "b \<in> susps s" using Cons.prems outs by auto
  have "wp (and_then (swap_vms env (a, b)) (\<lambda>_. for_each (swap_vms env) (zip outs' ins)))
    (\<lambda>_ s'. table_kept s s' \<and> insts s - set outs \<union> set (b # ins) \<subseteq> insts s')
    (\<lambda>_. table_kept s) X s"
  proof (rule wp_seq [OF wp_swap_vms [OF assms(1) Cons.prems(1) ab]])
    fix s1
    assume s1: "table_kept s s1 \<and> insts s1 = insert b (insts s - {a})"
    have b: "b \<notin> insts s" using ab Cons.prems(1) by (auto simp: table_ok_def)
    have sub: "set outs' \<subseteq> insts s1" "set ins \<subseteq> susps s1"
      using s1 Cons.prems outs susps_eq [of s] susps_eq [of s1] by auto
    show "wp (for_each (swap_vms env) (zip outs' ins))
      (\<lambda>_ s'. table_kept s s' \<and> insts s - set outs \<union> set (b # ins) \<subseteq> insts s')
      (\<lambda>_. table_kept s) X s1"
      using s1 Cons.prems outs sub b
      by (intro wp_mono [OF Cons.IH [of s1 outs']]) (auto intro: same_trans)
  qed auto
  then show ?case using outs by simp
qed

text \<open>When the table is full: as many machines not asked for as there are VMs still to be instantiated.\<close>

lemma enough_to_evict:
  assumes "table_ok s" and "card (insts s) = MAX_INSTANTIATED_VMS" and "distinct ids" and "length ids \<le> MAX_INSTANTIATED_VMS"
    and left: "set left \<subseteq> set ids" "distinct left" "set left \<subseteq> susps s"
    and outs: "distinct outs" "set outs = insts s - set ids"
  shows "length left \<le> length outs"
proof -
  have "set left \<inter> (set ids \<inter> insts s) = {}" using left(3) assms(1) by (auto simp: table_ok_def)
  then have "card (set left) + card (set ids \<inter> insts s) = card (set left \<union> (set ids \<inter> insts s))"
    by (simp add: card_Un_disjoint)
  also have "\<dots> \<le> card (set ids)" using left(1) by (intro card_mono) auto
  finally have "length left + card (set ids \<inter> insts s) \<le> length ids"
    using left(2) assms(3) by (simp add: distinct_card)
  moreover have "length outs = card (insts s - set ids)"
    using outs by (metis distinct_card)
  moreover have "card (insts s - set ids) = card (insts s) - card (set ids \<inter> insts s)"
    by (metis card_Diff_subset_Int finite_insts finite_Int inf_commute)
  ultimately show ?thesis
    using assms(2,4) by linarith
qed

lemma wp_swap_left:
  assumes "panics_within env X" and s1: "table_kept s s1" and full: "card (insts s1) = MAX_INSTANTIATED_VMS"
    and ids: "distinct ids" "length ids \<le> MAX_INSTANTIATED_VMS"
    and left: "set left \<subseteq> set ids" "distinct left" "set left \<subseteq> susps s1" and here: "set ids - set left \<subseteq> insts s1"
  shows "wp (and_then (gets (\<lambda>s'. filter (\<lambda>vm. vm \<notin> set ids) (bt_keys (instantiated s')))) (\<lambda>outs.
        and_then (assert (length left \<le> length outs)) (\<lambda>_. for_each (swap_vms env) (zip outs left))))
      (\<lambda>_ s'. table_kept s s' \<and> set ids \<subseteq> insts s') (\<lambda>_. table_kept s) X s1"
proof -
  let ?outs = "filter (\<lambda>vm. vm \<notin> set ids) (bt_keys (instantiated s1))"
  have ok: "table_ok s1" and wf: "inst_wf (instantiated s1)" using s1 by (simp_all add: table_ok_def)
  have outs: "distinct ?outs" "set ?outs = insts s1 - set ids"
    using inst_wf_bt [OF wf] by (auto simp: bt_wf_def)
  have enough: "length left \<le> length ?outs"
    by (rule enough_to_evict [OF ok full ids left outs])
  have "set ids \<subseteq> insts s'" if "insts s1 - set ?outs \<union> set left \<subseteq> insts s'" for s'
    using that outs(2) here by blast
  then have "wp (for_each (swap_vms env) (zip ?outs left))
      (\<lambda>_ s'. table_kept s s' \<and> set ids \<subseteq> insts s') (\<lambda>_. table_kept s) X s1"
    using s1 outs left enough
    by (intro wp_mono [OF wp_swap_all [OF assms(1), of s1 ?outs left]])
      (auto intro: same_trans simp del: filter_set set_filter)
  with enough show ?thesis by (simp add: wp_simps)
qed

lemma wp_ensure:
  assumes "panics_within env X" and "table_ok s" and "set ids \<subseteq> vms s" and "distinct ids"
    and "length ids \<le> MAX_INSTANTIATED_VMS"
  shows "wp (ensure_vms_instantiated env ids)
    (\<lambda>_ s'. table_kept s s' \<and> set ids \<subseteq> insts s') (\<lambda>_. table_kept s) X s"
proof -
  let ?un = "filter (\<lambda>vm. \<not> bt_contains (instantiated s) vm) ids"
  let ?outs = "\<lambda>s'. filter (\<lambda>vm. vm \<notin> set ids) (bt_keys (instantiated s'))"
  have un: "distinct (rev ?un)" "set (rev ?un) \<subseteq> susps s"
    using assms(3,4) susps_eq [OF assms(2)] by auto
  have "wp (and_then (fill_slots env (rev ?un)) (\<lambda>left. if left = [] then ret ()
        else and_then (gets ?outs) (\<lambda>outs. and_then (assert (length left \<le> length outs))
          (\<lambda>_. for_each (swap_vms env) (zip outs left)))))
      (\<lambda>_ s'. table_kept s s' \<and> set ids \<subseteq> insts s') (\<lambda>_. table_kept s) X s"
  proof (rule wp_seq [OF wp_fill_slots [OF assms(1,2) un]], goal_cases)
    case (1 left s1)
    then obtain resumed where r: "rev ?un = resumed @ rev left" "insts s1 = insts s \<union> set resumed"
      by auto
    have all: "set ?un = set resumed \<union> set left" "distinct (resumed @ rev left)"
      using r(1) un(1) by (metis set_append set_rev, simp)
    show ?case
    proof (cases "left = []")
      case True
      have "set ids \<subseteq> insts s1"
        using r True set_rev [of ?un] by auto
      with True 1 show ?thesis by (simp add: wp_simps)
    next
      case False
      have "set left \<subseteq> set ids" "distinct left" "set ids - set left \<subseteq> insts s1" "set left \<inter> insts s1 = {}"
        using all r(2) by auto
      moreover from this have "set left \<subseteq> susps s1"
        using 1 susps_eq [of s1] all(1) assms(3) by auto
      ultimately show ?thesis
        using False 1 wp_swap_left [OF assms(1) _ _ assms(4,5), of s1 s left] by simp
    qed
  qed auto
  with assms(5) show ?thesis
    by (simp add: ensure_vms_instantiated_def wp_simps)
qed

section \<open>Booting a VM\<close>

lemma wp_make_room:
  assumes "panics_within env X" and "table_ok s" and "card (insts s) < n"
  shows "wp (make_room env n) (\<lambda>_ s'. table_kept s s' \<and> card (insts s') < MAX_INSTANTIATED_VMS)
    (\<lambda>_. table_kept s) X s"
  using assms(2-)
proof (induction n arbitrary: s)
  case 0
  then show ?case by simp
next
  case (Suc n)
  note len = length_insts [OF Suc.prems(1)]
  show ?case
  proof (cases "MAX_INSTANTIATED_VMS \<le> card (insts s)")
    case False
    with Suc.prems len show ?thesis by (simp add: wp_simps)
  next
    case True
    then have "instantiated s \<noteq> []" using len by (auto simp: MAX_INSTANTIATED_VMS_def)
    then obtain vm where vm: "bt_first_key (instantiated s) = Some vm"
      by (metis bt_first_key_None option.exhaust)
    then have ins: "vm \<in> insts s" using bt_first_key_in by (fastforce simp: insts_def)
    have "wp (and_then (suspend_vm env vm) (\<lambda>_. make_room env n))
        (\<lambda>_ s'. table_kept s s' \<and> card (insts s') < MAX_INSTANTIATED_VMS)
        (\<lambda>_. table_kept s) X s"
    proof (rule wp_seq [OF wp_suspend_table [OF assms(1) Suc.prems(1) ins]])
      fix s1 assume s1: "table_kept s s1 \<and> insts s1 = insts s - {vm}"
      then have "card (insts s1) < n"
        using Suc.prems(2) card_Diff1_less [OF finite_insts ins] by simp
      with s1 show "wp (make_room env n)
          (\<lambda>_ s'. table_kept s s' \<and> card (insts s') < MAX_INSTANTIATED_VMS)
          (\<lambda>_. table_kept s) X s1"
        by (intro wp_mono [OF Suc.IH [of s1]]) (auto intro: same_trans)
    qed auto
    with True vm len show ?thesis by (simp add: wp_simps)
  qed
qed

lemma panics_in_load_program:
  assumes "panics_within env X"
  shows "panics_in X (load_program env tx piece off len args)"
  unfolding load_program_def
  by (intro panics_intros panics_withinD [OF assms] panics_in_lift_res) simp

text \<open>What a successful and what a failed \<open>boot_vm\<close> leave behind.\<close>

definition boots :: "('m, 'c, 's, 'd) scheduler \<Rightarrow> vm_id \<Rightarrow> ('m, 'c, 's, 'd) scheduler \<Rightarrow> bool" where
  "boots s vm s' \<longleftrightarrow> vm = next_vm_id s \<and> unat vm + 1 < 2 ^ 64 \<and> next_vm_id s' = vm + 1
     \<and> table_ok s' \<and> vms s' = insert vm (vms s) \<and> vm \<in> insts s'
     \<and> states s' = bt_insert vm Runnable (states s)
     \<and> sch_tx_data s' = sch_tx_data s \<and> total_cycles s' = total_cycles s
     \<and> next_pipe_slot s' = next_pipe_slot s \<and> pipes s' = pipes s
     \<and> terminated_vms s' = terminated_vms s \<and> message_box s' = message_box s"

definition boot_fails :: "('m, 'c, 's, 'd) scheduler \<Rightarrow> ('m, 'c, 's, 'd) scheduler \<Rightarrow> bool" where
  "boot_fails s s' \<longleftrightarrow> table_ok s' \<and> vms s' = vms s
     \<and> (next_vm_id s' = next_vm_id s
        \<or> next_vm_id s' = next_vm_id s + 1 \<and> unat (next_vm_id s) + 1 < 2 ^ 64)
     \<and> states s' = states s
     \<and> sch_tx_data s' = sch_tx_data s \<and> total_cycles s' = total_cycles s
     \<and> next_pipe_slot s' = next_pipe_slot s \<and> pipes s' = pipes s
     \<and> terminated_vms s' = terminated_vms s \<and> message_box s' = message_box s"

text \<open>The rest of \<open>boot_vm\<close>, once there is room and the ID has been taken.\<close>

lemma wp_boot_new:
  assumes "panics_within env X" and "next_vm_id s \<notin> vms s" and m: "unat (next_vm_id s) + 1 < 2 ^ 64"
    and s2: "s2 = s1\<lparr>next_vm_id := next_vm_id s + 1\<rparr>" and s1: "table_kept s s1" "card (insts s1) < MAX_INSTANTIATED_VMS"
  shows "wp (and_then (create_dummy_vm env (next_vm_id s)) (\<lambda>(ctx, machine).
     and_then (on_local (load_program env (mc_data_source ctx) piece off len args)
         (mc_snapshot2_context ctx, machine)) (\<lambda>(_, c, m).
     and_then (modify (\<lambda>s'. s'\<lparr>
         instantiated := bt_insert (next_vm_id s) (ctx\<lparr>mc_snapshot2_context := c\<rparr>, m) (instantiated s'),
         states := bt_insert (next_vm_id s) Runnable (states s')\<rparr>)) (\<lambda>_.
     ret (next_vm_id s))))) (boots s) (\<lambda>_. boot_fails s) X s2"
proof (rule wp_seq [OF wp_create_dummy_vm])
  let ?id = "next_vm_id s"
  have fails: "boot_fails s s2"
    using m s1 s2 by (simp add: boot_fails_def same_but_table_def)
  then show "s' = s2 \<Longrightarrow> boot_fails s s'" for s' by simp
  have new: "?id \<notin> insts s1" "?id \<notin> susps s1" using s1 assms(2) by (auto simp: vms_def)
  have "boots s ?id (s2\<lparr>instantiated := bt_insert ?id (ctx, m) (instantiated s2),
      states := bt_insert ?id Runnable (states s2)\<rparr>)" if "mc_id ctx = ?id" for ctx m
    using that m s1 s2 new by (auto simp: boots_def same_but_table_def table_ok_def vms_def)
  then show "wp (case p of (ctx, machine) \<Rightarrow>
      and_then (on_local (load_program env (mc_data_source ctx) piece off len args)
          (mc_snapshot2_context ctx, machine)) (\<lambda>(_, c, m).
      and_then (modify (\<lambda>s'. s'\<lparr>
          instantiated := bt_insert ?id (ctx\<lparr>mc_snapshot2_context := c\<rparr>, m) (instantiated s'),
          states := bt_insert ?id Runnable (states s')\<rparr>)) (\<lambda>_.
      ret ?id))) (boots s) (\<lambda>_. boot_fails s) X s'"
    if "(\<lambda>(ctx, _) s'. s' = s2 \<and> mc_id ctx = ?id \<and> mc_data_source ctx = sch_tx_data s2) p s'"
    for p s'
    using that fails
    by (cases p) (auto simp: wp_simps
        intro!: wp_mono [OF wp_on_local [OF panics_in_load_program [OF assms(1)]]])
qed

lemma wp_boot_vm:
  assumes "panics_within env X" and "table_ok s" and "next_vm_id s \<notin> vms s"
    and "overflow_checks env \<or> unat (next_vm_id s) + 1 < 2 ^ 64"
  shows "wp (boot_vm env piece off len args) (boots s) (\<lambda>_. boot_fails s) X s"
proof -
  have fuel: "card (insts s) < Suc (length (instantiated s))"
    using length_insts [OF assms(2)] by simp
  show ?thesis
    unfolding boot_vm_def wp_first
  proof (rule wp_seq [OF wp_make_room [OF assms(1,2) fuel]], goal_cases)
    case (1 a s1)
    then have s1: "table_kept s s1" "card (insts s1) < MAX_INSTANTIATED_VMS" by simp_all
    then have "next_vm_id s1 = next_vm_id s" by (simp add: same_but_table_def)
    moreover have "X ArithOverflow" using assms(1) by (rule panics_withinD)
    ultimately show ?case
      using assms(4) wp_boot_new [OF assms(1,3) _ refl s1] by (auto simp: wp_first)
  next
    case (2 e s1)
    then show ?case by (simp add: boot_fails_def same_but_table_def)
  qed
qed

section \<open>The interface to the rest of the scheduler\<close>

locale vm_table =
  fixes ensure :: "vm_id list \<Rightarrow> ('st, unit) prog"
    and access :: "vm_id \<Rightarrow> ('m, unit) prog \<Rightarrow> ('st, unit) prog"
    and fetch :: "vm_id \<Rightarrow> ('m, bytes) prog \<Rightarrow> ('st, bytes) prog"
    and ready :: "'st \<Rightarrow> vm_id set"
    and known :: "'st \<Rightarrow> vm_id set"
    and ok :: "'st \<Rightarrow> bool"
    and same :: "'st \<Rightarrow> 'st \<Rightarrow> bool"
    and limit :: nat
    and X :: "panic \<Rightarrow> bool"
  assumes ensure: "ok s \<Longrightarrow> set ids \<subseteq> known s \<Longrightarrow> distinct ids \<Longrightarrow> length ids \<le> limit \<Longrightarrow>
      wp (ensure ids) (\<lambda>_ s'. (ok s' \<and> same s s' \<and> known s' = known s) \<and> set ids \<subseteq> ready s')
        (\<lambda>_ s'. ok s' \<and> same s s' \<and> known s' = known s) X s"
    and access: "ok s \<Longrightarrow> vm \<in> ready s \<Longrightarrow> panics_in X f \<Longrightarrow>
      wp (access vm f)
        (\<lambda>_ s'. (ok s' \<and> same s s' \<and> known s' = known s) \<and> ready s' = ready s)
        (\<lambda>_ s'. (ok s' \<and> same s s' \<and> known s' = known s) \<and> ready s' = ready s) X s"
    and fetch: "ok s \<Longrightarrow> vm \<in> ready s \<Longrightarrow> panics_in X g \<Longrightarrow>
      wp (fetch vm g)
        (\<lambda>_ s'. (ok s' \<and> same s s' \<and> known s' = known s) \<and> ready s' = ready s)
        (\<lambda>_ s'. (ok s' \<and> same s s' \<and> known s' = known s) \<and> ready s' = ready s) X s"
    and same_trans: "same s t \<Longrightarrow> same t u \<Longrightarrow> same s u"
    and limit_pair: "2 \<le> limit"
begin

text \<open>Answering one VM: its machine is there when it is needed.\<close>

lemma reply:
  assumes "ok s" and "vm \<in> known s" and "panics_in X f"
  shows "wp (and_then (ensure [vm]) (\<lambda>_. access vm f))
    (\<lambda>_ s'. ok s' \<and> same s s' \<and> known s' = known s)
    (\<lambda>_ s'. ok s' \<and> same s s' \<and> known s' = known s) X s"
proof (rule wp_seq [OF ensure])
  fix s1 assume "(ok s1 \<and> same s s1 \<and> known s1 = known s) \<and> set [vm] \<subseteq> ready s1"
  then show "wp (access vm f) (\<lambda>_ s'. ok s' \<and> same s s' \<and> known s' = known s)
      (\<lambda>_ s'. ok s' \<and> same s s' \<and> known s' = known s) X s1"
    by (intro wp_mono [OF access [OF _ _ assms(3)]]) (auto intro: same_trans)
qed (use assms limit_pair in auto)

text \<open>Moving data between two VMs: both machines are there at the same time.\<close>

lemma exchange:
  assumes "ok s" and "a \<in> known s" and "b \<in> known s" and "a \<noteq> b"
    and "panics_in X f" and "\<And>data. panics_in X (g data)" and "\<And>data. panics_in X (h data)"
  shows "wp (and_then (ensure [a, b]) (\<lambda>_. and_then (fetch b f) (\<lambda>data.
      and_then (access a (g data)) (\<lambda>_. access a (h data)))))
    (\<lambda>_ s'. (ok s' \<and> same s s' \<and> known s' = known s) \<and> {a, b} \<subseteq> ready s')
    (\<lambda>_ s'. ok s' \<and> same s s' \<and> known s' = known s) X s"
proof (rule wp_seq [OF ensure])
  let ?E = "\<lambda>_ s'. ok s' \<and> same s s' \<and> known s' = known s"
  fix s1 assume s1: "(ok s1 \<and> same s s1 \<and> known s1 = known s) \<and> set [a, b] \<subseteq> ready s1"
  show "wp (and_then (fetch b f) (\<lambda>data. and_then (access a (g data)) (\<lambda>_. access a (h data))))
      (\<lambda>_ s'. (ok s' \<and> same s s' \<and> known s' = known s) \<and> {a, b} \<subseteq> ready s') ?E X s1"
  proof (rule wp_seq [OF fetch [OF _ _ assms(5)]])
    fix data s2
    assume s2: "(ok s2 \<and> same s1 s2 \<and> known s2 = known s1) \<and> ready s2 = ready s1"
    show "wp (and_then (access a (g data)) (\<lambda>_. access a (h data)))
        (\<lambda>_ s'. (ok s' \<and> same s s' \<and> known s' = known s) \<and> {a, b} \<subseteq> ready s') ?E X s2"
    proof (rule wp_seq [OF access [OF _ _ assms(6)]])
      fix s3
      assume s3: "(ok s3 \<and> same s2 s3 \<and> known s3 = known s2) \<and> ready s3 = ready s2"
      then have "same s s3" using s1 s2 by (meson same_trans)
      with s1 s2 s3 show "wp (access a (h data))
          (\<lambda>_ s'. (ok s' \<and> same s s' \<and> known s' = known s) \<and> {a, b} \<subseteq> ready s') ?E X s3"
        by (intro wp_mono [OF access [OF _ _ assms(7)]]) (auto intro: same_trans)
    qed (use s1 s2 in \<open>auto intro: same_trans\<close>)
  qed (use s1 in \<open>auto intro: same_trans\<close>)
qed (use assms limit_pair in auto)

end

lemma wp_with_machine:
  assumes "table_ok s" and "vm \<in> insts s" and "panics_in X f"
  shows "wp (with_machine vm f) (\<lambda>_ s'. table_kept s s' \<and> insts s' = insts s)
    (\<lambda>_ s'. table_kept s s' \<and> insts s' = insts s) X s"
  unfolding with_machine_def
proof (rule wp_mono [OF wp_with_vm [OF assms(2) panics_in_mach(2) [OF assms(3)]]])
  fix s'
  assume s': "same_but_table s s' \<and> insts s' = insts s \<and> suspended s' = suspended s
      \<and> (inst_wf (instantiated s) \<longrightarrow> inst_wf (instantiated s'))"
  then have "susps s' = susps s" by (simp add: susps_def)
  with s' assms(1) show "table_kept s s' \<and> insts s' = insts s"
    by (simp add: table_ok_def vms_def)
  then show "table_kept s s' \<and> insts s' = insts s" .
qed simp

text \<open>The model's own table provides the interface.\<close>

interpretation table: vm_table
  "ensure_vms_instantiated env" with_machine with_machine insts vms
  "\<lambda>s. panics_within env X \<and> table_ok s" same_but_table MAX_INSTANTIATED_VMS X
  for env :: "('m, 'c, 's, 'e, 'z, 'd) ckb_env" and X
proof (unfold_locales, goal_cases)
  case (1 s ids)
  then show ?case by (auto intro!: wp_mono [OF wp_ensure])
next
  case (2 s vm f)
  then show ?case by (auto intro!: wp_mono [OF wp_with_machine])
next
  case (3 s vm g)
  then show ?case by (auto intro!: wp_mono [OF wp_with_machine])
qed (auto intro: same_trans simp: MAX_INSTANTIATED_VMS_def)

end
