(* ===== verification/Sched_Spec.thy ===== *)
theory Sched_Spec
  imports Vm_Table
begin

text \<open>
  The abstract specification of the scheduler: what it promises, said without machines,
  snapshots or memory. Its state \<open>asched\<close> has the VM states, the owners of the pipes, the exit
  codes and the two counters; its operations are total functions, and \<open>astep\<close> is what one
  successful \<open>iterate\<close> may do. The invariant \<open>ainv\<close> is proved here once; the theories of the
  operations prove that the code refines this specification (\<open>abs_of\<close>), which carries the
  invariant over to the code.
\<close>

section \<open>State and operations\<close>

record asched =
  a_states :: "vm_id \<Rightarrow> vm_state option"
  a_pipes :: "pipe_id \<Rightarrow> vm_id option"
  a_terminated :: "vm_id \<Rightarrow> i8 option"
  a_next_vm :: vm_id
  a_next_slot :: u64

definition abs_of :: "('m, 'c, 's, 'd) scheduler \<Rightarrow> asched" where
  "abs_of s = \<lparr>a_states = bt_get (states s), a_pipes = hm_get (pipes s),
     a_terminated = hm_get (terminated_vms s), a_next_vm = next_vm_id s,
     a_next_slot = next_pipe_slot s\<rparr>"

definition set_state :: "vm_id \<Rightarrow> vm_state \<Rightarrow> asched \<Rightarrow> asched" where
  "set_state vm st a = a\<lparr>a_states := (a_states a)(vm \<mapsto> st)\<rparr>"

definition a_boot :: "asched \<Rightarrow> asched" where
  "a_boot a = (set_state (a_next_vm a) Runnable a)\<lparr>a_next_vm := a_next_vm a + 1\<rparr>"

definition give_pipes :: "pipe_id list \<Rightarrow> vm_id \<Rightarrow> asched \<Rightarrow> asched" where
  "give_pipes ps vm a = a\<lparr>a_pipes := (\<lambda>p. if p \<in> set ps then Some vm else a_pipes a p)\<rparr>"

text \<open>A pipe end can be used by its owner while the other end is open.\<close>

definition usable :: "asched \<Rightarrow> vm_id \<Rightarrow> pipe_id \<Rightarrow> bool" where
  "usable a vm p \<longleftrightarrow> a_pipes a p = Some vm \<and> a_pipes a (other_pipe p) \<noteq> None"

fun a_message :: "message \<Rightarrow> asched \<Rightarrow> asched" where
  "a_message (MSpawn vm args) a = give_pipes (sp_pipes args) (a_next_vm a) (a_boot a)"
| "a_message (MJoin vm args) a =
     (if a_terminated a (jn_target_id args) \<noteq> None then set_state vm Runnable a
      else if a_states a (jn_target_id args) = None then a
      else set_state vm (Join (jn_target_id args) (jn_exit_code_addr args)) a)"
| "a_message (MPipe vm args) a =
     (give_pipes [PipeId (a_next_slot a), PipeId (a_next_slot a + 1)] vm a)
       \<lparr>a_next_slot := a_next_slot a + 2\<rparr>"
| "a_message (MPipeRead vm args) a =
     (if usable a vm (io_pipe args)
      then set_state vm (WaitForRead (io_pipe args) (io_length args) (io_buffer_addr args)
             (io_length_addr args)) a
      else a)"
| "a_message (MPipeWrite vm args) a =
     (if usable a vm (io_pipe args)
      then set_state vm (WaitForWrite (io_pipe args) 0 (io_length args) (io_buffer_addr args)
             (io_length_addr args)) a
      else a)"

text \<open>
  The state a waiting VM gets from one round of IO. The VM at the other end of its pipe is
  found through the owner of that end.
\<close>

definition peer :: "asched \<Rightarrow> pipe_id \<Rightarrow> vm_state option" where
  "peer a p = (case a_pipes a (other_pipe p) of None \<Rightarrow> None | Some v \<Rightarrow> a_states a v)"

fun reads_from :: "pipe_id \<Rightarrow> vm_state \<Rightarrow> u64 option" where
  "reads_from p (WaitForRead q len _ _) = (if q = p then Some len else None)"
| "reads_from p _ = None"

fun writes_to :: "pipe_id \<Rightarrow> vm_state \<Rightarrow> bool" where
  "writes_to p (WaitForWrite q _ _ _ _) \<longleftrightarrow> q = p"
| "writes_to p _ \<longleftrightarrow> False"

fun written :: "u64 \<Rightarrow> vm_state \<Rightarrow> vm_state" where
  "written len (WaitForWrite p c n b l) =
     (let c' = c + min len (n - c) in if c' = n then Runnable else WaitForWrite p c' n b l)"
| "written len st = st"

fun io_state :: "asched \<Rightarrow> vm_state \<Rightarrow> vm_state" where
  "io_state a (WaitForRead p len b l) =
     (if a_pipes a (other_pipe p) = None then Runnable
      else case peer a p of
        Some st \<Rightarrow> if writes_to (other_pipe p) st then Runnable else WaitForRead p len b l
      | None \<Rightarrow> WaitForRead p len b l)"
| "io_state a (WaitForWrite p c n b l) =
     (if a_pipes a (other_pipe p) = None then Runnable
      else case peer a p of
        Some st \<Rightarrow> (case reads_from (other_pipe p) st of
            Some len \<Rightarrow> written len (WaitForWrite p c n b l) | None \<Rightarrow> WaitForWrite p c n b l)
      | None \<Rightarrow> WaitForWrite p c n b l)"
| "io_state a st = st"

definition a_io :: "asched \<Rightarrow> asched" where
  "a_io a = a\<lparr>a_states := (\<lambda>v. map_option (io_state a) (a_states a v))\<rparr>"

fun wake_joiner :: "vm_id \<Rightarrow> vm_state \<Rightarrow> vm_state" where
  "wake_joiner vm (Join t addr) = (if t = vm then Runnable else Join t addr)"
| "wake_joiner vm st = st"

definition a_exit :: "vm_id \<Rightarrow> i8 \<Rightarrow> asched \<Rightarrow> asched" where
  "a_exit vm code a =
     (let b = a\<lparr>a_terminated := (a_terminated a)(vm \<mapsto> code)\<rparr> in
      if vm = ROOT_VM_ID then b\<lparr>a_states := [ROOT_VM_ID \<mapsto> Terminated]\<rparr>
      else b\<lparr>a_states := (\<lambda>v. if v = vm then None else map_option (wake_joiner vm) (a_states a v)),
             a_pipes := (\<lambda>p. if a_pipes a p = Some vm then None else a_pipes a p)\<rparr>)"

text \<open>The VM an iteration runs: the runnable one with the largest ID.\<close>

definition picks :: "asched \<Rightarrow> vm_id \<Rightarrow> bool" where
  "picks a vm \<longleftrightarrow> a_states a vm = Some Runnable
     \<and> (\<forall>v. a_states a v = Some Runnable \<longrightarrow> v \<le> vm)"

text \<open>What holds of a message the scheduler carries out.\<close>

fun enabled :: "asched \<Rightarrow> message \<Rightarrow> bool" where
  "enabled a (MSpawn vm args) \<longleftrightarrow> unat (a_next_vm a) + 1 < 2 ^ 64 \<and> (\<forall>p \<in> set (sp_pipes args). a_pipes a p = Some vm)"
| "enabled a (MPipe vm args) \<longleftrightarrow> unat (a_next_slot a) + 2 < 2 ^ 64"
| "enabled a (MPipeRead vm args) \<longleftrightarrow> is_read (io_pipe args)"
| "enabled a (MPipeWrite vm args) \<longleftrightarrow> is_write (io_pipe args)"
| "enabled a (MJoin vm args) \<longleftrightarrow> True"

datatype event = Yielded message | Exited vm_id i8

inductive astep :: "asched \<Rightarrow> event \<Rightarrow> asched \<Rightarrow> bool" where
  yields: "picks (a_io a) vm \<Longrightarrow> message_from msg = vm \<Longrightarrow> enabled (a_io a) msg \<Longrightarrow>
     astep a (Yielded msg) (a_message msg (a_io a))"
| exits: "picks (a_io a) vm \<Longrightarrow> astep a (Exited vm code) (a_exit vm code (a_io a))"

inductive_cases astep_cases: "astep a ev a'"

inductive asteps :: "asched \<Rightarrow> event list \<Rightarrow> asched \<Rightarrow> bool" where
  none: "asteps a [] a"
| more: "astep a ev b \<Longrightarrow> asteps b evs c \<Longrightarrow> asteps a (ev # evs) c"

text \<open>The fields after each operation.\<close>

lemma abs_of_sel [simp]:
  "a_states (abs_of s) = bt_get (states s)" "a_pipes (abs_of s) = hm_get (pipes s)"
  "a_terminated (abs_of s) = hm_get (terminated_vms s)" "a_next_vm (abs_of s) = next_vm_id s"
  "a_next_slot (abs_of s) = next_pipe_slot s"
  by (simp_all add: abs_of_def)

lemma set_state_sel [simp]:
  "a_states (set_state vm st a) = (a_states a)(vm \<mapsto> st)" "a_pipes (set_state vm st a) = a_pipes a"
  "a_terminated (set_state vm st a) = a_terminated a" "a_next_vm (set_state vm st a) = a_next_vm a"
  "a_next_slot (set_state vm st a) = a_next_slot a"
  by (simp_all add: set_state_def)

lemma give_pipes_sel [simp]:
  "a_states (give_pipes ps vm a) = a_states a"
  "a_pipes (give_pipes ps vm a) p = (if p \<in> set ps then Some vm else a_pipes a p)"
  "a_terminated (give_pipes ps vm a) = a_terminated a"
  "a_next_vm (give_pipes ps vm a) = a_next_vm a"
  "a_next_slot (give_pipes ps vm a) = a_next_slot a"
  by (simp_all add: give_pipes_def)

lemma a_boot_sel [simp]:
  "a_states (a_boot a) = (a_states a)(a_next_vm a \<mapsto> Runnable)" "a_pipes (a_boot a) = a_pipes a"
  "a_terminated (a_boot a) = a_terminated a" "a_next_vm (a_boot a) = a_next_vm a + 1"
  "a_next_slot (a_boot a) = a_next_slot a"
  by (simp_all add: a_boot_def)

lemma a_io_sel [simp]:
  "a_states (a_io a) v = map_option (io_state a) (a_states a v)" "a_pipes (a_io a) = a_pipes a"
  "a_terminated (a_io a) = a_terminated a" "a_next_vm (a_io a) = a_next_vm a"
  "a_next_slot (a_io a) = a_next_slot a"
  by (simp_all add: a_io_def)

lemma a_exit_sel [simp]:
  "a_terminated (a_exit vm code a) = (a_terminated a)(vm \<mapsto> code)"
  "a_next_vm (a_exit vm code a) = a_next_vm a" "a_next_slot (a_exit vm code a) = a_next_slot a"
  "a_states (a_exit vm code a) v = (if vm = ROOT_VM_ID then [ROOT_VM_ID \<mapsto> Terminated] v
     else if v = vm then None else map_option (wake_joiner vm) (a_states a v))"
  "a_pipes (a_exit vm code a) p =
     (if vm \<noteq> ROOT_VM_ID \<and> a_pipes a p = Some vm then None else a_pipes a p)"
  by (simp_all add: a_exit_def Let_def)

section \<open>The invariant\<close>

definition live :: "asched \<Rightarrow> bool" where
  "live a \<longleftrightarrow> a_states a ROOT_VM_ID \<noteq> Some Terminated"

definition pipe_issued :: "asched \<Rightarrow> pipe_id \<Rightarrow> bool" where
  "pipe_issued a p \<longleftrightarrow> FIRST_PIPE_SLOT \<le> pipe_raw p \<and> pipe_raw p < a_next_slot a"

fun state_ok :: "asched \<Rightarrow> vm_id \<Rightarrow> vm_state \<Rightarrow> bool" where
  "state_ok a v Runnable \<longleftrightarrow> True"
| "state_ok a v Terminated \<longleftrightarrow> v = ROOT_VM_ID \<and> dom (a_states a) = {ROOT_VM_ID}"
| "state_ok a v (Join t _) \<longleftrightarrow> a_states a t \<noteq> None"
| "state_ok a v (WaitForRead p _ _ _) \<longleftrightarrow> is_read p \<and> a_pipes a p = Some v"
| "state_ok a v (WaitForWrite p c n _ _) \<longleftrightarrow> is_write p \<and> a_pipes a p = Some v \<and> c \<le> n"

definition ainv :: "asched \<Rightarrow> bool" where
  "ainv a \<longleftrightarrow>
     (\<forall>v st. a_states a v = Some st \<longrightarrow> v < a_next_vm a \<and> state_ok a v st)
     \<and> (\<forall>p v. a_pipes a p = Some v \<longrightarrow> pipe_issued a p \<and> (live a \<longrightarrow> a_states a v \<noteq> None))
     \<and> even (a_next_slot a) \<and> FIRST_PIPE_SLOT \<le> a_next_slot a"

text \<open>Exit codes are kept for VMs that are gone; the root VM keeps its entry.\<close>

definition codes_ok :: "asched \<Rightarrow> bool" where
  "codes_ok a \<longleftrightarrow> (\<forall>v code. a_terminated a v = Some code \<longrightarrow>
     v < a_next_vm a \<and> a_states a v \<in> {None, Some Terminated})"

lemma ainv_state: "ainv a \<Longrightarrow> a_states a v = Some st \<Longrightarrow> v < a_next_vm a \<and> state_ok a v st"
  by (simp add: ainv_def)

lemma ainv_pipe:
  "ainv a \<Longrightarrow> a_pipes a p = Some v \<Longrightarrow> pipe_issued a p \<and> (live a \<longrightarrow> a_states a v \<noteq> None)"
  by (simp add: ainv_def)

lemma ainv_fresh: "ainv a \<Longrightarrow> a_states a (a_next_vm a) = None"
  using ainv_state by (cases "a_states a (a_next_vm a)") fastforce+

lemma terminated_dom:
  "ainv a \<Longrightarrow> a_states a v = Some Terminated \<Longrightarrow> v = ROOT_VM_ID \<and> dom (a_states a) = {ROOT_VM_ID}"
  by (drule (1) ainv_state) simp

lemma live_alive: "ainv a \<Longrightarrow> a_states a v = Some st \<Longrightarrow> st \<noteq> Terminated \<Longrightarrow> live a"
  unfolding live_def by (metis domI option.inject singletonD terminated_dom)

lemma live_not_terminated:
  "ainv a \<Longrightarrow> live a \<Longrightarrow> a_states a v = Some x \<Longrightarrow> x \<noteq> Terminated"
  unfolding live_def by (metis terminated_dom)

lemma less_succ_u64: "unat n + 1 < 2 ^ 64 \<Longrightarrow> (n :: u64) < n + 1"
  by (simp add: word_less_nat_alt unat_add_u64)

section \<open>The operations keep it\<close>

lemma ainv_set_state:
  assumes "ainv a" and "live a" and "a_states a vm \<noteq> None" and "st \<noteq> Terminated"
    and "state_ok a vm st"
  shows "ainv (set_state vm st a)"
proof -
  let ?b = "set_state vm st a"
  have none: "a_states ?b v = None \<longleftrightarrow> a_states a v = None" for v
    using assms(3) by (auto )
  note alive = live_not_terminated [OF assms(1,2)]
  have ok: "state_ok ?b v x" if "state_ok a v x" "x \<noteq> Terminated" for v x
    using that none by (cases x) (auto )
  have live: "live ?b \<longrightarrow> live a" using assms(2) by simp
  have lt: "vm < a_next_vm a" using assms(1,3) ainv_state by blast
  show ?thesis
    unfolding ainv_def
  proof (intro conjI allI impI)
    fix v x assume v: "a_states ?b v = Some x"
    then show "v < a_next_vm ?b"
      using lt ainv_state [OF assms(1)] by (auto  split: if_splits)
    show "state_ok ?b v x"
      using v assms(4,5) alive ainv_state [OF assms(1)]
      by (intro ok) (auto  split: if_splits)
  next
    fix p v assume "a_pipes ?b p = Some v"
    then show "pipe_issued ?b p" "a_states ?b v \<noteq> None"
      using assms(1,2) none ainv_pipe [of a p v] by (simp_all add:  pipe_issued_def)
  qed (use assms(1) in \<open>auto simp: ainv_def \<close>)
qed

lemma ainv_boot:
  assumes "ainv a" and "live a" and "unat (a_next_vm a) + 1 < 2 ^ 64"
  shows "ainv (a_boot a)"
proof -
  let ?id = "a_next_vm a"
  have lt: "?id < ?id + 1" "v < ?id \<Longrightarrow> v < ?id + 1" for v
    using less_succ_u64 [OF assms(3)] less_trans by blast+
  note alive = live_not_terminated [OF assms(1,2)]
  have fresh: "a_states a ?id = None" by (rule ainv_fresh [OF assms(1)])
  have ok: "state_ok (a_boot a) v x" if "state_ok a v x" "x \<noteq> Terminated" for v x
    using that fresh by (cases x) auto
  show ?thesis
    unfolding ainv_def
  proof (intro conjI allI impI)
    fix v x assume v: "a_states (a_boot a) v = Some x"
    then show "v < a_next_vm (a_boot a)"
      using lt ainv_state [OF assms(1)] by (auto simp: split: if_splits)
    show "state_ok (a_boot a) v x"
      using v alive ainv_state [OF assms(1)] ok
      by (cases "v = ?id") auto
  next
    fix p v assume "a_pipes (a_boot a) p = Some v"
    then show "pipe_issued (a_boot a) p" "a_states (a_boot a) v \<noteq> None"
      using assms(1,2) ainv_pipe [of a p v]
      by (auto simp: pipe_issued_def)
  qed (use assms(1) in \<open>auto simp: ainv_def\<close>)
qed

text \<open>Pipes may go to a VM that exists if nobody waits on them.\<close>

lemma ainv_give_pipes:
  assumes "ainv a" and "a_states a vm \<noteq> None" and "\<forall>p \<in> set ps. pipe_issued a p"
    and "\<And>v p len b l. a_states a v = Some (WaitForRead p len b l) \<Longrightarrow> p \<notin> set ps"
    and "\<And>v p c n b l. a_states a v = Some (WaitForWrite p c n b l) \<Longrightarrow> p \<notin> set ps"
  shows "ainv (give_pipes ps vm a)"
proof -
  have ok: "state_ok (give_pipes ps vm a) v x" if "a_states a v = Some x" for v x
    using that ainv_state [OF assms(1) that] assms(4,5) [of v]
    by (cases x) (auto )
  show ?thesis
    unfolding ainv_def
    using assms(1-3) ok ainv_state [OF assms(1)] ainv_pipe [OF assms(1)]
    by (auto simp: pipe_issued_def live_def ainv_def split: if_splits)
qed

lemma ainv_new_slot:
  assumes "ainv a" and "a_next_slot a \<le> n" and "even n"
  shows "ainv (a\<lparr>a_next_slot := n\<rparr>)"
proof -
  have "state_ok (a\<lparr>a_next_slot := n\<rparr>) v x = state_ok a v x" for v x by (cases x) auto
  moreover have "pipe_issued (a\<lparr>a_next_slot := n\<rparr>) p" if "a_pipes a p = Some v" for p v
    using ainv_pipe [OF assms(1) that] assms(2) by (auto simp: pipe_issued_def)
  ultimately show ?thesis
    using assms unfolding ainv_def live_def by auto
qed


lemma next_slot_less: "unat n + 2 < 2 ^ 64 \<Longrightarrow> (n :: u64) < n + 1 \<and> n + 1 < n + 2 \<and> n < n + 2"
  by (simp add: word_less_nat_alt unat_add_u64)

lemma even_next_slot: "even (n :: u64) \<Longrightarrow> even (n + 2)"
  by simp

text \<open>No VM waits on a pipe end that a running VM owns.\<close>

lemma unowned:
  assumes "ainv a" and "a_states a vm = Some Runnable"
  shows "a_states a v = Some (WaitForRead p len b l) \<Longrightarrow> a_pipes a p \<noteq> Some vm"
    and "a_states a v = Some (WaitForWrite p c n b l) \<Longrightarrow> a_pipes a p \<noteq> Some vm"
  using assms ainv_state [OF assms(1), of v] by auto

lemma ainv_spawned:
  assumes "ainv a" and "a_states a vm = Some Runnable" and "unat (a_next_vm a) + 1 < 2 ^ 64"
    and "\<forall>p \<in> set ps. a_pipes a p = Some vm"
  shows "ainv (give_pipes ps (a_next_vm a) (a_boot a))"
proof (rule ainv_give_pipes)
  show "ainv (a_boot a)"
    by (rule ainv_boot [OF assms(1) _ assms(3)]) (use live_alive [OF assms(1,2)] in simp)
  show "\<forall>p \<in> set ps. pipe_issued (a_boot a) p"
    using assms(4) ainv_pipe [OF assms(1)] by (auto simp: pipe_issued_def)
qed (use assms(4) in \<open>auto split: if_splits dest!: unowned [OF assms(1,2)]\<close>)

lemma ainv_piped:
  assumes "ainv a" and "a_states a vm = Some Runnable" and "unat (a_next_slot a) + 2 < 2 ^ 64"
  shows "ainv ((give_pipes [PipeId (a_next_slot a), PipeId (a_next_slot a + 1)] vm a)\<lparr>a_next_slot := a_next_slot a + 2\<rparr>)"
proof -
  let ?n = "a_next_slot a"
  have n: "?n < ?n + 1" "?n + 1 < ?n + 2" "?n < ?n + 2"
    using next_slot_less [OF assms(3)] by auto
  have ev: "even ?n" "FIRST_PIPE_SLOT \<le> ?n" using assms(1) by (auto simp: ainv_def)
  let ?b = "a\<lparr>a_next_slot := ?n + 2\<rparr>"
  have b: "ainv ?b" using assms(1) n ev by (intro ainv_new_slot) auto
  have "ainv (give_pipes [PipeId ?n, PipeId (?n + 1)] vm ?b)"
  proof (rule ainv_give_pipes [OF b])
    show "\<forall>p \<in> set [PipeId ?n, PipeId (?n + 1)]. pipe_issued ?b p"
      using n ev by (auto simp: pipe_issued_def)
    have old: "p \<notin> set [PipeId ?n, PipeId (?n + 1)]" if "a_pipes a p = Some v" for p v
      using ainv_pipe [OF assms(1) that] n by (auto simp: pipe_issued_def)
    show "p \<notin> set [PipeId ?n, PipeId (?n + 1)]"
      if "a_states ?b v = Some (WaitForRead p len b l)" for v p len b l
      using that ainv_state [OF assms(1), of v] by (intro old [of _ v]) simp
    show "p \<notin> set [PipeId ?n, PipeId (?n + 1)]"
      if "a_states ?b v = Some (WaitForWrite p c m b l)" for v p c m b l
      using that ainv_state [OF assms(1), of v] by (intro old [of _ v]) simp
  qed (use assms(2) in simp)
  moreover have "give_pipes [PipeId ?n, PipeId (?n + 1)] vm ?b =
      (give_pipes [PipeId ?n, PipeId (?n + 1)] vm a)\<lparr>a_next_slot := ?n + 2\<rparr>"
    by (simp add: give_pipes_def cong del: if_weak_cong)
  ultimately show ?thesis by simp
qed

lemma ainv_message:
  assumes "ainv a" and "a_states a (message_from msg) = Some Runnable" and "enabled a msg"
  shows "ainv (a_message msg a)"
proof -
  have live: "live a" using live_alive [OF assms(1,2)] by simp
  have set: "ainv (set_state vm st a)"
    if "message_from msg = vm" "st \<noteq> Terminated" "state_ok a vm st" for vm st
    using that assms(1,2) live by (intro ainv_set_state) auto
  show ?thesis
  proof (cases msg)
    case (MSpawn vm args)
    then show ?thesis using assms ainv_spawned [OF assms(1), of vm "sp_pipes args"] by simp
  next
    case (MPipe vm args)
    then show ?thesis using assms ainv_piped [OF assms(1), of vm] by simp
  qed (use assms(1,3) in \<open>auto intro!: set simp: usable_def\<close>)
qed

text \<open>IO.\<close>

lemma min_le_diff: "(c :: u64) \<le> n \<Longrightarrow> c + min len (n - c) \<le> n"
proof -
  assume le: "c \<le> n"
  have "unat (c + min len (n - c)) = unat c + unat (min len (n - c))"
    by (rule unat_add_small)
      (use le unat_bound_u64 [of n] in \<open>auto simp: min_def word_le_nat_alt unat_sub\<close>)
  with le show ?thesis by (auto simp: min_def word_le_nat_alt unat_sub)
qed

lemma written_cases:
  "written len (WaitForWrite p c n b l) = Runnable \<or>
   written len (WaitForWrite p c n b l) = WaitForWrite p (c + min len (n - c)) n b l"
  by (simp add: Let_def)

lemma io_state_cases:
  "io_state a st = st \<or> io_state a st = Runnable
   \<or> (\<exists>p c n b l len. st = WaitForWrite p c n b l
        \<and> io_state a st = WaitForWrite p (c + min len (n - c)) n b l)"
proof (cases st)
  case (WaitForWrite p c n b l)
  then show ?thesis
    using written_cases [of _ p c n b l] by (auto split: option.splits simp del: written.simps)
qed (auto split: option.splits)

lemma state_ok_io:
  assumes "state_ok a v st" "st \<noteq> Terminated"
  shows "state_ok (a_io a) v (io_state a st)"
proof -
  have same: "state_ok (a_io a) v st" using assms by (cases st) auto
  show ?thesis
    using io_state_cases [of a st] same by (auto simp: min_le_diff)
qed

lemma io_state_Terminated: "io_state a st = Terminated \<longleftrightarrow> st = Terminated"
  using io_state_cases [of a st] by (cases st) auto

lemma live_a_io [simp]: "live (a_io a) = live a"
  by (auto simp: live_def io_state_Terminated)

lemma ainv_io:
  assumes "ainv a"
  shows "ainv (a_io a)"
proof -
  have ok: "state_ok (a_io a) v (io_state a st)" if "a_states a v = Some st" for v st
  proof (cases "st = Terminated")
    case True
    then show ?thesis using terminated_dom [OF assms] that by (auto simp: dom_def)
  qed (use ainv_state [OF assms that] state_ok_io in auto)
  show ?thesis
    unfolding ainv_def using assms ok ainv_state [OF assms] ainv_pipe [OF assms]
    by (auto simp: pipe_issued_def ainv_def live_def io_state_Terminated [unfolded])
qed

text \<open>Exits.\<close>

lemma ainv_exit:
  assumes "ainv a" and "a_states a vm = Some Runnable"
  shows "ainv (a_exit vm code a)"
proof (cases "vm = ROOT_VM_ID")
  case True
  have "ROOT_VM_ID < a_next_vm a" using ainv_state [OF assms] True by simp
  then show ?thesis
    using True assms(1) ainv_pipe [OF assms(1)]
    by (auto simp: ainv_def live_def pipe_issued_def split: if_splits)
next
  case False
  let ?b = "a_exit vm code a"
  have live: "live a" using live_alive [OF assms] by simp
  have b: "a_states ?b v = (if v = vm then None else map_option (wake_joiner vm) (a_states a v))"
    "a_pipes ?b p = (if a_pipes a p = Some vm then None else a_pipes a p)"
    "a_next_vm ?b = a_next_vm a" "a_next_slot ?b = a_next_slot a" for v p
    using False by simp_all
  have ok: "state_ok ?b v (wake_joiner vm st)" if "a_states a v = Some st" "v \<noteq> vm" for v st
    using ainv_state [OF assms(1) that(1)] live_not_terminated [OF assms(1) live that(1)] that(2)
    by (cases st) (auto simp: b False)
  show ?thesis
    unfolding ainv_def pipe_issued_def b
    using assms(1) live ok ainv_state [OF assms(1)] ainv_pipe [OF assms(1)]
    by (auto simp: b ainv_def pipe_issued_def)
qed


section \<open>Steps\<close>

lemma picks_Runnable: "picks a vm \<Longrightarrow> a_states a vm = Some Runnable"
  by (simp add: picks_def)

lemma picks_unique: "picks a vm \<Longrightarrow> picks a vm' \<Longrightarrow> vm = vm'"
  unfolding picks_def by (metis order.antisym)

lemma astep_ainv: "astep a ev b \<Longrightarrow> ainv a \<Longrightarrow> ainv b"
  by (elim astep_cases) (auto intro: ainv_message ainv_exit ainv_io dest: picks_Runnable)

lemma codes_set_state:
  "codes_ok a \<Longrightarrow> a_terminated a vm = None \<Longrightarrow> codes_ok (set_state vm st a)"
  by (auto simp: codes_ok_def )

lemma codes_running: "codes_ok a \<Longrightarrow> a_states a vm = Some Runnable \<Longrightarrow> a_terminated a vm = None"
  unfolding codes_ok_def by (cases "a_terminated a vm") fastforce+

lemma codes_message:
  assumes "codes_ok a" and "a_states a (message_from msg) = Some Runnable" and "enabled a msg"
  shows "codes_ok (a_message msg a)"
proof (cases msg)
  case (MSpawn vm args)
  then have lt: "a_next_vm a < a_next_vm a + 1" using assms(3) less_succ_u64 by simp
  then show ?thesis
    using assms(1) MSpawn less_trans [OF _ lt]
    by (auto simp: codes_ok_def )
qed (use assms codes_running [OF assms(1,2)] in
    \<open>auto intro: codes_set_state simp: codes_ok_def \<close>)

lemma codes_io: "codes_ok a \<Longrightarrow> codes_ok (a_io a)"
  by (auto simp: codes_ok_def)

lemma codes_exit:
  assumes "ainv a" and "codes_ok a" and "a_states a vm = Some Runnable"
  shows "codes_ok (a_exit vm code a)"
  using assms ainv_state [OF assms(1,3)]
  by (auto simp: codes_ok_def)

lemma astep_codes: "astep a ev b \<Longrightarrow> ainv a \<Longrightarrow> codes_ok a \<Longrightarrow> codes_ok b"
  by (elim astep_cases)
    (auto intro: codes_message codes_exit codes_io ainv_io dest: picks_Runnable)

lemma asteps_inv: "asteps a evs b \<Longrightarrow> ainv a \<and> codes_ok a \<Longrightarrow> ainv b \<and> codes_ok b"
  by (induction rule: asteps.induct) (auto dest: astep_ainv astep_codes)

text \<open>The exit code of a VM, once recorded, never changes, and IDs are never reused.\<close>

lemma a_terminated_message [simp]: "a_terminated (a_message msg a) = a_terminated a"
  by (cases "(msg, a)" rule: a_message.cases) auto

lemma astep_terminated:
  assumes "astep a ev b" and "codes_ok a" and "a_terminated a v = Some code"
  shows "a_terminated b v = Some code"
  using assms(1)
proof (cases rule: astep.cases)
  case (exits vm code')
  then have "a_terminated (a_io a) vm = None"
    by (intro codes_running codes_io assms(2) picks_Runnable)
  then have "v \<noteq> vm" using assms(3) by auto
  then show ?thesis using exits assms(3) by simp
qed (use assms(3) in \<open>simp add:\<close>)

lemma asteps_terminated:
  "asteps a evs b \<Longrightarrow> ainv a \<Longrightarrow> codes_ok a \<Longrightarrow> a_terminated a v = Some code \<Longrightarrow>
   a_terminated b v = Some code"
  by (induction rule: asteps.induct) (auto dest: astep_ainv astep_codes astep_terminated)

section \<open>IO makes all the progress it can\<close>

lemma writes_to_iff: "writes_to p st \<longleftrightarrow> (\<exists>c n b l. st = WaitForWrite p c n b l)"
  by (cases st) auto

lemma reads_from_Some: "reads_from p st = Some len \<longleftrightarrow> (\<exists>b l. st = WaitForRead p len b l)"
  by (cases st) auto

lemma writes_to_io: "writes_to p (io_state a st) \<Longrightarrow> writes_to p st"
  using io_state_cases [of a st] by (auto simp: writes_to_iff)

lemma reads_from_io: "reads_from p (io_state a st) = Some len \<Longrightarrow> reads_from p st = Some len"
  using io_state_cases [of a st] by (auto simp: reads_from_Some)

lemma peer_a_io: "peer (a_io a) p = map_option (io_state a) (peer a p)"
  by (auto simp: peer_def split: option.splits)

lemma io_state_idem:
  assumes "ainv a" and v: "a_states a v = Some st"
  shows "io_state (a_io a) (io_state a st) = io_state a st"
proof (cases st)
  case (WaitForRead p len b l)
  have "\<not> writes_to (other_pipe p) (io_state a x)" if "\<not> writes_to (other_pipe p) x" for x
    using that writes_to_io by blast
  then show ?thesis
    using WaitForRead by (auto simp: peer_a_io split: option.splits)
next
  case (WaitForWrite p c n b l)
  have mine: "a_pipes a p = Some v" using ainv_state [OF assms] WaitForWrite by simp
  have served: "reads_from (other_pipe p) (io_state a x) = None" if "peer a p = Some x" for x
  proof (rule ccontr)
    assume "reads_from (other_pipe p) (io_state a x) \<noteq> None"
    then obtain len where len: "reads_from (other_pipe p) (io_state a x) = Some len" by auto
    then obtain b' l' where "x = WaitForRead (other_pipe p) len b' l'"
      using reads_from_io reads_from_Some by blast
    with len mine v WaitForWrite show False by (simp add: peer_def)
  qed
  show ?thesis
    using WaitForWrite served
    by (auto simp: peer_a_io Let_def split: option.splits)
qed simp_all

end
