(* ===== verification/Message_Box.thy ===== *)
theory Message_Box
  imports Sched_Spec
begin

text \<open>
  \<open>process_message_box\<close> of src/lib.rs: the scheduler's part of the syscalls that yield. The
  refinement lemma \<open>wp_process_message\<close> says that carrying out a message has the effect its
  abstract counterpart \<open>a_message\<close> promises, and that every error leaves a scheduler that
  satisfies the invariant.
\<close>

section \<open>Operations\<close>

text \<open>\<open>machine.machine.set_register(A0, code as u64)\<close>.\<close>

definition finish :: "('m, 'c, 's, 'e, 'z, 'd) ckb_env \<Rightarrow> u8 \<Rightarrow> ('m, unit) prog" where
  "finish env code = modify (set_register env A0 (ucast code))"

text \<open>
  \<open>self.ensure_vms_instantiated(&[vm_id])?\<close> and then a block on
  \<open>self.instantiated.get_mut(&vm_id).unwrap()\<close>.
\<close>

definition reply :: "('m, 'c, 's, 'e, 'z, 'd) ckb_env \<Rightarrow> vm_id \<Rightarrow> ('m, unit) prog \<Rightarrow>
    (('m, 'c, 's, 'd) scheduler, unit) prog" where
  "reply env vm f = and_then (ensure_vms_instantiated env [vm]) (\<lambda>_. with_machine vm f)"

definition insert_state :: "vm_id \<Rightarrow> vm_state \<Rightarrow> (('m, 'c, 's, 'd) scheduler, unit) prog" where
  "insert_state vm st = modify (\<lambda>s. s\<lparr>states := bt_insert vm st (states s)\<rparr>)"

text \<open>\<open>self.pipes.contains_key(pipe) && (self.pipes[pipe] == vm_id)\<close>.\<close>

definition owns :: "('m, 'c, 's, 'd) scheduler \<Rightarrow> pipe_id \<Rightarrow> vm_id \<Rightarrow> bool" where
  "owns s p vm \<longleftrightarrow> hm_contains (pipes s) p \<and> hm_get (pipes s) p = Some vm"

definition check_owner :: "vm_id \<Rightarrow> pipe_id \<Rightarrow> (('m, 'c, 's, 'd) scheduler, unit) prog" where
  "check_owner vm p =
     and_then (gets (\<lambda>s. owns s p vm)) (\<lambda>mine.
     if \<not> mine then fail (Unexpected (NotPipeOwner vm (pipe_raw p))) else ret ())"

definition message_spawn :: "('m, 'c, 's, 'e, 'z, 'd) ckb_env \<Rightarrow> vm_id \<Rightarrow> spawn_args \<Rightarrow>
    (('m, 'c, 's, 'd) scheduler, unit) prog" where
  "message_spawn env vm args =
     and_then (for_each (check_owner vm) (sp_pipes args)) (\<lambda>_.
     and_then (boot_vm env (sp_data_piece_id args) (sp_offset args) (sp_length args) (sp_argv args))
       (\<lambda>spawned.
     and_then (for_each (\<lambda>p. modify (\<lambda>s. s\<lparr>pipes := hm_insert p spawned (pipes s)\<rparr>))
         (sp_pipes args)) (\<lambda>_.
     reply env vm
       (and_then (store64 env (sp_instance_id_addr args) spawned) (\<lambda>_. finish env SUCCESS)))))"

definition message_join :: "('m, 'c, 's, 'e, 'z, 'd) ckb_env \<Rightarrow> vm_id \<Rightarrow> join_args \<Rightarrow>
    (('m, 'c, 's, 'd) scheduler, unit) prog" where
  "message_join env vm args =
     and_then (gets (\<lambda>s. hm_get (terminated_vms s) (jn_target_id args))) (\<lambda>ended.
     case ended of
       Some code \<Rightarrow>
         and_then (reply env vm
           (and_then (store8 env (jn_exit_code_addr args) (from_i8 code)) (\<lambda>_. finish env SUCCESS)))
           (\<lambda>_. insert_state vm Runnable)
     | None \<Rightarrow>
         and_then (gets (\<lambda>s. bt_contains (states s) (jn_target_id args))) (\<lambda>known.
         if \<not> known then reply env vm (finish env JOIN_FAILURE)
         else insert_state vm (Join (jn_target_id args) (jn_exit_code_addr args))))"

definition message_pipe :: "('m, 'c, 's, 'e, 'z, 'd) ckb_env \<Rightarrow> vm_id \<Rightarrow> pipe_args \<Rightarrow>
    (('m, 'c, 's, 'd) scheduler, unit) prog" where
  "message_pipe env vm args =
     and_then (gets next_pipe_slot) (\<lambda>next_slot.
     and_then (pipe_create (overflow_checks env) next_slot) (\<lambda>(p1, p2, slot).
     and_then (modify (\<lambda>s. s\<lparr>next_pipe_slot := slot\<rparr>)) (\<lambda>_.
     and_then (modify (\<lambda>s. s\<lparr>pipes := hm_insert p1 vm (pipes s)\<rparr>)) (\<lambda>_.
     and_then (modify (\<lambda>s. s\<lparr>pipes := hm_insert p2 vm (pipes s)\<rparr>)) (\<lambda>_.
     reply env vm
       (and_then (store64 env (pa_pipe1_addr args) (pipe_raw p1)) (\<lambda>_.
        and_then (store64 env (pa_pipe2_addr args) (pipe_raw p2)) (\<lambda>_.
        finish env SUCCESS))))))))"

definition message_pipe_io :: "('m, 'c, 's, 'e, 'z, 'd) ckb_env \<Rightarrow> vm_id \<Rightarrow> pipe_io_args \<Rightarrow> vm_state \<Rightarrow>
    (('m, 'c, 's, 'd) scheduler, unit) prog" where
  "message_pipe_io env vm args waiting =
     and_then (gets (\<lambda>s. owns s (io_pipe args) vm)) (\<lambda>mine.
     if \<not> mine then reply env vm (finish env INVALID_PIPE)
     else
       and_then (gets (\<lambda>s. hm_contains (pipes s) (other_pipe (io_pipe args)))) (\<lambda>opened.
       if \<not> opened then reply env vm (finish env OTHER_END_CLOSED)
       else insert_state vm waiting))"

fun process_message :: "('m, 'c, 's, 'e, 'z, 'd) ckb_env \<Rightarrow> message \<Rightarrow>
    (('m, 'c, 's, 'd) scheduler, unit) prog" where
  "process_message env (MSpawn vm args) = message_spawn env vm args"
| "process_message env (MJoin vm args) = message_join env vm args"
| "process_message env (MPipe vm args) = message_pipe env vm args"
| "process_message env (MPipeRead vm args) = message_pipe_io env vm args
     (WaitForRead (io_pipe args) (io_length args) (io_buffer_addr args) (io_length_addr args))"
| "process_message env (MPipeWrite vm args) = message_pipe_io env vm args
     (WaitForWrite (io_pipe args) 0 (io_length args) (io_buffer_addr args) (io_length_addr args))"

definition process_message_box :: "('m, 'c, 's, 'e, 'z, 'd) ckb_env \<Rightarrow>
    (('m, 'c, 's, 'd) scheduler, unit) prog" where
  "process_message_box env =
     and_then (gets message_box) (\<lambda>messages.
     and_then (modify (\<lambda>s. s\<lparr>message_box := []\<rparr>)) (\<lambda>_.
     for_each (process_message env) messages))"

section \<open>The invariant of the scheduler\<close>

definition sched_ok :: "('m, 'c, 's, 'd) scheduler \<Rightarrow> bool" where
  "sched_ok s \<longleftrightarrow> table_ok s \<and> bt_wf (states s) \<and> hm_wf (pipes s) \<and> hm_wf (terminated_vms s)
     \<and> vms s = dom (bt_get (states s)) \<and> ainv (abs_of s)"

text \<open>What no message and no IO changes.\<close>

definition same_frame :: "('m, 'c, 's, 'd) scheduler \<Rightarrow> ('m, 'c, 's, 'd) scheduler \<Rightarrow> bool" where
  "same_frame s s' \<longleftrightarrow> sch_tx_data s' = sch_tx_data s \<and> total_cycles s' = total_cycles s
     \<and> message_box s' = message_box s"

lemma same_frame_refl [simp]: "same_frame s s"
  by (simp add: same_frame_def)

lemma same_frame_trans: "same_frame s t \<Longrightarrow> same_frame t u \<Longrightarrow> same_frame s u"
  by (simp add: same_frame_def)

lemma same_but_table_abs: "same_but_table s s' \<Longrightarrow> abs_of s' = abs_of s \<and> same_frame s s'"
  by (simp add: same_but_table_def abs_of_def same_frame_def)

lemma sched_ok_kept:
  assumes "sched_ok s" and "table_kept s s'"
  shows "sched_ok s'"
proof -
  have "abs_of s' = abs_of s" using assms(2) same_but_table_abs by blast
  then have "ainv (abs_of s')" using assms(1) by (simp add: sched_ok_def)
  with assms show ?thesis by (simp add: sched_ok_def same_but_table_def)
qed

text \<open>\<open>advanced a s s'\<close>: from \<open>s\<close>, the abstract effect is \<open>a\<close>.\<close>

definition advanced :: "asched \<Rightarrow> ('m, 'c, 's, 'd) scheduler \<Rightarrow> ('m, 'c, 's, 'd) scheduler \<Rightarrow> bool" where
  "advanced a s s' \<longleftrightarrow> sched_ok s' \<and> same_frame s s' \<and> abs_of s' = a"

text \<open>A failed operation: the invariant holds and exit codes are still those of dead VMs.\<close>

definition unharmed :: "('m, 'c, 's, 'd) scheduler \<Rightarrow> ('m, 'c, 's, 'd) scheduler \<Rightarrow> bool" where
  "unharmed s s' \<longleftrightarrow> sched_ok s' \<and> same_frame s s'
     \<and> (codes_ok (abs_of s) \<longrightarrow> codes_ok (abs_of s'))"

lemma advanced_after: "same_frame s s' \<Longrightarrow> advanced a s' t \<Longrightarrow> advanced a s t"
  by (auto simp: advanced_def intro: same_frame_trans)

lemma advanced_unharmed: "advanced (abs_of s) s s' \<Longrightarrow> unharmed s s'"
  by (simp add: advanced_def unharmed_def)

lemma unharmed_refl: "sched_ok s \<Longrightarrow> unharmed s s"
  by (simp add: unharmed_def)

lemma table_kept_advanced: "sched_ok s \<Longrightarrow> table_kept s s' \<Longrightarrow> advanced (abs_of s) s s'"
  by (simp add: advanced_def sched_ok_kept same_but_table_abs)

lemma wp_reply:
  assumes "panics_within env X" and "sched_ok s" and "vm \<in> dom (bt_get (states s))"
    and "panics_in X f"
  shows "wp (reply env vm f) (\<lambda>_. advanced (abs_of s) s) (\<lambda>_. advanced (abs_of s) s) X s"
  unfolding reply_def
  by (rule wp_mono [OF table.reply [where env = env]])
    (use assms in \<open>auto simp: sched_ok_def intro: table_kept_advanced\<close>)

lemma panics_in_finish:
  assumes "panics_within env X"
  shows "panics_in X (finish env code)" "panics_in X (and_then (store64 env addr x) (\<lambda>_. finish env code))"
    "panics_in X (and_then (store8 env addr y) (\<lambda>_. finish env code))"
    "panics_in X (and_then (store64 env addr x) (\<lambda>_. and_then (store64 env addr' x') (\<lambda>_. finish env code)))"
  unfolding finish_def by (intro panics_intros panics_withinD [OF assms])+

section \<open>Each message\<close>

lemma sched_ok_insert_state:
  assumes "sched_ok s" and "vm \<in> dom (bt_get (states s))" and "ainv (set_state vm st (abs_of s))"
  shows "advanced (set_state vm st (abs_of s)) s (s\<lparr>states := bt_insert vm st (states s)\<rparr>)"
proof -
  have "abs_of (s\<lparr>states := bt_insert vm st (states s)\<rparr>) = set_state vm st (abs_of s)"
    by (auto simp: abs_of_def set_state_def map_laws)
  with assms show ?thesis
    by (auto simp: advanced_def sched_ok_def same_frame_def btree.dom_upd insert_absorb)
qed

lemma wp_insert_state:
  assumes "sched_ok s" and "vm \<in> dom (bt_get (states s))" and "ainv (set_state vm st (abs_of s))"
  shows "wp (insert_state vm st) (\<lambda>_. advanced (set_state vm st (abs_of s)) s) E X s"
  unfolding insert_state_def wp_modify by (rule sched_ok_insert_state [OF assms])

lemma owns_iff: "owns s p vm \<longleftrightarrow> a_pipes (abs_of s) p = Some vm"
  by (auto simp: owns_def hm_contains_def)

lemma wp_check_owners:
  "wp (for_each (check_owner vm) ps)
     (\<lambda>_ s'. s' = s \<and> (\<forall>p \<in> set ps. a_pipes (abs_of s) p = Some vm)) (\<lambda>_ s'. s' = s) X s"
  by (induction ps) (auto simp: wp_simps check_owner_def owns_iff intro: wp_mono)


lemma wp_message_join:
  assumes "panics_within env X" and "sched_ok s" and "bt_get (states s) vm = Some Runnable"
  shows "wp (message_join env vm args)
    (\<lambda>_. advanced (a_message (MJoin vm args) (abs_of s)) s) (\<lambda>_. unharmed s) X s"
proof -
  let ?a = "abs_of s"
  have here: "vm \<in> dom (bt_get (states s))" using assms(3) by auto
  have inv: "ainv (a_message (MJoin vm args) ?a)"
    using assms by (intro ainv_message) (auto simp: sched_ok_def)
  note R = wp_reply [OF assms(1,2) here panics_in_finish(1) [OF assms(1)]]
    wp_reply [OF assms(1,2) here panics_in_finish(3) [OF assms(1)]]
  show ?thesis
  proof (cases "hm_get (terminated_vms s) (jn_target_id args)")
    case (Some code)
    then have a: "a_message (MJoin vm args) ?a = set_state vm Runnable ?a" by simp
    have "wp (insert_state vm Runnable) (\<lambda>_. advanced (set_state vm Runnable ?a) s) (\<lambda>_. unharmed s) X s'"
      if "advanced ?a s s'" for s'
    proof -
      have s': "sched_ok s'" "abs_of s' = ?a" "same_frame s s'" using that by (auto simp: advanced_def)
      then have "bt_get (states s') = bt_get (states s)" by (metis abs_of_sel(1))
      then have "vm \<in> dom (bt_get (states s'))" using here by simp
      from inv a s' have "ainv (set_state vm Runnable (abs_of s'))" by simp
      from wp_mono [OF wp_insert_state [OF s'(1) \<open>vm \<in> dom (bt_get (states s'))\<close> this]] s'
      show ?thesis by (metis advanced_after)
    qed
    with Some a show ?thesis
      unfolding message_join_def wp_first
      by (auto intro!: wp_seq [OF R(2)] advanced_unharmed)
  next
    case None
    then show ?thesis
      unfolding message_join_def wp_first
      using inv here assms(2) R(1) [of JOIN_FAILURE]
      by (auto simp: wp_first bt_contains_iff domIff elim!: wp_mono intro: advanced_unharmed
          intro!: wp_insert_state)
  qed
qed

lemma wp_message_pipe_io:
  assumes "panics_within env X" and "sched_ok s" and "bt_get (states s) vm = Some Runnable"
    and "usable (abs_of s) vm (io_pipe args) \<Longrightarrow> ainv (set_state vm st (abs_of s))"
  shows "wp (message_pipe_io env vm args st)
    (\<lambda>_. advanced (if usable (abs_of s) vm (io_pipe args) then set_state vm st (abs_of s)
        else abs_of s) s) (\<lambda>_. unharmed s) X s"
proof -
  have here: "vm \<in> dom (bt_get (states s))" using assms(3) by auto
  note R = wp_reply [OF assms(1,2) here panics_in_finish(1) [OF assms(1)]]
  show ?thesis
    unfolding message_pipe_io_def wp_first
    using R [of INVALID_PIPE] R [of OTHER_END_CLOSED] assms(2,4) here
    by (auto simp: wp_first owns_iff usable_def hm_contains_def elim!: wp_mono
        intro: advanced_unharmed intro!: wp_insert_state)
qed

lemma ainv_abs: "sched_ok s \<Longrightarrow> ainv (abs_of s)"
  by (simp add: sched_ok_def)

lemma sched_ok_frame_update:
  assumes "sched_ok s" and "ainv (abs_of (s\<lparr>next_pipe_slot := n, pipes := q\<rparr>))" and "hm_wf q"
  shows "sched_ok (s\<lparr>next_pipe_slot := n, pipes := q\<rparr>)"
  using assms by (simp add: sched_ok_def)

lemma wp_message_pipe:
  assumes "panics_within env X" and "overflow_checks env" and "sched_ok s"
    and "bt_get (states s) vm = Some Runnable"
  shows "wp (message_pipe env vm args)
    (\<lambda>_ s'. advanced (a_message (MPipe vm args) (abs_of s)) s s' \<and> enabled (abs_of s) (MPipe vm args))
    (\<lambda>_. unharmed s) X s"
proof -
  let ?n = "next_pipe_slot s"
  let ?q = "hm_insert (PipeId (?n + 1)) vm (hm_insert (PipeId ?n) vm (pipes s))"
  let ?t = "s\<lparr>next_pipe_slot := ?n + 2, pipes := ?q\<rparr>"
  have X: "X ArithOverflow" using assms(1) by (rule panics_withinD)
  have t: "advanced (a_message (MPipe vm args) (abs_of s)) s ?t" "unharmed s ?t"
    if "unat ?n + 2 < 2 ^ 64"
  proof -
    have a: "abs_of ?t = a_message (MPipe vm args) (abs_of s)"
      by (auto simp: abs_of_def give_pipes_def map_laws)
    have "ainv (a_message (MPipe vm args) (abs_of s))"
      using that assms(3,4) by (intro ainv_message) (auto simp: sched_ok_def)
    then have "sched_ok ?t"
      using a assms(3) by (intro sched_ok_frame_update) (auto simp: sched_ok_def)
    with a show "advanced (a_message (MPipe vm args) (abs_of s)) s ?t"
      by (simp add: advanced_def same_frame_def)
    moreover have "codes_ok (abs_of s) \<longrightarrow> codes_ok (a_message (MPipe vm args) (abs_of s))"
      using that assms(4) codes_message [of "abs_of s" "MPipe vm args"] by simp
    ultimately show "unharmed s ?t" using a by (simp add: unharmed_def advanced_def)
  qed
  have "wp (reply env vm (and_then (store64 env (pa_pipe1_addr args) ?n)
       (\<lambda>_. and_then (store64 env (pa_pipe2_addr args) (?n + 1)) (\<lambda>_. finish env SUCCESS))))
     (\<lambda>_ s'. advanced (a_message (MPipe vm args) (abs_of s)) s s') (\<lambda>_. unharmed s) X ?t"
    if m: "unat ?n + 2 < 2 ^ 64"
  proof (rule wp_mono [OF wp_reply [OF assms(1)]])
    show "sched_ok ?t" using t(2) [OF m] by (simp add: unharmed_def)
    show "vm \<in> dom (bt_get (states ?t))" using assms(4) by auto
    fix s' assume s': "advanced (abs_of ?t) ?t s'"
    then show a: "advanced (a_message (MPipe vm args) (abs_of s)) s s'"
      using t(1) [OF m] by (auto simp: advanced_def intro: same_frame_trans)
    then show "unharmed s s'"
      using t(2) [OF m] t(1) [OF m] by (simp add: unharmed_def advanced_def)
  qed (rule panics_in_finish(4) [OF assms(1)])
  note rep = this
  have one: "unat ?n + 1 < 2 ^ 64" if "unat ?n + 2 < 2 ^ 64" using that by simp
  show ?thesis
    unfolding message_pipe_def wp_first pipe_create_def and_then_assoc
    using assms(2) X rep one
    by (auto simp: wp_first and_then_assoc elim: wp_mono)
qed


text \<open>Spawning: a new VM, then the pipes it is given.\<close>

lemma boots_advanced:
  assumes "sched_ok s" and "live (abs_of s)" and "boots s vm s'"
  shows "advanced (a_boot (abs_of s)) s s'" and "unat (next_vm_id s) + 1 < 2 ^ 64"
    and "vm = next_vm_id s"
proof -
  have b: "states s' = bt_insert vm Runnable (states s)" "pipes s' = pipes s" "vm = next_vm_id s"
    "terminated_vms s' = terminated_vms s" "next_vm_id s' = vm + 1" "next_pipe_slot s' = next_pipe_slot s"
    using assms(3) by (auto simp: boots_def)
  then have "abs_of s' = a_boot (abs_of s)"
    by (auto simp: abs_of_def a_boot_def set_state_def map_laws)
  moreover show n: "unat (next_vm_id s) + 1 < 2 ^ 64" and "vm = next_vm_id s"
    using assms(3) by (auto simp: boots_def)
  moreover have "ainv (a_boot (abs_of s))"
    using assms(1,2) n by (intro ainv_boot) (auto simp: sched_ok_def)
  ultimately show "advanced (a_boot (abs_of s)) s s'"
    using assms(1,3) b
    by (auto simp: advanced_def sched_ok_def boots_def same_frame_def btree.dom_upd)
qed

lemma boot_fails_unharmed:
  assumes "sched_ok s" and "boot_fails s s'"
  shows "unharmed s s'"
proof -
  let ?n = "next_vm_id s'"
  have le: "next_vm_id s \<le> ?n"
    using assms(2) less_succ_u64 [of "next_vm_id s"] by (auto simp: boot_fails_def)
  have a: "abs_of s' = (abs_of s)\<lparr>a_next_vm := ?n\<rparr>"
    using assms(2) by (auto simp: boot_fails_def abs_of_def)
  have ok: "state_ok ((abs_of s)\<lparr>a_next_vm := ?n\<rparr>) v st = state_ok (abs_of s) v st" for v st
    by (cases st) auto
  have "ainv (abs_of s)" using assms(1) by (rule ainv_abs)
  then have "ainv (abs_of s')"
    unfolding a ainv_def ok using le
    by (auto simp: pipe_issued_def live_def intro: less_le_trans)
  moreover have "codes_ok (abs_of s) \<longrightarrow> codes_ok (abs_of s')"
    unfolding a codes_ok_def using le by (auto intro: less_le_trans)
  ultimately show ?thesis
    using assms(1,2) by (auto simp: unharmed_def sched_ok_def boot_fails_def same_frame_def)
qed

lemma for_each_give_pipes:
  "for_each (\<lambda>p. modify (\<lambda>s. s\<lparr>pipes := hm_insert p vm (pipes s)\<rparr>)) ps s =
     (Ok (), s\<lparr>pipes := fold (\<lambda>p. hm_insert p vm) ps (pipes s)\<rparr>)"
  by (induction ps arbitrary: s) (simp_all add: prog_defs)

lemma hm_fold_insert:
  "hm_wf m \<Longrightarrow> hm_wf (fold (\<lambda>p. hm_insert p vm) ps m)"
  "hm_get (fold (\<lambda>p. hm_insert p vm) ps m) p = (if p \<in> set ps then Some vm else hm_get m p)"
  by (induction ps arbitrary: m) (auto simp: map_laws)

lemma wp_message_spawn:
  assumes "panics_within env X" and "overflow_checks env" and "sched_ok s"
    and run: "bt_get (states s) vm = Some Runnable"
  shows "wp (message_spawn env vm args)
    (\<lambda>_ s'. advanced (a_message (MSpawn vm args) (abs_of s)) s s' \<and> enabled (abs_of s) (MSpawn vm args))
    (\<lambda>_. unharmed s) X s"
  unfolding message_spawn_def
proof (rule wp_seq [OF wp_check_owners], goal_cases)
  case (1 _ s0)
  then have mine: "\<forall>p \<in> set (sp_pipes args). a_pipes (abs_of s) p = Some vm" and s0: "s0 = s"
    by auto
  have live: "live (abs_of s)" by (rule live_alive [OF ainv_abs [OF assms(3)], of vm Runnable]) (simp_all add: run)
  have fresh: "next_vm_id s \<notin> vms s"
    using ainv_fresh [OF ainv_abs [OF assms(3)]] assms(3) by (auto simp: sched_ok_def)
  have tab: "table_ok s" using assms(3) by (simp add: sched_ok_def)
  let ?prog = "\<lambda>spawned. and_then (for_each (\<lambda>p. modify (\<lambda>s. s\<lparr>pipes := hm_insert p spawned (pipes s)\<rparr>))
         (sp_pipes args)) (\<lambda>_. reply env vm
       (and_then (store64 env (sp_instance_id_addr args) spawned) (\<lambda>_. finish env SUCCESS)))"
  let ?a = "a_message (MSpawn vm args) (abs_of s)"
  have tail: "wp (?prog child) (\<lambda>_ s'. advanced ?a s s' \<and> enabled (abs_of s) (MSpawn vm args))
      (\<lambda>_. unharmed s) X s1" if b: "boots s child s1" for child s1
  proof -
    note B = boots_advanced [OF assms(3) live b]
    let ?t = "s1\<lparr>pipes := fold (\<lambda>p. hm_insert p child) (sp_pipes args) (pipes s1)\<rparr>"
    have en: "enabled (abs_of s) (MSpawn vm args)" using B(2) mine by simp
    have inv: "ainv ?a" using assms(3) run en by (intro ainv_message) (auto simp: sched_ok_def)
    have codes: "codes_ok (abs_of s) \<Longrightarrow> codes_ok ?a"
      using run en by (intro codes_message) auto
    have "abs_of ?t = give_pipes (sp_pipes args) child (abs_of s1)"
      by (auto simp: abs_of_def give_pipes_def hm_fold_insert)
    then have a: "abs_of ?t = ?a" using B(1,3) by (simp add: advanced_def)
    have "sched_ok s1" using B(1) by (simp add: advanced_def)
    then have t: "sched_ok ?t" using inv a by (simp add: sched_ok_def hm_fold_insert)
    have fr: "same_frame s ?t" using B(1) by (simp add: advanced_def same_frame_def)
    have un: "unharmed s s'" if "advanced ?a s s'" for s'
      using that codes by (simp add: unharmed_def advanced_def)
    have "bt_get (states s1) = (bt_get (states s))(child \<mapsto> Runnable)"
      using b by (auto simp: boots_def map_laws)
    then have "vm \<in> dom (bt_get (states ?t))" using run by auto
    from wp_reply [OF assms(1) t this panics_in_finish(2) [OF assms(1)]]
    have "wp (reply env vm (and_then (store64 env (sp_instance_id_addr args) child) (\<lambda>_. finish env SUCCESS)))
       (\<lambda>_ s'. advanced ?a s s' \<and> enabled (abs_of s) (MSpawn vm args)) (\<lambda>_. unharmed s) X ?t"
      by (rule wp_mono) (use en un fr in \<open>auto simp: a intro: advanced_after\<close>)
    then show ?thesis by (simp add: wp_def and_then_def for_each_give_pipes)
  qed
  show ?case
    unfolding s0
    by (rule wp_seq [OF wp_boot_vm [OF assms(1) tab fresh]])
      (use tail assms(2) boot_fails_unharmed [OF assms(3)] in auto)
qed (use assms(3) in \<open>auto intro: unharmed_refl\<close>)

section \<open>The whole box\<close>

lemma wp_process_message:
  assumes "panics_within env X" and "overflow_checks env" and "sched_ok s"
    and "bt_get (states s) (message_from msg) = Some Runnable" and "message_ok tx msg"
  shows "wp (process_message env msg)
    (\<lambda>_ s'. advanced (a_message msg (abs_of s)) s s' \<and> enabled (abs_of s) msg)
    (\<lambda>_. unharmed s) X s"
proof -
  note run = assms(4) and inv = ainv_abs [OF assms(3)]
  have waits: "usable (abs_of s) vm p \<Longrightarrow> is_read p \<Longrightarrow> ainv (set_state vm (WaitForRead p len b l) (abs_of s))"
    "usable (abs_of s) vm p \<Longrightarrow> is_write p \<Longrightarrow> ainv (set_state vm (WaitForWrite p 0 len b l) (abs_of s))"
    if "message_from msg = vm" for vm p len b l
    using that run live_alive [OF inv, of vm Runnable]
    by (auto intro!: ainv_set_state inv simp: usable_def)
  show ?thesis
  proof (cases msg)
    case (MSpawn vm args)
    then show ?thesis using wp_message_spawn [OF assms(1-3), of vm args] run by simp
  next
    case (MJoin vm args)
    then show ?thesis using wp_message_join [OF assms(1,3), of vm args] run by simp
  next
    case (MPipe vm args)
    then show ?thesis using wp_message_pipe [OF assms(1-3), of vm args] run by simp
  next
    case (MPipeRead vm args)
    then show ?thesis
      using wp_message_pipe_io [OF assms(1,3), of vm args] run assms(5) waits(1) by simp
  next
    case (MPipeWrite vm args)
    then show ?thesis
      using wp_message_pipe_io [OF assms(1,3), of vm args] run assms(5) waits(2) by simp
  qed
qed

definition empty_box :: "('m, 'c, 's, 'd) scheduler \<Rightarrow> ('m, 'c, 's, 'd) scheduler" where
  "empty_box s = s\<lparr>message_box := []\<rparr>"

lemma empty_box_simps [simp]:
  "abs_of (empty_box s) = abs_of s" "sched_ok (empty_box s) = sched_ok s"
  "message_box (empty_box s) = []" "states (empty_box s) = states s"
  by (simp_all add: empty_box_def abs_of_def sched_ok_def)

text \<open>The box holds at most the message of the VM that has just run.\<close>

lemma wp_process_message_box:
  assumes "panics_within env X" and "overflow_checks env" and "sched_ok s"
    and "message_box s = [msg] \<Longrightarrow> bt_get (states s) (message_from msg) = Some Runnable \<and> message_ok tx msg"
    and "message_box s = [] \<or> message_box s = [msg]"
  shows "wp (process_message_box env)
    (\<lambda>_ s'. if message_box s = [] then s' = s
       else advanced (a_message msg (abs_of s)) (empty_box s) s' \<and> enabled (abs_of s) msg)
    (\<lambda>_. unharmed (empty_box s)) X s"
proof (cases "message_box s = []")
  case True
  then have "s\<lparr>message_box := []\<rparr> = s" by simp
  with True show ?thesis by (simp add: process_message_box_def wp_simps)
next
  case False
  then have m: "message_box s = [msg]" using assms(5) by simp
  have "wp (process_message env msg)
    (\<lambda>_ s'. advanced (a_message msg (abs_of s)) (empty_box s) s' \<and> enabled (abs_of s) msg)
    (\<lambda>_. unharmed (empty_box s)) X (empty_box s)"
    using wp_process_message [OF assms(1,2), of "empty_box s" msg tx] assms(3,4) m by simp
  with m show ?thesis
    by (simp add: process_message_box_def wp_first empty_box_def and_then_ret)
qed

end
