(* ===== verification/Pipe_Io.thy ===== *)
theory Pipe_Io
  imports Message_Box
begin

text \<open>
  \<open>process_io\<close> of src/lib.rs: matching reads with writes, copying the data and finishing the
  syscalls of VMs whose peer is gone. The refinement lemma \<open>wp_process_io\<close> says that the new
  VM states are the function \<open>a_io\<close> of the old states and the pipe owners: they do not depend
  on the order the pairs are served in, nor on which machines were instantiated.

  The branch for closed pipes accesses \<open>instantiated\<close> without instantiating the VM first. The
  refinement needs \<open>closed_ready\<close> to exclude a panic there, and
  \<open>closed_pipe_of_suspended_vm\<close> shows that without it \<open>process_io\<close> cannot succeed.
\<close>

section \<open>Operations\<close>

fun collect_read :: "(pipe_id, vm_id) hashmap \<Rightarrow> vm_id \<times> vm_state \<Rightarrow>
    (pipe_id, vm_id \<times> vm_state) hashmap \<times> vm_id list \<Rightarrow>
    (pipe_id, vm_id \<times> vm_state) hashmap \<times> vm_id list" where
  "collect_read owner (vm, WaitForRead p len b l) (reads, closed) =
     (if hm_contains owner (other_pipe p)
      then (hm_insert p (vm, WaitForRead p len b l) reads, closed)
      else (reads, closed @ [vm]))"
| "collect_read owner (vm, st) acc = acc"

fun collect_write :: "(pipe_id, vm_id) hashmap \<Rightarrow> (pipe_id, vm_id \<times> vm_state) hashmap \<Rightarrow>
    vm_id \<times> vm_state \<Rightarrow>
    ((vm_id \<times> vm_state) \<times> vm_id \<times> vm_state) list \<times> vm_id list \<Rightarrow>
    ((vm_id \<times> vm_state) \<times> vm_id \<times> vm_state) list \<times> vm_id list" where
  "collect_write owner reads (vm, WaitForWrite p c n b l) (pairs, closed) =
     (if hm_contains owner (other_pipe p)
      then (case hm_get reads (other_pipe p) of
          Some reader \<Rightarrow> (pairs @ [(reader, (vm, WaitForWrite p c n b l))], closed)
        | None \<Rightarrow> (pairs, closed))
      else (pairs, closed @ [vm]))"
| "collect_write owner reads (vm, st) acc = acc"

definition finish_closed :: "('m, 'c, 's, 'e, 'z, 'd) ckb_env \<Rightarrow> vm_id \<Rightarrow>
    (('m, 'c, 's, 'd) scheduler, unit) prog" where
  "finish_closed env vm =
     and_then (gets (\<lambda>s. bt_get (states s) vm)) (\<lambda>found.
     and_then (unwrap MissingKey found) (\<lambda>st.
     case st of
       WaitForRead _ _ _ length_addr \<Rightarrow>
         and_then (with_machine vm
           (and_then (store64 env length_addr 0) (\<lambda>_. finish env SUCCESS))) (\<lambda>_.
         insert_state vm Runnable)
     | WaitForWrite _ consumed _ _ length_addr \<Rightarrow>
         and_then (with_machine vm
           (and_then (store64 env length_addr consumed) (\<lambda>_. finish env SUCCESS))) (\<lambda>_.
         insert_state vm Runnable)
     | _ \<Rightarrow> ret ()))"

fun transfer :: "('m, 'c, 's, 'e, 'z, 'd) ckb_env \<Rightarrow> (vm_id \<times> vm_state) \<times> vm_id \<times> vm_state \<Rightarrow>
    (('m, 'c, 's, 'd) scheduler, unit) prog" where
  "transfer env ((read_vm, WaitForRead _ read_length read_buffer_addr read_length_addr),
       (write_vm, WaitForWrite p consumed write_length write_buffer_addr write_length_addr)) =
     and_then (ensure_vms_instantiated env [read_vm, write_vm]) (\<lambda>_.
     and_then (sub_u64 (overflow_checks env) write_length consumed) (\<lambda>consumable.
     let copiable = min read_length consumable in
     and_then (with_machine write_vm
       (load_bytes env (write_buffer_addr + consumed) copiable)) (\<lambda>data.
     and_then (with_machine read_vm (store_bytes env read_buffer_addr data)) (\<lambda>_.
     and_then (with_machine read_vm
       (and_then (store64 env read_length_addr copiable) (\<lambda>_. finish env SUCCESS))) (\<lambda>_.
     and_then (insert_state read_vm Runnable) (\<lambda>_.
     and_then (add_u64 (overflow_checks env) consumed copiable) (\<lambda>consumed'.
     if consumed' = write_length
     then
       and_then (with_machine write_vm
         (and_then (store64 env write_length_addr write_length) (\<lambda>_. finish env SUCCESS))) (\<lambda>_.
       insert_state write_vm Runnable)
     else
       insert_state write_vm
         (WaitForWrite p consumed' write_length write_buffer_addr write_length_addr))))))))"
| "transfer env _ = panic Unreachable"

definition process_io :: "('m, 'c, 's, 'e, 'z, 'd) ckb_env \<Rightarrow>
    (('m, 'c, 's, 'd) scheduler, unit) prog" where
  "process_io env =
     and_then (gets (\<lambda>s. fold (collect_read (pipes s)) (states s) ([], [])))
       (\<lambda>(reads, closed_reads).
     and_then (gets (\<lambda>s. fold (collect_write (pipes s) reads) (states s) ([], closed_reads)))
       (\<lambda>(pairs, closed_pipes).
     and_then (for_each (finish_closed env) closed_pipes) (\<lambda>_.
     for_each (transfer env) pairs)))"

section \<open>What is collected\<close>

fun pipe_of :: "vm_state \<Rightarrow> pipe_id option" where
  "pipe_of (WaitForRead p _ _ _) = Some p"
| "pipe_of (WaitForWrite p _ _ _ _) = Some p"
| "pipe_of _ = None"

text \<open>VM \<open>v\<close> waits on a pipe whose other end is closed.\<close>

definition waits_closed :: "asched \<Rightarrow> vm_id \<Rightarrow> bool" where
  "waits_closed a v \<longleftrightarrow> (\<exists>st p. a_states a v = Some st \<and> pipe_of st = Some p
     \<and> a_pipes a (other_pipe p) = None)"

text \<open>Reader \<open>r\<close> and writer \<open>w\<close> wait for each other.\<close>

definition io_pair :: "asched \<Rightarrow> (vm_id \<times> vm_state) \<times> vm_id \<times> vm_state \<Rightarrow> bool" where
  "io_pair a x \<longleftrightarrow> (\<exists>r w p len b l q c n b' l'.
     x = ((r, WaitForRead p len b l), (w, WaitForWrite q c n b' l')) \<and> q = other_pipe p
     \<and> a_states a r = Some (WaitForRead p len b l)
     \<and> a_states a w = Some (WaitForWrite q c n b' l'))"

definition pair_vms :: "(vm_id \<times> vm_state) \<times> vm_id \<times> vm_state \<Rightarrow> vm_id set" where
  "pair_vms x = {fst (fst x), fst (snd x)}"

lemma set_states: "bt_wf (states s) \<Longrightarrow> (v, st) \<in> set (states s) \<longleftrightarrow> bt_get (states s) v = Some st"
  by (rule btree.lookup_entries)

text \<open>The reads found in a list of states.\<close>

lemma collect_read_closed:
  "snd (fold (collect_read owner) xs (reads, closed)) = closed @ map fst (filter
     (\<lambda>(v, st). case st of WaitForRead p _ _ _ \<Rightarrow> \<not> hm_contains owner (other_pipe p) | _ \<Rightarrow> False) xs)"
proof (induction xs arbitrary: reads closed)
  case (Cons x xs)
  then show ?case by (cases x; cases "snd x") auto
qed simp

definition reads_of :: "(pipe_id, vm_id) hashmap \<Rightarrow> vm_id \<times> vm_state \<Rightarrow>
    (pipe_id \<times> vm_id \<times> vm_state) list" where
  "reads_of owner x = (case snd x of
     WaitForRead p _ _ _ \<Rightarrow> if hm_contains owner (other_pipe p) then [(p, x)] else []
   | _ \<Rightarrow> [])"

lemma collect_read_reads:
  "fst (fold (collect_read owner) xs (reads, closed)) =
     fold (\<lambda>(k, v). hm_insert k v) (concat (map (reads_of owner) xs)) reads"
proof (induction xs arbitrary: reads closed)
  case (Cons x xs)
  then show ?case by (cases x; cases "snd x") (auto simp: reads_of_def)
qed simp

lemma collected_reads:
  "hm_get (fst (fold (collect_read owner) xs ([], closed))) p =
     map_of (rev (concat (map (reads_of owner) xs))) p"
  by (simp add: collect_read_reads hash.lookup_collect map_laws split: option.splits)

lemma collect_write_closed:
  "snd (fold (collect_write owner reads) xs (pairs, closed)) = closed @ map fst (filter
     (\<lambda>(v, st). case st of WaitForWrite p _ _ _ _ \<Rightarrow> \<not> hm_contains owner (other_pipe p) | _ \<Rightarrow> False) xs)"
proof (induction xs arbitrary: pairs closed)
  case (Cons x xs)
  then show ?case by (cases x; cases "snd x") (auto split: option.splits)
qed simp

definition pairs_of :: "(pipe_id, vm_id) hashmap \<Rightarrow> (pipe_id, vm_id \<times> vm_state) hashmap \<Rightarrow>
    vm_id \<times> vm_state \<Rightarrow> ((vm_id \<times> vm_state) \<times> vm_id \<times> vm_state) list" where
  "pairs_of owner reads x = (case snd x of
     WaitForWrite p _ _ _ _ \<Rightarrow>
       (if hm_contains owner (other_pipe p)
        then (case hm_get reads (other_pipe p) of Some reader \<Rightarrow> [(reader, x)] | None \<Rightarrow> [])
        else [])
   | _ \<Rightarrow> [])"

lemma collect_write_pairs:
  "fst (fold (collect_write owner reads) xs (pairs, closed)) = pairs @ concat (map (pairs_of owner reads) xs)"
proof (induction xs arbitrary: pairs closed)
  case (Cons x xs)
  then show ?case by (cases x; cases "snd x") (auto simp: pairs_of_def split: option.splits)
qed simp


lemma pairs_of_cases:
  "pairs_of owner reads x = [] \<or> (\<exists>p c n b l rd. pairs_of owner reads x = [(rd, x)]
     \<and> snd x = WaitForWrite p c n b l \<and> hm_get reads (other_pipe p) = Some rd)"
  by (cases "snd x") (auto simp: pairs_of_def split: option.splits)

lemma collect_pairs_distinct: "distinct xs \<Longrightarrow> distinct (concat (map (pairs_of owner reads) xs))"
proof (induction xs)
  case (Cons x xs)
  have snd: "snd y = z" if "y \<in> set (pairs_of owner reads z)" for y z
    using that pairs_of_cases [of owner reads z] by auto
  have "distinct (pairs_of owner reads x)" using pairs_of_cases [of owner reads x] by auto
  moreover have "y \<notin> set (concat (map (pairs_of owner reads) xs))"
    if y: "y \<in> set (pairs_of owner reads x)" for y
  proof
    assume "y \<in> set (concat (map (pairs_of owner reads) xs))"
    then obtain z where "z \<in> set xs" "y \<in> set (pairs_of owner reads z)" by auto
    then have "z = x" using snd [of y x] snd [of y z] y by simp
    with \<open>z \<in> set xs\<close> Cons.prems show False by simp
  qed
  ultimately show ?case using Cons by auto
qed simp

text \<open>The two passes over the states, as sets.\<close>

lemma waiting_owner:
  "ainv a \<Longrightarrow> a_states a v = Some st \<Longrightarrow> pipe_of st = Some p \<Longrightarrow> a_pipes a p = Some v"
  using ainv_state [of a v st] by (cases st) auto

lemma io_pairD:
  assumes "ainv a" and "io_pair a ((r, rst), (w, wst))"
  obtains p len b l c n b' l' where "rst = WaitForRead p len b l"
    and "wst = WaitForWrite (other_pipe p) c n b' l'" and "r \<noteq> w"
    and "a_states a r = Some rst" and "a_states a w = Some wst"
    and "a_pipes a p = Some r" and "a_pipes a (other_pipe p) = Some w"
proof -
  obtain p len b l c n b' l' where x: "rst = WaitForRead p len b l"
      "wst = WaitForWrite (other_pipe p) c n b' l'"
      "a_states a r = Some rst" "a_states a w = Some wst"
    using assms(2) by (auto simp: io_pair_def)
  then have "a_pipes a p = Some r" "a_pipes a (other_pipe p) = Some w"
    using waiting_owner [OF assms(1)] by fastforce+
  then show thesis using x that by (metis option.inject vm_state.distinct(19))
qed

lemma reads_iff:
  assumes "sched_ok s" and "hm_contains (pipes s) (other_pipe p)"
  shows "hm_get (fst (fold (collect_read (pipes s)) (states s) ([], []))) p = Some x \<longleftrightarrow>
    (\<exists>r len b l. x = (r, WaitForRead p len b l) \<and> a_states (abs_of s) r = Some (WaitForRead p len b l))"
  (is "?got = Some x \<longleftrightarrow> ?R x")
proof -
  have wf: "bt_wf (states s)" and inv: "ainv (abs_of s)" using assms(1) by (auto simp: sched_ok_def)
  let ?kvs = "concat (map (reads_of (pipes s)) (states s))"
  have kvs: "(p, y) \<in> set ?kvs \<longleftrightarrow> ?R y" for y
    using assms(2) set_states [OF wf]
    by (cases y) (fastforce simp: reads_of_def split: vm_state.splits if_splits)
  have got: "?got = map_of (rev ?kvs) p" by (rule collected_reads)
  have fwd: "?R y" if "?got = Some y" for y
    using that kvs [of y] map_of_SomeD [of "rev ?kvs" p y] unfolding got by auto
  moreover have "?got = Some x" if R: "?R x"
  proof -
    have "(p, x) \<in> set (rev ?kvs)" using kvs [of x] R by simp
    then have "?got \<noteq> None" unfolding got by (metis option.distinct(1) weak_map_of_SomeI)
    then obtain y where y: "?got = Some y" by auto
    from fwd [OF y] R show ?thesis
      using y waiting_owner [OF inv] by (metis option.inject pipe_of.simps(1) vm_state.inject(3))
  qed
  ultimately show ?thesis by blast
qed

lemma pairs_iff:
  assumes "sched_ok s"
  shows "x \<in> set (concat (map (pairs_of (pipes s) (fst (fold (collect_read (pipes s)) (states s) ([], []))))
      (states s))) \<longleftrightarrow> io_pair (abs_of s) x"
  (is "x \<in> set (concat (map (pairs_of _ ?reads) _)) \<longleftrightarrow> _")
proof -
  have wf: "bt_wf (states s)" and inv: "ainv (abs_of s)" using assms by (auto simp: sched_ok_def)
  have opened: "hm_contains (pipes s) p" if "a_states (abs_of s) v = Some st" "pipe_of st = Some p" for v st p
    using waiting_owner [OF inv that] by (simp add: hm_contains_def)
  show ?thesis
  proof
    assume "x \<in> set (concat (map (pairs_of (pipes s) ?reads) (states s)))"
    then obtain w wst where w: "bt_get (states s) w = Some wst" "x \<in> set (pairs_of (pipes s) ?reads (w, wst))"
      using set_states [OF wf] by auto
    then obtain p c n b l rd where p: "wst = WaitForWrite p c n b l" "x = (rd, (w, wst))"
        "hm_get ?reads (other_pipe p) = Some rd"
      using pairs_of_cases [of "pipes s" ?reads "(w, wst)"] by auto
    have "hm_contains (pipes s) p" using opened [of w wst p] w(1) p(1) by simp
    with p reads_iff [OF assms, of "other_pipe p" rd] w(1) show "io_pair (abs_of s) x"
      by (auto simp: io_pair_def)
  next
    assume "io_pair (abs_of s) x"
    then obtain r w p len b l c n b' l' where x: "x = ((r, WaitForRead p len b l), (w, WaitForWrite (other_pipe p) c n b' l'))"
        and r: "a_states (abs_of s) r = Some (WaitForRead p len b l)"
        and w: "a_states (abs_of s) w = Some (WaitForWrite (other_pipe p) c n b' l')"
      by (auto simp: io_pair_def)
    have o: "hm_contains (pipes s) p" "hm_contains (pipes s) (other_pipe p)"
      using opened [OF r] opened [OF w] by auto
    then have "hm_get ?reads p = Some (r, WaitForRead p len b l)"
      using reads_iff [OF assms o(2)] r by auto
    then have "x \<in> set (pairs_of (pipes s) ?reads (w, WaitForWrite (other_pipe p) c n b' l'))"
      using o x by (simp add: pairs_of_def)
    then show "x \<in> set (concat (map (pairs_of (pipes s) ?reads) (states s)))"
      using w set_states [OF wf] by force
  qed
qed

definition closed_list :: "('m, 'c, 's, 'd) scheduler \<Rightarrow> vm_id list" where
  "closed_list s = snd (fold (collect_write (pipes s)
      (fst (fold (collect_read (pipes s)) (states s) ([], [])))) (states s)
      ([], snd (fold (collect_read (pipes s)) (states s) ([], []))))"

definition pair_list :: "('m, 'c, 's, 'd) scheduler \<Rightarrow> ((vm_id \<times> vm_state) \<times> vm_id \<times> vm_state) list" where
  "pair_list s = fst (fold (collect_write (pipes s)
      (fst (fold (collect_read (pipes s)) (states s) ([], [])))) (states s)
      ([], snd (fold (collect_read (pipes s)) (states s) ([], []))))"

lemma process_io_loops:
  "process_io env s = and_then (for_each (finish_closed env) (closed_list s))
     (\<lambda>_. for_each (transfer env) (pair_list s)) s"
  by (simp add: process_io_def and_then_value closed_list_def pair_list_def split: prod.splits)

lemma set_pair_list: "sched_ok s \<Longrightarrow> x \<in> set (pair_list s) \<longleftrightarrow> io_pair (abs_of s) x"
  using pairs_iff by (simp add: pair_list_def collect_write_pairs)

lemma distinct_pair_list: "sched_ok s \<Longrightarrow> distinct (pair_list s)"
  by (simp add: pair_list_def collect_write_pairs collect_pairs_distinct sched_ok_def bt_wf_def
      bt_keys_def distinct_map)

lemma set_closed_list:
  assumes "sched_ok s"
  shows "set (closed_list s) = {v. waits_closed (abs_of s) v}"
proof -
  have wf: "bt_wf (states s)" using assms by (simp add: sched_ok_def)
  show ?thesis
    unfolding closed_list_def collect_write_closed collect_read_closed waits_closed_def
    using set_states [OF wf]
    by (auto simp: hm_contains_def image_iff split: vm_state.splits)
qed

lemma distinct_closed_list:
  assumes "sched_ok s"
  shows "distinct (closed_list s)"
proof -
  have d: "distinct (map fst (states s))" using assms by (simp add: sched_ok_def bt_wf_def bt_keys_def)
  have "fst x \<noteq> fst y" if "x \<in> set (states s)" "y \<in> set (states s)" "x \<noteq> y" for x y
    using d that by (auto simp: distinct_map inj_on_def)
  then show ?thesis
    unfolding closed_list_def collect_write_closed collect_read_closed
    using d by (auto simp: distinct_map_fst_filter) (metis (no_types, lifting) fst_conv prod.inject
        vm_state.case(2,4,5) vm_state.exhaust vm_state.simps)
qed


section \<open>The loops, VM by VM\<close>

text \<open>\<open>part_io D a\<close>: the VMs in \<open>D\<close> already have their new state.\<close>

definition part_io :: "vm_id set \<Rightarrow> asched \<Rightarrow> asched" where
  "part_io D a = a\<lparr>a_states := (\<lambda>v. if v \<in> D then map_option (io_state a) (a_states a v) else a_states a v)\<rparr>"

lemma part_io_sel [simp]:
  "a_states (part_io D a) v = (if v \<in> D then map_option (io_state a) (a_states a v) else a_states a v)"
  "a_pipes (part_io D a) = a_pipes a" "a_terminated (part_io D a) = a_terminated a"
  "a_next_vm (part_io D a) = a_next_vm a" "a_next_slot (part_io D a) = a_next_slot a"
  by (simp_all add: part_io_def)

lemma part_io_empty [simp]: "part_io {} a = a"
  by (simp add: part_io_def)

lemma part_io_insert:
  "a_states a v = Some st \<Longrightarrow> set_state v (io_state a st) (part_io D a) = part_io (insert v D) a"
  by (auto simp: part_io_def set_state_def fun_eq_iff)

lemma part_io_all:
  assumes "\<And>v st. a_states a v = Some st \<Longrightarrow> v \<notin> D \<Longrightarrow> io_state a st = st"
  shows "part_io D a = a_io a"
proof -
  have "a_states (part_io D a) v = a_states (a_io a) v" for v
    using assms [of v] by (cases "a_states a v") auto
  then show ?thesis by (auto simp: part_io_def a_io_def)
qed

lemma ainv_part_io:
  assumes "ainv a"
  shows "ainv (part_io D a)"
proof -
  have live: "live (part_io D a) = live a" by (auto simp: live_def io_state_Terminated)
  have same: "state_ok (part_io D a) v st = state_ok (a_io a) v st" for v st
    by (cases st) (auto simp: dom_def)
  have keep: "state_ok (a_io a) v st = state_ok a v st" for v st
    by (cases st) (auto simp: dom_def)
  have "state_ok (part_io D a) v st" if "a_states (part_io D a) v = Some st" for v st
    using that ainv_state [OF assms, of v] ainv_state [OF ainv_io [OF assms], of v]
    unfolding same keep by (auto split: if_splits)
  moreover have "(\<exists>y. (if v \<in> D then map_option (io_state a) (a_states a v) else a_states a v) = Some y)
      \<longleftrightarrow> (\<exists>y. a_states a v = Some y)" for v
    by auto
  ultimately show ?thesis
    unfolding ainv_def live using assms ainv_state [OF assms] ainv_pipe [OF assms]
    by (auto simp: pipe_issued_def ainv_def split: if_splits)
qed

lemma codes_part_io: "codes_ok a \<Longrightarrow> codes_ok (part_io D a)"
  by (auto simp: codes_ok_def)

definition reached :: "('m, 'c, 's, 'd) scheduler \<Rightarrow> vm_id set \<Rightarrow> ('m, 'c, 's, 'd) scheduler \<Rightarrow> bool" where
  "reached s D s' \<longleftrightarrow> advanced (part_io D (abs_of s)) s s'"

lemma reached_start: "sched_ok s \<Longrightarrow> reached s {} s"
  by (simp add: reached_def advanced_def)

lemma reached_unharmed: "reached s D s' \<Longrightarrow> unharmed s s'"
  by (auto simp: reached_def advanced_def unharmed_def codes_part_io)

lemma reached_kept: "reached s D s1 \<Longrightarrow> table_kept s1 s2 \<Longrightarrow> reached s D s2"
  unfolding reached_def
  by (metis advanced_after advanced_def table_kept_advanced)

lemma reached_ok: "reached s D s1 \<Longrightarrow> sched_ok s1"
  by (simp add: reached_def advanced_def)

lemma reached_state:
  "reached s D s1 \<Longrightarrow> v \<notin> D \<Longrightarrow> bt_get (states s1) v = bt_get (states s) v"
  unfolding reached_def advanced_def by (metis abs_of_sel(1) part_io_sel(1))

lemma wp_reached_insert:
  assumes "ainv (abs_of s)" and "reached s D s1" and "a_states (abs_of s) v = Some st"
  shows "wp (insert_state v (io_state (abs_of s) st)) (\<lambda>_. reached s (insert v D)) E X s1"
proof -
  have s1: "sched_ok s1" "abs_of s1 = part_io D (abs_of s)" "same_frame s s1"
    using assms(2) by (auto simp: reached_def advanced_def)
  have "a_states (abs_of s1) v \<noteq> None" using s1(2) assms(3) by simp
  then have "v \<in> dom (bt_get (states s1))" by auto
  moreover have "ainv (set_state v (io_state (abs_of s) st) (abs_of s1))"
    unfolding s1(2) part_io_insert [OF assms(3)] by (rule ainv_part_io [OF assms(1)])
  ultimately show ?thesis
    by (rule wp_mono [OF wp_insert_state [OF s1(1)]])
      (use s1 part_io_insert [OF assms(3)] in \<open>auto simp: reached_def intro: advanced_after\<close>)
qed

definition closed_ready :: "('m, 'c, 's, 'd) scheduler \<Rightarrow> bool" where
  "closed_ready s \<longleftrightarrow> (\<forall>v. waits_closed (abs_of s) v \<longrightarrow> v \<in> insts s)"

text \<open>An update of one machine, in a scheduler that has come this far.\<close>

lemma wp_reached_machine:
  assumes "reached s D s1" and "v \<in> insts s1" and "panics_in X f"
  shows "wp (with_machine v f) (\<lambda>_ s'. reached s D s' \<and> insts s' = insts s1) (\<lambda>_. reached s D) X s1"
  using reached_ok [OF assms(1)] reached_kept [OF assms(1)]
  by (intro wp_mono [OF wp_with_machine [OF _ assms(2,3)]]) (auto simp: sched_ok_def)

lemma wp_finish_closed:
  assumes "panics_within env X" and "sched_ok s" and "waits_closed (abs_of s) v"
    and "reached s D s1" and "v \<notin> D" and "insts s1 = insts s" and "v \<in> insts s \<or> X UnwrapNone"
  shows "wp (finish_closed env v) (\<lambda>_ s'. reached s (insert v D) s' \<and> insts s' = insts s)
    (\<lambda>_. unharmed s) X s1"
proof -
  note inv = ainv_abs [OF assms(2)]
  obtain st p where st: "a_states (abs_of s) v = Some st" "pipe_of st = Some p"
      "a_pipes (abs_of s) (other_pipe p) = None"
    using assms(3) by (auto simp: waits_closed_def)
  have io: "io_state (abs_of s) st = Runnable" using st(2,3) by (cases st) auto
  have now: "bt_get (states s1) v = Some st" using reached_state [OF assms(4,5)] st(1) by simp
  have answer: "wp (and_then (with_machine v (and_then (store64 env addr x) (\<lambda>_. finish env SUCCESS)))
      (\<lambda>_. insert_state v Runnable)) (\<lambda>_ s'. reached s (insert v D) s' \<and> insts s' = insts s)
      (\<lambda>_. unharmed s) X s1" for addr x
  proof (cases "v \<in> insts s")
    case True
    show ?thesis
    proof (rule wp_seq [OF wp_reached_machine [OF assms(4) _ panics_in_finish(2) [OF assms(1)]]])
      fix s2 assume s2: "reached s D s2 \<and> insts s2 = insts s1"
      have "wp (insert_state v Runnable) (\<lambda>_. reached s (insert v D)) (\<lambda>_. unharmed s) X s2"
        using wp_reached_insert [OF inv _ st(1)] s2 io by auto
      with s2 assms(6) show "wp (insert_state v Runnable)
          (\<lambda>_ s'. reached s (insert v D) s' \<and> insts s' = insts s) (\<lambda>_. unharmed s) X s2"
        by (simp add: insert_state_def wp_simps)
    qed (use True assms(6) reached_unharmed in auto)
  next
    case False
    then have "bt_get (instantiated s1) v = None" using assms(6) by (auto simp: insts_def)
    with False assms(7) show ?thesis
      by (simp add: wp_def and_then_def with_machine_def with_vm_missing)
  qed
  show ?thesis
    using answer now st(2) unfolding finish_closed_def wp_first
    by (cases st) (simp_all add: unwrap_def wp_first)
qed


text \<open>One pair: after it, both VMs have their new state.\<close>

lemma io_pair_states:
  assumes "ainv a" and "a_states a r = Some (WaitForRead p len b l)"
    and "a_states a w = Some (WaitForWrite (other_pipe p) c n b' l')"
  shows "io_state a (WaitForRead p len b l) = Runnable"
    and "io_state a (WaitForWrite (other_pipe p) c n b' l') =
      written len (WaitForWrite (other_pipe p) c n b' l')"
    and "c \<le> n"
proof -
  have "a_pipes a p = Some r" "a_pipes a (other_pipe p) = Some w"
    using waiting_owner [OF assms(1,2)] waiting_owner [OF assms(1,3)] by auto
  then show "io_state a (WaitForRead p len b l) = Runnable"
    "io_state a (WaitForWrite (other_pipe p) c n b' l') =
      written len (WaitForWrite (other_pipe p) c n b' l')"
    using assms(2,3) by (simp_all add: peer_def)
  show "c \<le> n" using ainv_state [OF assms(1,3)] by simp
qed

lemma add_min_fits: "(c :: u64) \<le> n \<Longrightarrow> unat c + unat (min len (n - c)) < 2 ^ 64"
  using unat_bound_u64 [of n] by (auto simp: min_def word_le_nat_alt unat_sub)

text \<open>The last part of a transfer: what becomes of the writer.\<close>

lemma wp_writer_done:
  assumes "panics_within env X" and inv: "ainv (abs_of s)" and s3: "reached s D s3" "w \<in> insts s3" and "w \<notin> D"
    and w: "a_states (abs_of s) w = Some (WaitForWrite q c n b' l')"
    and io: "io_state (abs_of s) (WaitForWrite q c n b' l') = written len (WaitForWrite q c n b' l')"
  shows "wp (if c + min len (n - c) = n
      then and_then (with_machine w (and_then (store64 env l' n) (\<lambda>_. finish env SUCCESS)))
        (\<lambda>_. insert_state w Runnable)
      else insert_state w (WaitForWrite q (c + min len (n - c)) n b' l'))
      (\<lambda>_. reached s (insert w D)) (\<lambda>_. unharmed s) X s3"
proof -
  have ins: "wp (insert_state w (written len (WaitForWrite q c n b' l')))
      (\<lambda>_. reached s (insert w D)) (\<lambda>_. unharmed s) X s4" if "reached s D s4" for s4
    using wp_reached_insert [OF inv that w] io by metis
  show ?thesis
  proof (cases "c + min len (n - c) = n")
    case True
    have "wp (and_then (with_machine w (and_then (store64 env l' n) (\<lambda>_. finish env SUCCESS)))
        (\<lambda>_. insert_state w Runnable)) (\<lambda>_. reached s (insert w D)) (\<lambda>_. unharmed s) X s3"
      by (rule wp_seq [OF wp_reached_machine [OF s3 panics_in_finish(2) [OF assms(1)]]])
        (use ins True reached_unharmed in \<open>auto simp: Let_def\<close>)
    with True show ?thesis by simp
  next
    case False
    then show ?thesis using ins [OF s3(1)] by (simp add: Let_def)
  qed
qed

lemma wp_transfer:
  assumes "panics_within env X" and "sched_ok s" and "io_pair (abs_of s) x"
    and "reached s D s1" and "pair_vms x \<inter> D = {}"
  shows "wp (transfer env x) (\<lambda>_. reached s (D \<union> pair_vms x)) (\<lambda>_. unharmed s) X s1"
proof -
  note inv = ainv_abs [OF assms(2)]
  obtain r w p len b l c n b' l' where x: "x = ((r, WaitForRead p len b l), (w, WaitForWrite (other_pipe p) c n b' l'))"
      and r: "a_states (abs_of s) r = Some (WaitForRead p len b l)"
      and w: "a_states (abs_of s) w = Some (WaitForWrite (other_pipe p) c n b' l')"
    using assms(3) by (auto simp: io_pair_def)
  note io = io_pair_states [OF inv r w]
  let ?copy = "min len (n - c)" and ?E = "\<lambda>_. unharmed s"
  have rw: "r \<noteq> w" using r w by auto
  have vs: "insert w (insert r D) = D \<union> pair_vms x" "w \<notin> insert r D"
    using x rw assms(5) by (auto simp: pair_vms_def)
  have s1: "table_ok s1" "vms s1 = dom (bt_get (states s1))"
    using reached_ok [OF assms(4)] by (auto simp: sched_ok_def)
  have dom: "r \<in> dom (bt_get (states s1))" "w \<in> dom (bt_get (states s1))"
    using assms(5) x r w reached_state [OF assms(4)] by (auto simp: pair_vms_def)
  have second: "wp (and_then (insert_state r Runnable) (\<lambda>_.
      if c + ?copy = n
      then and_then (with_machine w (and_then (store64 env l' n) (\<lambda>_. finish env SUCCESS)))
        (\<lambda>_. insert_state w Runnable)
      else insert_state w (WaitForWrite (other_pipe p) (c + ?copy) n b' l')))
      (\<lambda>_. reached s (D \<union> pair_vms x)) ?E X s2"
    if s2: "reached s D s2" "w \<in> insts s2" for s2
  proof (rule wp_seq)
    show "wp (insert_state r Runnable) (\<lambda>_ s3. reached s (insert r D) s3 \<and> w \<in> insts s3) ?E X s2"
      using wp_reached_insert [OF inv s2(1) r] s2(2) io(1) by (simp add: insert_state_def wp_simps)
  qed (use wp_writer_done [OF assms(1) inv _ _ vs(2) w io(2)] vs(1) in auto)
  have first: "wp (and_then (ensure_vms_instantiated env [r, w]) (\<lambda>_.
      and_then (with_machine w (load_bytes env (b' + c) ?copy)) (\<lambda>data.
      and_then (with_machine r (store_bytes env b data)) (\<lambda>_.
      with_machine r (and_then (store64 env l ?copy) (\<lambda>_. finish env SUCCESS))))))
    (\<lambda>_ s2. reached s D s2 \<and> w \<in> insts s2) ?E X s1"
    by (rule wp_mono [OF table.exchange [OF _ _ _ rw panics_withinD(8) [OF assms(1)]
          panics_withinD(9) [OF assms(1)] panics_in_finish(2) [OF assms(1)], of env]])
      (use assms(1) s1 dom reached_kept [OF assms(4)] reached_unharmed [OF reached_kept [OF assms(4)]] in auto)
  have "and_then (and_then (ensure_vms_instantiated env [r, w]) (\<lambda>_.
      and_then (with_machine w (load_bytes env (b' + c) ?copy)) (\<lambda>data.
      and_then (with_machine r (store_bytes env b data)) (\<lambda>_.
      with_machine r (and_then (store64 env l ?copy) (\<lambda>_. finish env SUCCESS))))))
     (\<lambda>_. and_then (insert_state r Runnable) (\<lambda>_.
      if c + ?copy = n
      then and_then (with_machine w (and_then (store64 env l' n) (\<lambda>_. finish env SUCCESS)))
        (\<lambda>_. insert_state w Runnable)
      else insert_state w (WaitForWrite (other_pipe p) (c + ?copy) n b' l'))) = transfer env x"
    using io(3) add_min_fits [OF io(3)]
    by (simp add: x and_then_assoc sub_u64_ok add_u64_ok and_then_ret_left Let_def)
  with wp_seq [OF first, of _ _ ?E] second show ?thesis by metis
qed

section \<open>The refinement\<close>

lemma io_pairs_disjoint:
  assumes "ainv a" and "io_pair a x" and "io_pair a y" and "x \<noteq> y"
  shows "pair_vms x \<inter> pair_vms y = {}"
proof -
  obtain r rst w wst where x: "x = ((r, rst), (w, wst))" by (metis surj_pair)
  obtain r' rst' w' wst' where y: "y = ((r', rst'), (w', wst'))" by (metis surj_pair)
  obtain p len b l c n bb ll where X: "rst = WaitForRead p len b l"
      "wst = WaitForWrite (other_pipe p) c n bb ll" "a_states a r = Some rst" "a_states a w = Some wst"
      "a_pipes a p = Some r" "a_pipes a (other_pipe p) = Some w"
    using io_pairD [OF assms(1) assms(2) [unfolded x]] by metis
  obtain p' len' b' l' c' n' bb' ll' where Y: "rst' = WaitForRead p' len' b' l'"
      "wst' = WaitForWrite (other_pipe p') c' n' bb' ll'" "a_states a r' = Some rst'" "a_states a w' = Some wst'"
      "a_pipes a p' = Some r'" "a_pipes a (other_pipe p') = Some w'"
    using io_pairD [OF assms(1) assms(3) [unfolded y]] by metis
  have "r \<noteq> r'" using X Y x y assms(4) by auto
  moreover have "w \<noteq> w'" using X Y x y assms(4) by (auto simp: other_pipe_eq_iff)
  moreover have "r \<noteq> w'" "w \<noteq> r'" using X Y by auto
  ultimately show ?thesis by (auto simp: x y pair_vms_def)
qed

lemma closed_not_paired:
  assumes "ainv a" and "waits_closed a v" and "io_pair a x"
  shows "v \<notin> pair_vms x"
proof -
  obtain r rst w wst where x: "x = ((r, rst), (w, wst))" by (metis surj_pair)
  show ?thesis
    by (rule io_pairD [OF assms(1) assms(3) [unfolded x]])
      (use assms(2) in \<open>auto simp: x pair_vms_def waits_closed_def\<close>)
qed

text \<open>A VM that is in neither list keeps its state.\<close>

lemma io_state_idle:
  assumes "ainv a" and v: "a_states a v = Some st" and "\<not> waits_closed a v"
    and "\<And>x. io_pair a x \<Longrightarrow> v \<notin> pair_vms x"
  shows "io_state a st = st"
proof (cases st)
  case (WaitForRead p len b l)
  have "\<not> writes_to (other_pipe p) y" if peer: "peer a p = Some y" for y
  proof
    assume "writes_to (other_pipe p) y"
    then obtain w c n b' l' where "a_states a w = Some (WaitForWrite (other_pipe p) c n b' l')"
      using peer by (auto simp: peer_def writes_to_iff split: option.splits)
    then have "io_pair a ((v, st), (w, WaitForWrite (other_pipe p) c n b' l'))"
      using v WaitForRead by (simp add: io_pair_def)
    with assms(4) show False by (force simp: pair_vms_def)
  qed
  then show ?thesis using assms(2,3) WaitForRead by (auto simp: waits_closed_def split: option.splits)
next
  case (WaitForWrite p c n b l)
  have "reads_from (other_pipe p) y = None" if peer: "peer a p = Some y" for y
  proof (rule ccontr)
    assume "reads_from (other_pipe p) y \<noteq> None"
    then obtain r len b' l' where "a_states a r = Some (WaitForRead (other_pipe p) len b' l')"
      using peer by (auto simp: peer_def reads_from_Some split: option.splits)
    then have "io_pair a ((r, WaitForRead (other_pipe p) len b' l'), (v, st))"
      using v WaitForWrite by (simp add: io_pair_def)
    with assms(4) show False by (force simp: pair_vms_def)
  qed
  then show ?thesis using assms(2,3) WaitForWrite
    by (auto simp: waits_closed_def simp del: written.simps split: option.splits)
qed simp_all

lemma wp_process_io:
  assumes "panics_within env X" and "sched_ok s" and "closed_ready s \<or> X UnwrapNone"
  shows "wp (process_io env) (\<lambda>_. advanced (a_io (abs_of s)) s) (\<lambda>_. unharmed s) X s"
proof -
  note inv = ainv_abs [OF assms(2)]
  let ?closed = "{v. waits_closed (abs_of s) v}"
  let ?paired = "\<Union> (pair_vms ` set (pair_list s))"
  have closed: "wp (for_each (finish_closed env) (closed_list s))
      (\<lambda>_ s'. reached s ({} \<union> \<Union> ((\<lambda>v. {v}) ` set (closed_list s))) s' \<and> insts s' = insts s) (\<lambda>_. unharmed s) X s"
    by (rule wp_for_each_parts)
      (use assms set_closed_list [OF assms(2)] distinct_closed_list [OF assms(2)] in
        \<open>auto simp: closed_ready_def intro!: wp_finish_closed reached_start\<close>)
  have pairs: "wp (for_each (transfer env) (pair_list s)) (\<lambda>_. reached s (?closed \<union> ?paired))
      (\<lambda>_. unharmed s) X s1" if "reached s ?closed s1" for s1
    by (rule wp_for_each_parts)
      (use that assms set_pair_list [OF assms(2)] distinct_pair_list [OF assms(2)]
        io_pairs_disjoint [OF inv] closed_not_paired [OF inv] in \<open>auto intro!: wp_transfer\<close>)
  have "part_io (?closed \<union> ?paired) (abs_of s) = a_io (abs_of s)"
    by (rule part_io_all, rule io_state_idle [OF inv]) (auto simp: set_pair_list [OF assms(2)])
  then have "wp (and_then (for_each (finish_closed env) (closed_list s))
      (\<lambda>_. for_each (transfer env) (pair_list s))) (\<lambda>_. advanced (a_io (abs_of s)) s) (\<lambda>_. unharmed s) X s"
    using pairs set_closed_list [OF assms(2)] unfolding reached_def
    by (intro wp_seq [OF closed [unfolded reached_def]]) auto
  then show ?thesis by (simp add: wp_def process_io_loops)
qed

end
