(* ===== verification/Scheduler.thy ===== *)
theory Scheduler
  imports Pipe_Io
begin

text \<open>
  The rest of src/lib.rs: creating, suspending and resuming a scheduler, one iteration of its
  loop, and \<open>run\<close>. \<open>iterate_step\<close> is the main result: a successful iteration is one step
  of the abstract specification, total cycles included, and a failed one leaves a scheduler
  that still satisfies the invariant.
\<close>

section \<open>Creating, suspending and resuming\<close>

definition sched_new :: "'d tx_data \<Rightarrow> ('m, 'c, 's, 'd) scheduler" where
  "sched_new tx = \<lparr>sch_tx_data = tx, total_cycles = 0, next_vm_id = FIRST_VM_ID,
     next_pipe_slot = FIRST_PIPE_SLOT, states = [], pipes = [], instantiated = [],
     suspended = [], terminated_vms = [], message_box = []\<rparr>"

definition consumed_cycles :: "('m, 'c, 's, 'd) scheduler \<Rightarrow> u64" where
  "consumed_cycles s = total_cycles s"

definition sched_resume ::
    "'d tx_data \<Rightarrow> 's full_suspended_state \<Rightarrow> ('m, 'c, 's, 'd) scheduler" where
  "sched_resume tx full = \<lparr>sch_tx_data = tx, total_cycles = fs_total_cycles full,
     next_vm_id = fs_next_vm_id full, next_pipe_slot = fs_next_pipe_slot full,
     states = bt_collect (map (\<lambda>(vm, st, _). (vm, st)) (fs_vms full)),
     pipes = hm_collect (fs_pipes full), instantiated = [],
     suspended = hm_collect (map (\<lambda>(vm, _, snapshot). (vm, snapshot)) (fs_vms full)),
     terminated_vms = hm_collect (fs_terminated_vms full), message_box = []\<rparr>"

fun take_snapshots :: "(vm_id \<times> vm_state) list \<Rightarrow> (vm_id \<times> vm_state \<times> 's) list \<Rightarrow>
    (('m, 'c, 's, 'd) scheduler, (vm_id \<times> vm_state \<times> 's) list) prog" where
  "take_snapshots [] out = ret out"
| "take_snapshots ((vm, st) # rest) out =
     and_then (gets (\<lambda>s. hm_get (suspended s) vm)) (\<lambda>found.
     and_then (unwrap UnwrapNone found) (\<lambda>snapshot.
     and_then (modify (\<lambda>s. s\<lparr>suspended := hm_remove vm (suspended s)\<rparr>)) (\<lambda>_.
     take_snapshots rest (out @ [(vm, st, snapshot)]))))"

definition sched_suspend :: "('m, 'c, 's, 'e, 'z, 'd) ckb_env \<Rightarrow>
    (('m, 'c, 's, 'd) scheduler, 's full_suspended_state) prog" where
  "sched_suspend env =
     and_then (gets (\<lambda>s. bt_keys (instantiated s))) (\<lambda>instantiated_ids.
     and_then (for_each (suspend_vm env) instantiated_ids) (\<lambda>_.
     and_then (gets states) (\<lambda>all.
     and_then (take_snapshots all []) (\<lambda>out.
     gets (\<lambda>s. \<lparr>fs_total_cycles = total_cycles s, fs_next_vm_id = next_vm_id s,
       fs_next_pipe_slot = next_pipe_slot s, fs_vms = out, fs_pipes = pipes s,
       fs_terminated_vms = terminated_vms s\<rparr>)))))"

section \<open>One iteration\<close>

text \<open>The first entry of the states in reverse order that is \<open>Runnable\<close>.\<close>

definition vm_to_run :: "(vm_id, vm_state) btree \<Rightarrow> vm_id option" where
  "vm_to_run sts = (case filter (\<lambda>(_, st). st = Runnable) (rev sts) of
     [] \<Rightarrow> None | (vm, _) # _ \<Rightarrow> Some vm)"

text \<open>
  The block on \<open>instantiated.get_mut(&vm).unwrap()\<close>: set up the machine, run it with the
  syscalls of \<open>ecall\<close> on its context and the message box, and take its cycles.
\<close>

definition run_machine :: "('m, 'c, 's, 'e, 'z, 'd) ckb_env \<Rightarrow> 'z \<Rightarrow> u64 \<Rightarrow> vm_id \<Rightarrow>
    (('m, 'c, 's, 'd) scheduler, i8 res \<times> u64) prog" where
  "run_machine env pause limit_cycles vm s = (case bt_get (instantiated s) vm of
     None \<Rightarrow> (Panic UnwrapNone, s)
   | Some (ctx, m) \<Rightarrow>
       (case asm_run env (ecall env)
            \<lparr>vc_machine = set_pause env pause (set_max_cycles env limit_cycles m),
             vc_context = ctx\<lparr>mc_base_cycles := total_cycles s\<rparr>, vc_box = message_box s\<rparr> of
          (result, v) \<Rightarrow>
            let s' = s\<lparr>instantiated :=
                  bt_insert vm (vc_context v, set_cycles env 0 (vc_machine v)) (instantiated s),
                message_box := vc_box v\<rparr>
            in case result of
                 Panic k \<Rightarrow> (Panic k, s')
               | _ \<Rightarrow> (Ok (result, get_cycles env (vc_machine v)), s')))"

definition run_vm :: "('m, 'c, 's, 'e, 'z, 'd) ckb_env \<Rightarrow> 'z \<Rightarrow> u64 \<Rightarrow> vm_id \<Rightarrow>
    (('m, 'c, 's, 'd) scheduler, i8 res \<times> u64) prog" where
  "run_vm env pause limit_cycles vm =
     and_then (ensure_vms_instantiated env [vm]) (\<lambda>_.
     and_then (run_machine env pause limit_cycles vm) (\<lambda>(result, consumed).
     and_then (gets total_cycles) (\<lambda>total.
     and_then (ok_or CyclesOverflow (checked_add total consumed)) (\<lambda>total'.
     and_then (modify (\<lambda>s. s\<lparr>total_cycles := total'\<rparr>)) (\<lambda>_.
     ret (result, consumed))))))"

definition joiners_of :: "vm_id \<Rightarrow> (vm_id, vm_state) btree \<Rightarrow> (vm_id \<times> u64) list" where
  "joiners_of vm sts = concat (map (\<lambda>(v, st). case st of
     Join target addr \<Rightarrow> if target = vm then [(v, addr)] else [] | _ \<Rightarrow> []) sts)"

definition wake :: "('m, 'c, 's, 'e, 'z, 'd) ckb_env \<Rightarrow> i8 \<Rightarrow> vm_id \<times> u64 \<Rightarrow>
    (('m, 'c, 's, 'd) scheduler, unit) prog" where
  "wake env code j =
     and_then (reply env (fst j)
       (and_then (store8 env (snd j) (from_i8 code)) (\<lambda>_. finish env SUCCESS))) (\<lambda>_.
     insert_state (fst j) Runnable)"

definition purge_others :: "vm_id \<Rightarrow> (('m, 'c, 's, 'd) scheduler, unit) prog" where
  "purge_others vm = modify (\<lambda>s. s\<lparr>
     instantiated := bt_retain (\<lambda>v _. v = vm) (instantiated s),
     suspended := [],
     states := bt_insert vm Terminated []\<rparr>)"

definition purge :: "vm_id \<Rightarrow> (('m, 'c, 's, 'd) scheduler, unit) prog" where
  "purge vm = modify (\<lambda>s. s\<lparr>
     pipes := hm_retain (\<lambda>_ owner. owner \<noteq> vm) (pipes s),
     states := bt_remove vm (states s),
     instantiated := bt_remove vm (instantiated s),
     suspended := hm_remove vm (suspended s)\<rparr>)"

definition vm_exited :: "('m, 'c, 's, 'e, 'z, 'd) ckb_env \<Rightarrow> vm_id \<Rightarrow> i8 \<Rightarrow>
    (('m, 'c, 's, 'd) scheduler, unit) prog" where
  "vm_exited env vm code =
     and_then (modify (\<lambda>s. s\<lparr>terminated_vms := hm_insert vm code (terminated_vms s)\<rparr>)) (\<lambda>_.
     if vm = ROOT_VM_ID
     then and_then (ensure_vms_instantiated env [vm]) (\<lambda>_. purge_others vm)
     else
       and_then (gets (\<lambda>s. joiners_of vm (states s))) (\<lambda>joining.
       and_then (for_each (wake env code) joining) (\<lambda>_.
       purge vm)))"

definition iterate :: "('m, 'c, 's, 'e, 'z, 'd) ckb_env \<Rightarrow> 'z \<Rightarrow> u64 \<Rightarrow>
    (('m, 'c, 's, 'd) scheduler, u64) prog" where
  "iterate env pause limit_cycles =
     and_then (process_io env) (\<lambda>_.
     and_then (gets (\<lambda>s. vm_to_run (states s))) (\<lambda>found.
     case found of
       None \<Rightarrow> fail (Unexpected Deadlock)
     | Some vm \<Rightarrow>
         and_then (run_vm env pause limit_cycles vm) (\<lambda>(result, consumed).
         and_then (process_message_box env) (\<lambda>_.
         and_then (gets message_box) (\<lambda>box.
         and_then (assert (box = [])) (\<lambda>_.
         case result of
           Ok code \<Rightarrow> and_then (vm_exited env vm code) (\<lambda>_. ret consumed)
         | Err e \<Rightarrow> if e = YIELD then ret consumed else fail e
         | Panic k \<Rightarrow> panic k))))))"

section \<open>Running to the end\<close>

text \<open>
  The \<open>while\<close> loop of \<open>run\<close>. It need not end, so the result is optional: \<open>None\<close> is a loop
  that does not return.
\<close>

partial_function (option) run_loop :: "('m, 'c, 's, 'e, 'z, 'd) ckb_env \<Rightarrow> 'z \<Rightarrow> u64 \<Rightarrow>
    ('m, 'c, 's, 'd) scheduler \<Rightarrow> (unit res \<times> ('m, 'c, 's, 'd) scheduler) option" where
  "run_loop env pause limit_cycles s =
     (case bt_get (states s) ROOT_VM_ID of
        None \<Rightarrow> Some (Panic MissingKey, s)
      | Some st \<Rightarrow>
          if st = Terminated then Some (Ok (), s)
          else
            (case iterate env pause limit_cycles s of
               (Ok consumed, s') \<Rightarrow>
                 (case checked_sub consumed consumed of
                    None \<Rightarrow> Some (Err CyclesExceeded, s')
                  | Some limit' \<Rightarrow> run_loop env pause limit' s')
             | (Err e, s') \<Rightarrow> Some (Err e, s')
             | (Panic k, s') \<Rightarrow> Some (Panic k, s')))"

definition run_start :: "('m, 'c, 's, 'e, 'z, 'd) ckb_env \<Rightarrow>
    (('m, 'c, 's, 'd) scheduler, unit) prog" where
  "run_start env =
     and_then (gets (\<lambda>s. states s = [])) (\<lambda>fresh.
     and_then (if fresh
       then and_then (boot_vm env Program 0 u64_max []) (\<lambda>vm. assert (vm = ROOT_VM_ID))
       else ret ()) (\<lambda>_.
     and_then (gets (\<lambda>s. bt_contains (states s) ROOT_VM_ID)) (\<lambda>there.
     assert there)))"

definition run_result :: "('m, 'c, 's, 'e, 'z, 'd) ckb_env \<Rightarrow>
    (('m, 'c, 's, 'd) scheduler, i8 \<times> u64) prog" where
  "run_result env =
     and_then (gets (\<lambda>s. bt_get (instantiated s) ROOT_VM_ID)) (\<lambda>found.
     and_then (unwrap MissingKey found) (\<lambda>(_, m).
     gets (\<lambda>s. (exit_code env m, total_cycles s))))"

definition run_limits :: "('m, 'c, 's, 'e, 'z, 'd) ckb_env \<Rightarrow> 'z run_mode \<Rightarrow> 'z \<times> u64" where
  "run_limits env mode = (case mode of
     LimitCycles limit_cycles \<Rightarrow> (pause_new env, limit_cycles)
   | PauseMode pause \<Rightarrow> (pause, u64_max))"

definition run :: "('m, 'c, 's, 'e, 'z, 'd) ckb_env \<Rightarrow> 'z run_mode \<Rightarrow>
    ('m, 'c, 's, 'd) scheduler \<Rightarrow> ((i8 \<times> u64) res \<times> ('m, 'c, 's, 'd) scheduler) option" where
  "run env mode s = (case run_start env s of
     (Err e, s1) \<Rightarrow> Some (Err e, s1)
   | (Panic k, s1) \<Rightarrow> Some (Panic k, s1)
   | (Ok _, s1) \<Rightarrow>
       (case run_limits env mode of (pause, limit_cycles) \<Rightarrow>
        (case run_loop env pause limit_cycles s1 of
           None \<Rightarrow> None
         | Some (Err e, s2) \<Rightarrow> Some (Err e, s2)
         | Some (Panic k, s2) \<Rightarrow> Some (Panic k, s2)
         | Some (Ok _, s2) \<Rightarrow> Some (run_result env s2))))"

section \<open>Which VM runs\<close>

lemma vm_to_run_picks:
  assumes "bt_wf (states s)"
  shows "vm_to_run (states s) = Some vm \<longleftrightarrow> picks (abs_of s) vm"
    and "vm_to_run (states s) = None \<longleftrightarrow> (\<forall>v. bt_get (states s) v \<noteq> Some Runnable)"
proof -
  let ?run = "filter (\<lambda>(_, st). st = Runnable) (states s)"
  have rev: "filter (\<lambda>(_, st). st = Runnable) (rev (states s)) = rev ?run" by (simp add: rev_filter)
  have mem: "(v, st) \<in> set ?run \<longleftrightarrow> st = Runnable \<and> bt_get (states s) v = Some Runnable" for v st
    using set_states [OF assms] by auto
  have none: "vm_to_run (states s) = None \<longleftrightarrow> ?run = []"
    unfolding vm_to_run_def rev by (auto split: list.splits)
  show "vm_to_run (states s) = None \<longleftrightarrow> (\<forall>v. bt_get (states s) v \<noteq> Some Runnable)"
    unfolding none using mem by (metis empty_iff list.set(1) set_empty subset_antisym subsetI surj_pair)
  have sorted: "sorted (map fst ?run)"
    using assms sorted_map_fst_filter by (auto simp: bt_wf_def bt_keys_def)
  have last: "picks (abs_of s) v" if "vm_to_run (states s) = Some v" for v
  proof -
    from that obtain st ys where "rev ?run = (v, st) # ys"
      unfolding vm_to_run_def rev by (auto split: list.splits)
    then have "?run = rev ys @ [(v, st)]" by (metis rev.simps(2) rev_rev_ident)
    then obtain xs where r: "?run = xs @ [(v, Runnable)]" using mem [of v st] by auto
    have "w \<le> v" if "bt_get (states s) w = Some Runnable" for w
      using that mem [of w Runnable] sorted r by (auto simp: sorted_append)
    moreover have "bt_get (states s) v = Some Runnable" using mem [of v Runnable] r by simp
    ultimately show ?thesis by (simp add: picks_def)
  qed
  show "vm_to_run (states s) = Some vm \<longleftrightarrow> picks (abs_of s) vm"
  proof
    assume p: "picks (abs_of s) vm"
    then have "bt_get (states s) vm = Some Runnable" by (simp add: picks_def)
    then have "vm_to_run (states s) \<noteq> None"
      using \<open>vm_to_run (states s) = None \<longleftrightarrow> (\<forall>v. bt_get (states s) v \<noteq> Some Runnable)\<close> by blast
    with last p show "vm_to_run (states s) = Some vm" using picks_unique by fastforce
  qed (rule last)
qed


section \<open>Running one machine\<close>

definition ran :: "vm_id \<Rightarrow> ('m, 'c, 's, 'd) scheduler \<Rightarrow> i8 res \<Rightarrow> ('m, 'c, 's, 'd) scheduler \<Rightarrow> bool" where
  "ran vm s result s' \<longleftrightarrow> sched_ok s' \<and> abs_of s' = abs_of s \<and> sch_tx_data s' = sch_tx_data s
     \<and> (\<forall>k. result \<noteq> Panic k)
     \<and> (if result = Err YIELD
        then \<exists>msg tx. message_box s' = [msg] \<and> message_from msg = vm \<and> message_ok (tx :: 'd tx_data) msg
        else message_box s' = [])"

lemma sched_ok_ran:
  assumes "sched_ok s" and "vm \<in> insts s" and "mc_id ctx = vm"
  shows "sched_ok (s\<lparr>instantiated := bt_insert vm (ctx, m) (instantiated s), message_box := box\<rparr>)"
    and "abs_of (s\<lparr>instantiated := bt_insert vm (ctx, m) (instantiated s), message_box := box\<rparr>) = abs_of s"
  using assms by (auto simp: sched_ok_def table_ok_def vms_def abs_of_def insert_absorb)

lemma wp_run_machine:
  assumes "panics_within env X" and "asm_run_contract env" and "no_foreign_yield env"
    and "sched_ok s" and "vm \<in> insts s" and "message_box s = []"
  shows "wp (run_machine env pause limit_cycles vm)
    (\<lambda>(result, _) s'. ran vm s result s' \<and> total_cycles s' = total_cycles s) E X s"
proof -
  obtain ctx m where g: "bt_get (instantiated s) vm = Some (ctx, m)"
    using assms(5) by (auto simp: insts_def)
  have vm: "mc_id ctx = vm"
    using assms(4) g inst_wf_get by (auto simp: sched_ok_def table_ok_def)
  let ?v = "\<lparr>vc_machine = set_pause env pause (set_max_cycles env limit_cycles m),
    vc_context = ctx\<lparr>mc_base_cycles := total_cycles s\<rparr>, vc_box = message_box s\<rparr>"
  obtain result v where r: "asm_run env (ecall env) ?v = (result, v)" by fastforce
  show ?thesis
  proof (cases result)
    case (Panic k)
    have "panics_in X (asm_run env (ecall env))"
      by (rule panics_withinD(18) [OF assms(1) panics_in_ecall [OF assms(1)]])
    then have "X k" using r Panic unfolding panics_in_def by (metis fst_conv)
    then show ?thesis using g r Panic by (simp add: wp_def run_machine_def Let_def)
  next
    case (Ok code)
    then have o: "\<forall>k. result \<noteq> Panic k" by simp
    from run_posts [OF assms(2,3) r o, unfolded one_message_def] assms(6) vm Ok
    have v: "mc_id (vc_context v) = vm" "vc_box v = []" by simp_all
    show ?thesis
      using g r Ok sched_ok_ran [OF assms(4,5) v(1)] v(2)
      by (simp add: wp_def run_machine_def Let_def ran_def)
  next
    case (Err e)
    then have o: "\<forall>k. result \<noteq> Panic k" by simp
    from run_posts [OF assms(2,3) r o, unfolded one_message_def] assms(6) vm
    have v: "mc_id (vc_context v) = vm" and box: "if result = Err YIELD
        then \<exists>msg. vc_box v = [msg] \<and> message_from msg = vm \<and> (\<exists>tx :: 'f tx_data. message_ok tx msg)
        else vc_box v = []"
      by (auto split: if_splits)
    show ?thesis
      using g r Err sched_ok_ran [OF assms(4,5) v] box
      by (auto simp: wp_def run_machine_def Let_def ran_def)
  qed
qed

lemma checked_add_Some:
  "checked_add a b = Some c \<longleftrightarrow> unat a + unat b < 2 ^ 64 \<and> c = a + b"
  by (auto simp: checked_add_def)

lemma sched_ok_total [simp]:
  "sched_ok (s\<lparr>total_cycles := n\<rparr>) = sched_ok s" "abs_of (s\<lparr>total_cycles := n\<rparr>) = abs_of s"
  by (simp_all add: sched_ok_def abs_of_def)

lemma wp_run_vm:
  assumes "panics_within env X" and "asm_run_contract env" and "no_foreign_yield env"
    and "sched_ok s" and "vm \<in> dom (bt_get (states s))" and "message_box s = []"
  shows "wp (run_vm env pause limit_cycles vm)
    (\<lambda>(result, consumed) s'. ran vm s result s'
       \<and> unat (total_cycles s) + unat consumed < 2 ^ 64 \<and> total_cycles s' = total_cycles s + consumed)
    (\<lambda>_ s'. sched_ok s' \<and> abs_of s' = abs_of s) X s"
  unfolding run_vm_def
proof (rule wp_seq [OF table.ensure [where env = env]])
  have tab: "table_ok s" "vms s = dom (bt_get (states s))" using assms(4) by (auto simp: sched_ok_def)
  then show "panics_within env X \<and> table_ok s" "set [vm] \<subseteq> vms s" using assms(1,5) by auto
  show "length [vm] \<le> MAX_INSTANTIATED_VMS" "distinct [vm]" by (simp_all add: MAX_INSTANTIATED_VMS_def)
  fix s1 e
  assume "(panics_within env X \<and> table_ok s1) \<and> same_but_table s s1 \<and> vms s1 = vms s"
  then show "sched_ok s1 \<and> abs_of s1 = abs_of s"
    using sched_ok_kept [OF assms(4)] same_but_table_abs by blast
next
  fix s1 and u
  assume s1: "((panics_within env X \<and> table_ok s1) \<and> same_but_table s s1 \<and> vms s1 = vms s) \<and> set [vm] \<subseteq> insts s1"
  then have ok: "sched_ok s1" "abs_of s1 = abs_of s" "vm \<in> insts s1"
    using sched_ok_kept [OF assms(4)] same_but_table_abs [of s s1] by auto
  have fr: "message_box s1 = []" "total_cycles s1 = total_cycles s" "sch_tx_data s1 = sch_tx_data s"
    using s1 assms(6) by (auto simp: same_but_table_def)
  show "wp (and_then (run_machine env pause limit_cycles vm) (\<lambda>(result, consumed).
      and_then (gets total_cycles) (\<lambda>total.
      and_then (ok_or CyclesOverflow (checked_add total consumed)) (\<lambda>total'.
      and_then (modify (\<lambda>s. s\<lparr>total_cycles := total'\<rparr>)) (\<lambda>_. ret (result, consumed))))))
    (\<lambda>(result, consumed) s'. ran vm s result s'
       \<and> unat (total_cycles s) + unat consumed < 2 ^ 64 \<and> total_cycles s' = total_cycles s + consumed)
    (\<lambda>_ s'. sched_ok s' \<and> abs_of s' = abs_of s) X s1"
    by (rule wp_seq [OF wp_run_machine [OF assms(1-3) ok(1,3) fr(1),
          where E = "\<lambda>_ s'. sched_ok s' \<and> abs_of s' = abs_of s"]])
      (use ok fr in \<open>auto simp: wp_simps checked_add_Some ran_def split: option.splits\<close>)
qed

section \<open>A VM that exits\<close>

text \<open>\<open>part_wake vm D a\<close>: the VMs in \<open>D\<close> no longer wait for \<open>vm\<close>.\<close>

definition part_wake :: "vm_id \<Rightarrow> vm_id set \<Rightarrow> asched \<Rightarrow> asched" where
  "part_wake vm D a = a\<lparr>a_states := (\<lambda>v. if v \<in> D then map_option (wake_joiner vm) (a_states a v) else a_states a v)\<rparr>"

lemma part_wake_sel [simp]:
  "a_states (part_wake vm D a) v = (if v \<in> D then map_option (wake_joiner vm) (a_states a v) else a_states a v)"
  "a_pipes (part_wake vm D a) = a_pipes a" "a_terminated (part_wake vm D a) = a_terminated a"
  "a_next_vm (part_wake vm D a) = a_next_vm a" "a_next_slot (part_wake vm D a) = a_next_slot a"
  by (simp_all add: part_wake_def)

lemma part_wake_insert:
  "a_states a v = Some st \<Longrightarrow> set_state v (wake_joiner vm st) (part_wake vm D a) = part_wake vm (insert v D) a"
  by (auto simp: part_wake_def set_state_def fun_eq_iff)

lemma joiners_of_simps:
  "joiners_of vm [] = []"
  "joiners_of vm ((v, st) # xs) = (case st of Join target addr \<Rightarrow> if target = vm then [(v, addr)] else []
     | _ \<Rightarrow> []) @ joiners_of vm xs"
  by (simp_all add: joiners_of_def)

lemma joiners_of_mem: "(v, addr) \<in> set (joiners_of vm xs) \<longleftrightarrow> (v, Join vm addr) \<in> set xs"
proof (induction xs)
  case (Cons x xs)
  then show ?case by (cases x; cases "snd x") (auto simp: joiners_of_simps)
qed (simp add: joiners_of_simps)

lemma set_joiners_of:
  "bt_wf (states s) \<Longrightarrow>
   (v, addr) \<in> set (joiners_of vm (states s)) \<longleftrightarrow> bt_get (states s) v = Some (Join vm addr)"
  by (simp add: set_states joiners_of_mem)

lemma distinct_joiners_of: "distinct (map fst xs) \<Longrightarrow> distinct (joiners_of vm xs)"
proof (induction xs)
  case (Cons x xs)
  obtain v st where x: "x = (v, st)" by fastforce
  have "v \<notin> fst ` set xs" using Cons.prems x by simp
  then have "(v, addr) \<notin> set (joiners_of vm xs)" for addr
    unfolding joiners_of_mem by force
  with Cons x show ?case by (cases st) (simp_all add: joiners_of_simps)
qed (simp add: joiners_of_simps)

text \<open>\<open>woken s D s'\<close>: from \<open>s\<close>, the VMs in \<open>D\<close> have been woken.\<close>

definition woken :: "vm_id \<Rightarrow> ('m, 'c, 's, 'd) scheduler \<Rightarrow> vm_id set \<Rightarrow> ('m, 'c, 's, 'd) scheduler \<Rightarrow> bool" where
  "woken vm s D s' \<longleftrightarrow> advanced (part_wake vm D (abs_of s)) s s'"

lemma wp_wake:
  assumes "panics_within env X" and "sched_ok s" and "live (abs_of s)"
    and "woken vm s D s1" and "bt_get (states s) v = Some (Join vm addr)" and "v \<notin> D"
  shows "wp (wake env code (v, addr)) (\<lambda>_. woken vm s (insert v D)) (\<lambda>_ s'. sched_ok s') X s1"
proof -
  have s1: "sched_ok s1" "abs_of s1 = part_wake vm D (abs_of s)" "same_frame s s1"
    using assms(4) by (auto simp: woken_def advanced_def)
  have st: "a_states (abs_of s1) v = Some (Join vm addr)" using assms(5,6) s1(2) by simp
  then have dom: "v \<in> dom (bt_get (states s1))" by auto
  have live: "live (abs_of s1)" by (rule live_alive [OF ainv_abs [OF s1(1)] st]) simp
  have inv: "ainv (set_state v Runnable (abs_of s1))"
    using ainv_abs [OF s1(1)] live st by (intro ainv_set_state) auto
  have a: "set_state v Runnable (abs_of s1) = part_wake vm (insert v D) (abs_of s)"
    using part_wake_insert [of "abs_of s" v "Join vm addr" vm D] assms(5) s1(2) by simp
  show ?thesis
    unfolding wake_def fst_conv snd_conv
  proof (rule wp_seq [OF wp_reply [OF assms(1) s1(1) dom panics_in_finish(3) [OF assms(1)]]])
    fix s2 and u
    assume s2: "advanced (abs_of s1) s1 s2"
    then have ok: "sched_ok s2" "abs_of s2 = abs_of s1" "same_frame s1 s2" by (auto simp: advanced_def)
    have "v \<in> dom (bt_get (states s2))" using st ok(2) by (metis abs_of_sel(1) domI)
    moreover have "ainv (set_state v Runnable (abs_of s2))" using inv ok(2) by simp
    ultimately show "wp (insert_state v Runnable) (\<lambda>_. woken vm s (insert v D)) (\<lambda>_ s'. sched_ok s') X s2"
      using a ok s1(3) unfolding woken_def
      by (intro wp_mono [OF wp_insert_state [OF ok(1)]])
        (auto intro: advanced_after same_frame_trans)
  qed (auto simp: advanced_def)
qed


lemma part_wake_all:
  assumes "\<And>v st. a_states a v = Some st \<Longrightarrow> v \<notin> D \<Longrightarrow> wake_joiner vm st = st"
  shows "a_states (part_wake vm D a) v = map_option (wake_joiner vm) (a_states a v)"
  using assms [of v] by (cases "a_states a v") auto

lemma wp_wake_all:
  assumes "panics_within env X" and "sched_ok s" and "live (abs_of s)"
  shows "wp (for_each (wake env code) (joiners_of vm (states s)))
    (\<lambda>_ s'. advanced ((abs_of s)\<lparr>a_states := (\<lambda>v. map_option (wake_joiner vm) (a_states (abs_of s) v))\<rparr>) s s')
    (\<lambda>_ s'. sched_ok s') X s"
proof -
  have wf: "bt_wf (states s)" using assms(2) by (simp add: sched_ok_def)
  let ?D = "\<Union> ((\<lambda>j. {fst j}) ` set (joiners_of vm (states s)))"
  have "wp (for_each (wake env code) (joiners_of vm (states s)))
      (\<lambda>_. woken vm s ({} \<union> ?D)) (\<lambda>_ s'. sched_ok s') X s"
  proof (rule wp_for_each_parts)
    show "distinct (joiners_of vm (states s))"
      using wf by (intro distinct_joiners_of) (simp add: bt_wf_def bt_keys_def)
    show "woken vm s {} s" using assms(2) by (simp add: woken_def advanced_def part_wake_def)
    show "wp (wake env code x) (\<lambda>_. woken vm s (D \<union> {fst x})) (\<lambda>_ s'. sched_ok s') X t"
      if "x \<in> set (joiners_of vm (states s))" "woken vm s D t" "{fst x} \<inter> D = {}" for x D t
      using wp_wake [OF assms that(2), of "fst x" "snd x" code] that set_joiners_of [OF wf, of "fst x" "snd x" vm]
      by simp
  qed (auto simp: set_joiners_of [OF wf])
  moreover have "a_states (part_wake vm ?D (abs_of s)) v = map_option (wake_joiner vm) (a_states (abs_of s) v)" for v
  proof (rule part_wake_all)
    fix v st assume "a_states (abs_of s) v = Some st" "v \<notin> ?D"
    then show "wake_joiner vm st = st"
      using set_joiners_of [OF wf, of v _ vm] by (cases st) force+
  qed
  then have "part_wake vm ?D (abs_of s) =
      (abs_of s)\<lparr>a_states := (\<lambda>v. map_option (wake_joiner vm) (a_states (abs_of s) v))\<rparr>"
    by (intro asched.equality) (auto simp: fun_eq_iff)
  ultimately show ?thesis unfolding woken_def by simp
qed

lemma abs_of_terminated:
  "abs_of (s\<lparr>terminated_vms := hm_insert vm code (terminated_vms s)\<rparr>) =
     (abs_of s)\<lparr>a_terminated := (a_terminated (abs_of s))(vm \<mapsto> code)\<rparr>"
  by (auto simp: abs_of_def map_laws)

lemma ainv_terminated: "ainv (a\<lparr>a_terminated := t\<rparr>) = ainv a"
proof -
  have "state_ok (a\<lparr>a_terminated := t\<rparr>) v st = state_ok a v st" for v st by (cases st) auto
  then show ?thesis by (simp add: ainv_def pipe_issued_def live_def)
qed

lemma wp_purge:
  assumes "sched_ok s" and "vm \<noteq> ROOT_VM_ID"
    and "ainv b" and "a_states b = (\<lambda>v. if v = vm then None else a_states (abs_of s) v)"
    and "a_pipes b = (\<lambda>p. if a_pipes (abs_of s) p = Some vm then None else a_pipes (abs_of s) p)"
    and "a_terminated b = a_terminated (abs_of s)" and "a_next_vm b = a_next_vm (abs_of s)"
    and "a_next_slot b = a_next_slot (abs_of s)"
  shows "wp (purge vm) (\<lambda>_. advanced b s) E X s"
proof -
  let ?t = "s\<lparr>pipes := hm_retain (\<lambda>_ owner. owner \<noteq> vm) (pipes s),
     states := bt_remove vm (states s), instantiated := bt_remove vm (instantiated s),
     suspended := hm_remove vm (suspended s)\<rparr>"
  have wf: "bt_wf (states s)" "hm_wf (pipes s)" "table_ok s" "vms s = dom (bt_get (states s))"
    using assms(1) by (auto simp: sched_ok_def)
  have "card (insts s - {vm}) \<le> card (insts s)" by (simp add: card_mono)
  then have tab: "table_ok ?t" "vms ?t = vms s - {vm}"
    using wf(3) by (auto simp: table_ok_def vms_def)
  have abs: "abs_of ?t = b"
    using assms(4-8) wf(1,2)
    by (intro asched.equality) (auto simp: fun_eq_iff map_laws split: option.splits)
  have "sched_ok ?t"
    using assms(1,3) tab wf(4) abs by (auto simp: sched_ok_def btree.dom_del)
  with abs show ?thesis by (simp add: purge_def wp_simps advanced_def same_frame_def)
qed

lemma wp_purge_others:
  assumes "sched_ok s" and "ROOT_VM_ID \<in> insts s"
    and "ainv b" and "a_states b = [ROOT_VM_ID \<mapsto> Terminated]" and "a_pipes b = a_pipes (abs_of s)"
    and "a_terminated b = a_terminated (abs_of s)" and "a_next_vm b = a_next_vm (abs_of s)"
    and "a_next_slot b = a_next_slot (abs_of s)"
  shows "wp (purge_others ROOT_VM_ID) (\<lambda>_ s'. advanced b s s' \<and> ROOT_VM_ID \<in> insts s') E X s"
proof -
  let ?t = "s\<lparr>instantiated := bt_retain (\<lambda>v _. v = ROOT_VM_ID) (instantiated s), suspended := [],
     states := bt_insert ROOT_VM_ID Terminated []\<rparr>"
  have wf: "inst_wf (instantiated s)" using assms(1) by (auto simp: sched_ok_def table_ok_def)
  have ins: "insts ?t = {ROOT_VM_ID}"
    using assms(2) btree.lookup_ret [OF inst_wf_bt [OF wf]]
    by (auto simp: insts_def dom_def split: option.splits if_splits)
  have none: "susps ?t = {}" by (auto simp: susps_def map_laws)
  have tab: "table_ok ?t" "vms ?t = {ROOT_VM_ID}"
    unfolding table_ok_def vms_def ins none using wf by (simp_all add: MAX_INSTANTIATED_VMS_def)
  have dom: "dom (bt_get (states ?t)) = {ROOT_VM_ID}" by (auto simp: bt_get_def split: if_splits)
  have abs: "abs_of ?t = b"
    using assms(4-8) by (intro asched.equality) (auto simp: fun_eq_iff bt_get_def)
  have "sched_ok ?t"
    unfolding sched_ok_def tab dom abs using assms(1,3) tab(1) by (simp add: sched_ok_def)
  with abs ins show ?thesis by (simp add: purge_others_def wp_simps advanced_def same_frame_def)
qed

text \<open>The two ways an exit goes on after its code has been recorded: \<open>purge_others\<close> for the root, else waking joiners.\<close>

lemma wp_root_exit:
  fixes s s1 :: "('m, 'c, 's, 'd) scheduler"
  assumes "panics_within env X" and ok: "sched_ok s1" and "ROOT_VM_ID \<in> vms s1" and fr: "same_frame s s1"
    and inv: "ainv b" and b: "\<And>s2 :: ('m, 'c, 's, 'd) scheduler. abs_of s2 = abs_of s1 \<Longrightarrow> sched_ok s2 \<Longrightarrow> ROOT_VM_ID \<in> insts s2 \<Longrightarrow>
      wp (purge_others ROOT_VM_ID) (\<lambda>_ s'. advanced b s2 s' \<and> ROOT_VM_ID \<in> insts s') (\<lambda>_ s'. sched_ok s') X s2"
  shows "wp (and_then (ensure_vms_instantiated env [ROOT_VM_ID]) (\<lambda>_. purge_others ROOT_VM_ID))
      (\<lambda>_ s'. advanced b s s' \<and> ROOT_VM_ID \<in> insts s') (\<lambda>_ s'. sched_ok s') X s1"
proof (rule wp_seq [OF table.ensure [where env = env]])
  show "length [ROOT_VM_ID] \<le> MAX_INSTANTIATED_VMS" by (simp add: MAX_INSTANTIATED_VMS_def)
  show "panics_within env X \<and> table_ok s1" using assms(1) ok by (simp add: sched_ok_def)
  show "set [ROOT_VM_ID] \<subseteq> vms s1" "distinct [ROOT_VM_ID]" using assms(3) by simp_all
  show "sched_ok s2" if "(panics_within env X \<and> table_ok s2) \<and> same_but_table s1 s2 \<and> vms s2 = vms s1" for s2
    using that by (intro sched_ok_kept [OF ok]) simp
  fix s2 and u
  assume s2: "((panics_within env X \<and> table_ok s2) \<and> same_but_table s1 s2 \<and> vms s2 = vms s1)
      \<and> set [ROOT_VM_ID] \<subseteq> insts s2"
  then have ok2: "sched_ok s2" "abs_of s2 = abs_of s1" "same_frame s1 s2" "ROOT_VM_ID \<in> insts s2"
    using sched_ok_kept [OF ok] same_but_table_abs [of s1 s2] by auto
  show "wp (purge_others ROOT_VM_ID) (\<lambda>_ s'. advanced b s s' \<and> ROOT_VM_ID \<in> insts s') (\<lambda>_ s'. sched_ok s') X s2"
    using b [OF ok2(2,1,4)] same_frame_trans [OF fr ok2(3)]
    by (auto elim!: wp_mono intro: advanced_after)
qed

lemma wp_child_exit:
  fixes s s1 :: "('m, 'c, 's, 'd) scheduler"
  assumes "panics_within env X" and ok: "sched_ok s1" and live: "live (abs_of s1)" and fr: "same_frame s s1"
    and b: "\<And>s2 :: ('m, 'c, 's, 'd) scheduler. abs_of s2 = (abs_of s1)\<lparr>a_states := \<lambda>v. map_option (wake_joiner vm) (a_states (abs_of s1) v)\<rparr> \<Longrightarrow>
      sched_ok s2 \<Longrightarrow> wp (purge vm) (\<lambda>_. advanced b s2) (\<lambda>_ s'. sched_ok s') X s2"
  shows "wp (and_then (for_each (wake env code) (joiners_of vm (states s1))) (\<lambda>_. purge vm))
      (\<lambda>_. advanced b s) (\<lambda>_ s'. sched_ok s') X s1"
proof (rule wp_seq [OF wp_wake_all [OF assms(1) ok live]])
  fix s2 and u
  assume s2: "advanced ((abs_of s1)\<lparr>a_states := \<lambda>v. map_option (wake_joiner vm) (a_states (abs_of s1) v)\<rparr>) s1 s2"
  then have ok2: "sched_ok s2" "same_frame s1 s2" and a2: "abs_of s2 =
      (abs_of s1)\<lparr>a_states := \<lambda>v. map_option (wake_joiner vm) (a_states (abs_of s1) v)\<rparr>"
    by (auto simp: advanced_def)
  show "wp (purge vm) (\<lambda>_. advanced b s) (\<lambda>_ s'. sched_ok s') X s2"
    using b [OF a2 ok2(1)] same_frame_trans [OF fr ok2(2)]
    by (auto elim!: wp_mono intro: advanced_after)
qed simp

lemma wp_vm_exited:
  assumes "panics_within env X" and "sched_ok s" and "a_states (abs_of s) vm = Some Runnable"
  shows "wp (vm_exited env vm code)
    (\<lambda>_ s'. advanced (a_exit vm code (abs_of s)) s s' \<and> (vm = ROOT_VM_ID \<longrightarrow> ROOT_VM_ID \<in> insts s'))
    (\<lambda>_ s'. sched_ok s') X s"
proof -
  let ?s1 = "s\<lparr>terminated_vms := hm_insert vm code (terminated_vms s)\<rparr>"
  let ?b = "a_exit vm code (abs_of s)"
  have inv: "ainv ?b" using ainv_exit [OF ainv_abs [OF assms(2)] assms(3)] .
  have live: "live (abs_of s)" by (rule live_alive [OF ainv_abs [OF assms(2)] assms(3)]) simp
  have fr: "same_frame s ?s1" by (simp add: same_frame_def)
  have ok: "sched_ok ?s1"
    using assms(2) ainv_terminated unfolding sched_ok_def abs_of_terminated by simp
  have dom: "{vm} \<subseteq> vms ?s1" using assms(2,3) by (auto simp: sched_ok_def)
  show ?thesis
  proof (cases "vm = ROOT_VM_ID")
    case True
    have "wp (and_then (ensure_vms_instantiated env [ROOT_VM_ID]) (\<lambda>_. purge_others ROOT_VM_ID))
      (\<lambda>_ s'. advanced ?b s s' \<and> ROOT_VM_ID \<in> insts s') (\<lambda>_ s'. sched_ok s') X ?s1"
    proof (rule wp_root_exit [OF assms(1) ok _ fr inv])
      fix s2 assume s2: "abs_of s2 = abs_of ?s1" "sched_ok s2" "ROOT_VM_ID \<in> insts s2"
      show "wp (purge_others ROOT_VM_ID) (\<lambda>_ s'. advanced ?b s2 s' \<and> ROOT_VM_ID \<in> insts s') (\<lambda>_ s'. sched_ok s') X s2"
        using True inv s2(1) unfolding abs_of_terminated
        by (intro wp_purge_others [OF s2(2,3)]) (auto simp: fun_eq_iff)
    qed (use dom True in simp)
    with True show ?thesis by (simp add: vm_exited_def wp_first)
  next
    case False
    have "wp (and_then (for_each (wake env code) (joiners_of vm (states ?s1))) (\<lambda>_. purge vm))
      (\<lambda>_. advanced ?b s) (\<lambda>_ s'. sched_ok s') X ?s1"
    proof (rule wp_child_exit [OF assms(1) ok _ fr])
      show "live (abs_of ?s1)" using live by (simp add: live_def)
      fix s2 assume a2: "abs_of s2 = (abs_of ?s1)\<lparr>a_states := \<lambda>v. map_option (wake_joiner vm) (a_states (abs_of ?s1) v)\<rparr>"
        and ok2: "sched_ok s2"
      show "wp (purge vm) (\<lambda>_. advanced ?b s2) (\<lambda>_ s'. sched_ok s') X s2"
        using False inv unfolding a2 abs_of_terminated
        by (intro wp_purge [OF ok2 False inv]) (auto simp: fun_eq_iff a2 map_laws)
    qed
    with False show ?thesis by (simp add: vm_exited_def wp_first)
  qed
qed

section \<open>An iteration is a step of the specification\<close>

text \<open>What the scheduler relies on, and a scheduler between two iterations.\<close>

definition sound_env :: "('m, 'c, 's, 'e, 'z, 'd) ckb_env \<Rightarrow> (panic \<Rightarrow> bool) \<Rightarrow> bool" where
  "sound_env env X \<longleftrightarrow> panics_within env X \<and> overflow_checks env \<and> asm_run_contract env
     \<and> no_foreign_yield env"

definition settled :: "('m, 'c, 's, 'd) scheduler \<Rightarrow> bool" where
  "settled s \<longleftrightarrow> sched_ok s \<and> codes_ok (abs_of s) \<and> message_box s = []"

definition stepped :: "('m, 'c, 's, 'd) scheduler \<Rightarrow> u64 \<Rightarrow> ('m, 'c, 's, 'd) scheduler \<Rightarrow> bool" where
  "stepped s consumed s' \<longleftrightarrow> settled s' \<and> (\<exists>ev. astep (abs_of s) ev (abs_of s'))
     \<and> unat (total_cycles s) + unat consumed < 2 ^ 64
     \<and> total_cycles s' = total_cycles s + consumed \<and> sch_tx_data s' = sch_tx_data s
     \<and> (live (abs_of s') \<or> ROOT_VM_ID \<in> insts s')"

lemma live_message: "live a \<Longrightarrow> live (a_message msg a)"
  by (cases "(msg, a)" rule: a_message.cases) (auto simp: live_def)

lemma live_exit: "live a \<Longrightarrow> vm \<noteq> ROOT_VM_ID \<Longrightarrow> live (a_exit vm code a)"
proof -
  have "wake_joiner vm st = Terminated \<longleftrightarrow> st = Terminated" for st by (cases st) auto
  then show "live a \<Longrightarrow> vm \<noteq> ROOT_VM_ID \<Longrightarrow> live (a_exit vm code a)" by (auto simp: live_def)
qed

text \<open>After the machine has run: the message, or the exit.\<close>

text \<open>A step of the specification, seen from the concrete scheduler: after a message, and after an exit.\<close>

lemma stepped_yield:
  assumes inv: "ainv (a_io (abs_of s))" "codes_ok (a_io (abs_of s))" and pick: "picks (a_io (abs_of s)) (message_from msg)"
    and s3: "advanced (a_message msg (a_io (abs_of s))) (empty_box s2) s3" "enabled (a_io (abs_of s)) msg"
    and s2: "sch_tx_data s2 = sch_tx_data s" "unat (total_cycles s) + unat consumed < 2 ^ 64"
      "total_cycles s2 = total_cycles s + consumed"
  shows "message_box s3 = [] \<and> stepped s consumed s3"
proof -
  have run: "a_states (a_io (abs_of s)) (message_from msg) = Some Runnable" by (rule picks_Runnable [OF pick])
  have live: "live (a_io (abs_of s))" by (rule live_alive [OF inv(1) run]) simp
  have fr: "message_box s3 = []" "sched_ok s3" "abs_of s3 = a_message msg (a_io (abs_of s))"
      "total_cycles s3 = total_cycles s2" "sch_tx_data s3 = sch_tx_data s2"
    using s3(1) by (auto simp: advanced_def same_frame_def empty_box_def)
  have "astep (abs_of s) (Yielded msg) (abs_of s3)"
    unfolding fr(3) by (rule astep.yields [OF pick refl s3(2)])
  moreover have "codes_ok (abs_of s3)"
    unfolding fr(3) using inv run s3(2) by (intro codes_message) auto
  moreover have "live (abs_of s3)" unfolding fr(3) by (rule live_message [OF live])
  ultimately show ?thesis
    using fr s2 by (auto simp: stepped_def settled_def)
qed

lemma stepped_exit:
  assumes inv: "ainv (a_io (abs_of s))" "codes_ok (a_io (abs_of s))" and pick: "picks (a_io (abs_of s)) vm"
    and s3: "advanced (a_exit vm code (a_io (abs_of s))) s2 s3" "vm = ROOT_VM_ID \<longrightarrow> ROOT_VM_ID \<in> insts s3"
    and s2: "message_box s2 = []" "sch_tx_data s2 = sch_tx_data s" "unat (total_cycles s) + unat consumed < 2 ^ 64"
      "total_cycles s2 = total_cycles s + consumed"
  shows "stepped s consumed s3"
proof -
  have run: "a_states (a_io (abs_of s)) vm = Some Runnable" by (rule picks_Runnable [OF pick])
  have live: "live (a_io (abs_of s))" by (rule live_alive [OF inv(1) run]) simp
  have fr: "message_box s3 = []" "sched_ok s3" "abs_of s3 = a_exit vm code (a_io (abs_of s))"
      "total_cycles s3 = total_cycles s2" "sch_tx_data s3 = sch_tx_data s2"
    using s3(1) s2(1) by (auto simp: advanced_def same_frame_def)
  have "astep (abs_of s) (Exited vm code) (abs_of s3)"
    unfolding fr(3) by (rule astep.exits [OF pick])
  moreover have "codes_ok (abs_of s3)"
    unfolding fr(3) by (rule codes_exit [OF inv run])
  moreover have "live (abs_of s3) \<or> ROOT_VM_ID \<in> insts s3"
    using s3(2) live_exit [OF live, of vm code] fr(3) by auto
  ultimately show ?thesis
    using fr s2 by (auto simp: stepped_def settled_def)
qed

lemma wp_after_run:
  assumes "sound_env env X" and "settled s" and pick: "picks (a_io (abs_of s)) vm"
    and ran: "ran vm s1 result s2" and s1: "abs_of s1 = a_io (abs_of s)" "sch_tx_data s1 = sch_tx_data s"
    and cyc: "unat (total_cycles s) + unat consumed < 2 ^ 64" "total_cycles s2 = total_cycles s + consumed"
  shows "wp (and_then (process_message_box env) (\<lambda>_.
      and_then (gets message_box) (\<lambda>box.
      and_then (assert (box = [])) (\<lambda>_.
      case result of
        Ok code \<Rightarrow> and_then (vm_exited env vm code) (\<lambda>_. ret consumed)
      | Err e \<Rightarrow> if e = YIELD then ret consumed else fail e
      | Panic k \<Rightarrow> panic k))))
    (stepped s) (\<lambda>_ s'. sched_ok s') X s2"
proof -
  have env: "panics_within env X" "overflow_checks env" using assms(1) by (auto simp: sound_env_def)
  have s2: "sched_ok s2" "abs_of s2 = a_io (abs_of s)" "sch_tx_data s2 = sch_tx_data s"
    using ran s1 by (auto simp: ran_def)
  have inv: "ainv (a_io (abs_of s))" "codes_ok (a_io (abs_of s))"
    using assms(2) by (auto simp: settled_def sched_ok_def intro: ainv_io codes_io)
  have run: "a_states (abs_of s2) vm = Some Runnable" using picks_Runnable [OF pick] s2(2) by simp
  show ?thesis
  proof (cases "result = Err YIELD")
    case True
    then obtain msg and tx :: "'f tx_data" where
        m: "message_box s2 = [msg]" "message_from msg = vm" "message_ok tx msg"
      using ran by (auto simp: ran_def)
    have "bt_get (states s2) (message_from msg) = Some Runnable"
      using run m(2) by (metis abs_of_sel(1))
    note pmb = wp_process_message_box [OF env s2(1) conjI [OF this m(3)] disjI2 [OF m(1)]]
    show ?thesis
      by (rule wp_seq [OF pmb])
        (use True m s2 stepped_yield [OF inv, of msg s2 _ consumed] pick cyc in \<open>auto simp: wp_simps unharmed_def\<close>)
  next
    case False
    then have box: "message_box s2 = []" using ran by (simp add: ran_def)
    then have idle: "process_message_box env s2 = (Ok (), s2)"
      by (simp add: process_message_box_def prog_defs)
    have exits: "wp (and_then (vm_exited env vm code) (\<lambda>_. ret consumed)) (stepped s) (\<lambda>_ s'. sched_ok s') X s2"
      for code
      by (rule wp_seq [OF wp_vm_exited [OF env(1) s2(1) run]])
        (use s2(2) stepped_exit [OF inv pick _ _ box s2(3) cyc] in \<open>auto simp: wp_simps\<close>)
    have "wp (case result of
            Ok code \<Rightarrow> and_then (vm_exited env vm code) (\<lambda>_. ret consumed)
          | Err e \<Rightarrow> if e = YIELD then ret consumed else fail e
          | Panic k \<Rightarrow> panic k) (stepped s) (\<lambda>_ s'. sched_ok s') X s2"
      using exits False s2(1) ran by (cases result) (simp_all add: wp_ret wp_fail ran_def)
    then show ?thesis
      unfolding wp_known [of "process_message_box env", OF idle] wp_first using box by simp
  qed
qed

lemma wp_iterate:
  assumes "sound_env env X" and "settled s" and "closed_ready s \<or> X UnwrapNone"
  shows "wp (iterate env pause limit_cycles) (stepped s) (\<lambda>_ s'. sched_ok s') X s"
proof -
  have env: "panics_within env X" "asm_run_contract env" "no_foreign_yield env"
    using assms(1) by (auto simp: sound_env_def)
  have ok: "sched_ok s" "message_box s = []" using assms(2) by (auto simp: settled_def)
  show ?thesis
    unfolding iterate_def
  proof (rule wp_seq [OF wp_process_io [OF env(1) ok(1) assms(3)]])
    fix u s1 assume "advanced (a_io (abs_of s)) s s1"
    then have s1: "sched_ok s1" "abs_of s1 = a_io (abs_of s)" "message_box s1 = []"
        "total_cycles s1 = total_cycles s" "sch_tx_data s1 = sch_tx_data s"
      using ok(2) by (auto simp: advanced_def same_frame_def)
    have wf: "bt_wf (states s1)" using s1(1) by (simp add: sched_ok_def)
    show "wp (and_then (gets (\<lambda>s. vm_to_run (states s))) (\<lambda>found.
      case found of
        None \<Rightarrow> fail (Unexpected Deadlock)
      | Some vm \<Rightarrow>
         and_then (run_vm env pause limit_cycles vm) (\<lambda>(result, consumed).
         and_then (process_message_box env) (\<lambda>_.
         and_then (gets message_box) (\<lambda>box.
         and_then (assert (box = [])) (\<lambda>_.
         case result of
           Ok code \<Rightarrow> and_then (vm_exited env vm code) (\<lambda>_. ret consumed)
         | Err e \<Rightarrow> if e = YIELD then ret consumed else fail e
         | Panic k \<Rightarrow> panic k))))))
      (stepped s) (\<lambda>_ s'. sched_ok s') X s1"
    proof (cases "vm_to_run (states s1)")
      case None
      then show ?thesis using s1(1) by (simp add: wp_first wp_fail)
    next
      case (Some vm)
      then have p: "picks (a_io (abs_of s)) vm" using vm_to_run_picks(1) [OF wf] s1(2) by simp
      have dom: "vm \<in> dom (bt_get (states s1))"
        using picks_Runnable [OF p] s1(2) by (metis abs_of_sel(1) domI)
      show ?thesis
        unfolding wp_first Some option.case
        by (rule wp_seq [OF wp_run_vm [OF env s1(1) dom s1(3)]])
          (use wp_after_run [OF assms(1,2) p _ s1(2,5)] s1(4) in auto)
    qed
  qed (simp add: unharmed_def)
qed


section \<open>The loop of \<open>run\<close>\<close>

lemma run_loop_Terminated:
  "bt_get (states s) ROOT_VM_ID = Some Terminated \<Longrightarrow> run_loop env pause l s = Some (Ok (), s)"
  by (simp add: run_loop.simps)

lemma run_loop_step:
  assumes "bt_get (states s) ROOT_VM_ID = Some st" and "st \<noteq> Terminated"
  shows "run_loop env pause l s = (case iterate env pause l s of
      (Ok consumed, s') \<Rightarrow> run_loop env pause 0 s'
    | (Err e, s') \<Rightarrow> Some (Err e, s') | (Panic k, s') \<Rightarrow> Some (Panic k, s'))"
  using assms by (subst run_loop.simps) (simp split: prod.split res.split)

text \<open>A machine that may not spend a cycle neither exits nor reaches a syscall that yields.\<close>

definition zero_limit_stops :: "('m, 'c, 's, 'e, 'z, 'd) ckb_env \<Rightarrow> bool" where
  "zero_limit_stops env \<longleftrightarrow> (\<forall>h pause m ctx box. \<exists>e.
     fst (asm_run env h \<lparr>vc_machine = set_pause env pause (set_max_cycles env 0 m),
        vc_context = ctx, vc_box = box\<rparr>) = Err e \<and> e \<noteq> YIELD)"

lemma wp_anything: "wp f (\<lambda>_ _. True) (\<lambda>_ _. True) (\<lambda>_. True) s"
  by (simp add: wp_def split: prod.split res.split)

lemma wp_run_machine_zero:
  assumes "zero_limit_stops env"
  shows "wp (run_machine env pause 0 vm) (\<lambda>(result, _) _. \<exists>e. result = Err e \<and> e \<noteq> YIELD)
    (\<lambda>_ _. True) (\<lambda>_. True) s"
proof (cases "bt_get (instantiated s) vm")
  case (Some x)
  obtain ctx m where x: "x = (ctx, m)" by fastforce
  obtain e where "fst (asm_run env (ecall env)
      \<lparr>vc_machine = set_pause env pause (set_max_cycles env 0 m),
       vc_context = ctx\<lparr>mc_base_cycles := total_cycles s\<rparr>, vc_box = message_box s\<rparr>) = Err e" "e \<noteq> YIELD"
    using assms unfolding zero_limit_stops_def by blast
  with Some x show ?thesis
    by (auto simp: wp_def run_machine_def Let_def split: prod.splits)
qed (simp add: wp_def run_machine_def)

lemma iterate_zero:
  assumes "zero_limit_stops env"
  shows "iterate env pause 0 s \<noteq> (Ok consumed, s')"
proof -
  have run: "wp (run_vm env pause 0 vm) (\<lambda>(result, _) _. \<exists>e. result = Err e \<and> e \<noteq> YIELD)
      (\<lambda>_ _. True) (\<lambda>_. True) s1" for vm s1
    unfolding run_vm_def
  proof (rule wp_seq [OF wp_anything], goal_cases)
    case (1 u s2)
    show ?case
      by (rule wp_seq [OF wp_run_machine_zero [OF assms]])
        (auto simp: wp_simps split: option.splits)
  qed
  have after: "wp (and_then (process_message_box env) (\<lambda>_.
      and_then (gets message_box) (\<lambda>box.
      and_then (assert (box = [])) (\<lambda>_.
      case result of
        Ok code \<Rightarrow> and_then (vm_exited env vm code) (\<lambda>_. ret consumed)
      | Err e \<Rightarrow> if e = YIELD then ret consumed else fail e
      | Panic k \<Rightarrow> panic k)))) (\<lambda>_ _. False) (\<lambda>_ _. True) (\<lambda>_. True) s2"
    if "\<exists>e. result = Err e \<and> e \<noteq> YIELD" for result vm consumed s2
    using that by (intro wp_seq [OF wp_anything]) (auto simp: wp_simps)
  have "wp (iterate env pause 0) (\<lambda>_ _. False) (\<lambda>_ _. True) (\<lambda>_. True) s"
    unfolding iterate_def
  proof (rule wp_seq [OF wp_anything], goal_cases)
    case (1 u s1)
    show ?case
    proof (cases "vm_to_run (states s1)")
      case None
      then show ?thesis by (simp add: wp_first wp_fail)
    next
      case (Some vm)
      show ?thesis
        unfolding wp_first Some option.case
      proof (rule wp_seq [OF run], goal_cases)
        case (1 p s2)
        then show ?case by (cases p) (simp only: prod.case, rule after, blast)
      qed simp
    qed
  qed simp
  then show ?thesis by (auto simp: wp_def)
qed

lemma run_loop_zero:
  assumes "zero_limit_stops env"
  shows "\<exists>r s'. run_loop env pause 0 s = Some (r, s') \<and>
    (r = Ok () \<longrightarrow> s' = s \<and> bt_get (states s) ROOT_VM_ID = Some Terminated)"
proof (cases "bt_get (states s) ROOT_VM_ID")
  case None
  then show ?thesis by (simp add: run_loop.simps)
next
  case (Some st)
  show ?thesis
  proof (cases "st = Terminated")
    case True
    with Some show ?thesis by (simp add: run_loop_Terminated)
  next
    case False
    then show ?thesis
      using iterate_zero [OF assms, of pause s]
      by (auto simp: run_loop_step [OF Some False] split: prod.split res.split)
  qed
qed

end
