(* ===== verification/Scheduler_Correct.thy ===== *)
theory Scheduler_Correct
  imports Scheduler
begin

text \<open>
  The properties of the table, the message box, the pipes, the iteration and \<open>run\<close>, each with
  a concrete scheduler on which it is applied.
\<close>

section \<open>A scheduler to run\<close>

text \<open>The panics that are the scheduler's own: a failed assertion, \<open>unwrap\<close>, index, \<open>unreachable!\<close>.\<close>

definition own_panics :: "panic set" where
  "own_panics = {AssertFailed, UnwrapNone, MissingKey, Unreachable}"

text \<open>A booted root VM, instantiated, about to run the given script.\<close>

definition demo_context :: "vm_id \<Rightarrow> (unit, nat) machine_context" where
  "demo_context vm = \<lparr>mc_id = vm, mc_base_cycles = 0, mc_snapshot2_context = (), mc_data_source = sample_tx\<rparr>"

definition demo_sched :: "toy_action list \<Rightarrow> (toy, unit, toy, nat) scheduler" where
  "demo_sched script = \<lparr>sch_tx_data = sample_tx, total_cycles = 0, next_vm_id = 1, next_pipe_slot = 2,
     states = [(0, Runnable)], pipes = [], instantiated = [(0, (demo_context 0, toy_new\<lparr>t_script := script\<rparr>))],
     suspended = [], terminated_vms = [], message_box = []\<rparr>"

lemma demo_settled: "settled (demo_sched script)"
  by (auto simp: settled_def sched_ok_def table_ok_def inst_wf_def demo_sched_def demo_context_def insts_def susps_def
      vms_def bt_get_def hm_get_def ainv_def codes_ok_def FIRST_PIPE_SLOT_def MAX_INSTANTIATED_VMS_def dom_def split: if_splits)

lemma demo_closed_ready: "closed_ready (demo_sched script)"
  by (auto simp: closed_ready_def waits_closed_def demo_sched_def bt_get_def split: if_splits)

lemma demo_sound: "sound_env (toy_env True scripts) (\<lambda>k. k \<notin> own_panics)"
  by (simp add: sound_env_def toy_contract toy_no_foreign_yield toy_panics own_panics_def)

lemma toy_steps_zero: "t_max (vc_machine v) = 0 \<Longrightarrow> \<exists>e. fst (toy_steps h script v) = Err e \<and> e \<noteq> YIELD"
  by (cases script) (simp_all add: YIELD_def)

lemma toy_zero_limit: "zero_limit_stops (toy_env chk scripts)"
  unfolding zero_limit_stops_def toy_env_sel toy_run_def by (intro allI toy_steps_zero) simp

definition demo_exited :: "(toy, unit, toy, nat) scheduler" where
  "demo_exited = (demo_sched [])\<lparr>total_cycles := 1, states := [(0, Terminated)], terminated_vms := [(0, 3)],
      instantiated := [(0, (demo_context 0, toy_new\<lparr>t_script := [], t_max := 100, t_exit := 3\<rparr>))]\<rparr>"

lemma demo_iterate:
  "iterate (toy_env True (\<lambda>_. [])) () 100 (demo_sched [TExit 3]) =
   (Ok 1, demo_exited)"
  by (simp add: iterate_def process_io_def prog_defs demo_exited_def demo_sched_def vm_to_run_def run_vm_def
     ensure_vms_instantiated_def bt_contains_def bt_get_def MAX_INSTANTIATED_VMS_def run_machine_def toy_run_def
     demo_context_def toy_new_def Let_def checked_add_def process_message_box_def vm_exited_def ROOT_VM_ID_def FIRST_VM_ID_def
     purge_others_def bt_retain_def)


lemma demo_fault:
  "fst (iterate (toy_env True (\<lambda>_. [])) () 100 (demo_sched [TFault])) = Err (OtherError 1)"
  by (simp add: iterate_def process_io_def prog_defs demo_sched_def vm_to_run_def run_vm_def
      ensure_vms_instantiated_def bt_contains_def bt_get_def MAX_INSTANTIATED_VMS_def
      run_machine_def toy_run_def demo_context_def toy_new_def Let_def checked_add_def
      process_message_box_def YIELD_def)

section \<open>Properties of an iteration\<close>


lemma panics_within_all: "panics_within env (\<lambda>_. True)"
  by (simp add: panics_within_def panics_in_def)

text \<open>
  C1: a successful iteration is one step of the abstract specification: one round of IO, then
  the runnable VM with the largest ID either leaves a message, which is carried out, or exits.
  The invariant holds again, the message box is empty and the cycles of the machine are added to
  the total, which does not wrap.
\<close>

theorem iterate_refines:
  assumes "overflow_checks env" and "asm_run_contract env" and "no_foreign_yield env"
    and "settled s" and "iterate env pause limit_cycles s = (Ok consumed, s')"
  shows "settled s' \<and> (\<exists>ev. astep (abs_of s) ev (abs_of s'))
    \<and> unat (total_cycles s') = unat (total_cycles s) + unat consumed"
proof -
  have "sound_env env (\<lambda>_. True)" using assms(1-3) by (simp add: sound_env_def panics_within_all)
  from wpD_Ok [OF wp_iterate [OF this assms(4)] assms(5)] have "stepped s consumed s'" by simp
  then show ?thesis by (simp add: stepped_def unat_add_small)
qed

theorem iterate_refines_witness:
  "settled demo_exited \<and> (\<exists>ev. astep (abs_of (demo_sched [TExit 3])) ev (abs_of demo_exited))
    \<and> unat (total_cycles demo_exited) = 0 + 1"
  using iterate_refines [OF _ toy_contract toy_no_foreign_yield demo_settled demo_iterate]
  by (simp add: demo_sched_def)

text \<open>
  C9: an iteration that fails, for whatever reason (a VM that faults or exceeds its cycles, a
  guest address out of bounds, a snapshot that cannot be restored, a deadlock), leaves a
  scheduler whose tables, states and pipes satisfy the invariant.
\<close>

theorem iterate_error_keeps_invariant:
  assumes "overflow_checks env" and "asm_run_contract env" and "no_foreign_yield env"
    and "settled s" and "iterate env pause limit_cycles s = (Err e, s')"
  shows "sched_ok s'"
proof -
  have "sound_env env (\<lambda>_. True)" using assms(1-3) by (simp add: sound_env_def panics_within_all)
  from wpD_Err [OF wp_iterate [OF this assms(4)] assms(5)] show ?thesis by simp
qed

theorem iterate_error_keeps_invariant_witness:
  "sched_ok (snd (iterate (toy_env True (\<lambda>_. [])) () 100 (demo_sched [TFault])))"
  using iterate_error_keeps_invariant [OF _ toy_contract toy_no_foreign_yield demo_settled
      prod.collapse [symmetric, of "iterate (toy_env True (\<lambda>_. [])) () 100 (demo_sched [TFault])",
        unfolded demo_fault]]
  by simp



text \<open>
  C12: after its first iteration the loop of \<open>run\<close> goes on with a limit of 0 cycles, whatever the
  limit it was called with: \<open>consumed_cycles.checked_sub(consumed_cycles)\<close> takes the consumed
  cycles from themselves instead of from \<open>limit_cycles\<close>.
\<close>

theorem run_forgets_limit:
  assumes "bt_get (states s) ROOT_VM_ID = Some st" and "st \<noteq> Terminated"
    and "iterate env pause limit_cycles s = (Ok consumed, s')"
  shows "run_loop env pause limit_cycles s = run_loop env pause 0 s'"
  using assms by (simp add: run_loop_step)

theorem run_forgets_limit_witness:
  "run_loop (toy_env True (\<lambda>_. [])) () 100 (demo_sched [TExit 3]) =
   run_loop (toy_env True (\<lambda>_. [])) () 0 demo_exited"
  by (rule run_forgets_limit [OF _ _ demo_iterate, of Runnable]) (simp_all add: demo_sched_def bt_get_def ROOT_VM_ID_def FIRST_VM_ID_def)

text \<open>
  C11: \<open>run\<close> always returns, and returns an exit code only if the root VM exits in the first
  iteration: a machine with a limit of 0 cycles cannot finish, so every other call ends in an
  error that the caller has to answer by calling \<open>run\<close> again.
\<close>

theorem run_returns:
  assumes "zero_limit_stops env" and "bt_get (states s) ROOT_VM_ID = Some st" and "st \<noteq> Terminated"
  shows "\<exists>r s'. run_loop env pause limit_cycles s = Some (r, s') \<and>
    (r = Ok () \<longrightarrow> (\<exists>consumed. iterate env pause limit_cycles s = (Ok consumed, s')
       \<and> bt_get (states s') ROOT_VM_ID = Some Terminated))"
proof (cases "iterate env pause limit_cycles s")
  case (Pair r s1)
  show ?thesis
  proof (cases r)
    case (Ok consumed)
    then show ?thesis
      using Pair run_loop_zero [OF assms(1), of pause s1]
      by (auto simp: run_loop_step [OF assms(2,3)])
  qed (simp_all add: run_loop_step [OF assms(2,3)] Pair)
qed

theorem run_returns_witness:
  "\<exists>r s'. run_loop (toy_env True (\<lambda>_. [])) () 100 (demo_sched [TExit 3]) = Some (r, s') \<and>
    (r = Ok () \<longrightarrow> bt_get (states s') ROOT_VM_ID = Some Terminated)"
  using run_returns [OF toy_zero_limit, where s = "demo_sched [TExit 3]" and st = Runnable]
  by (fastforce simp: demo_sched_def bt_get_def ROOT_VM_ID_def FIRST_VM_ID_def)


section \<open>Properties of the machine table\<close>

text \<open>Five VMs, the limit of four instantiated: VM 4 is suspended.\<close>

definition demo_full :: "(toy, unit, toy, nat) scheduler" where
  "demo_full = (demo_sched [])\<lparr>next_vm_id := 5,
     states := map (\<lambda>v. (v, Runnable)) [0, 1, 2, 3, 4],
     instantiated := map (\<lambda>v. (v, (demo_context v, toy_new))) [0, 1, 2, 3],
     suspended := [(4, toy_new)]\<rparr>"

lemma demo_full_table: "table_ok demo_full"
proof -
  have "insts demo_full = {0, 1, 2, 3}" "susps demo_full = {4}"
    by (auto simp: insts_def susps_def demo_full_def bt_get_def hm_get_def split: if_splits)
  then show ?thesis
    by (auto simp: table_ok_def inst_wf_def demo_full_def demo_context_def bt_get_def
        MAX_INSTANTIATED_VMS_def split: if_splits)
qed

lemma demo_full_vms: "vms demo_full = {0, 1, 2, 3, 4}"
  by (auto simp: vms_def insts_def susps_def demo_full_def bt_get_def hm_get_def split: if_splits)

text \<open>
  C7: \<open>ensure_vms_instantiated\<close> on known, distinct VMs, at most four: on success they are all
  instantiated. Whatever happens, at most four VMs are instantiated, no VM is lost or in both
  tables, nothing but the two tables changes, and its assertion (enough VMs can be suspended to
  make room) never fails: it only panics where the snapshot code does.
\<close>

theorem ensure_instantiates:
  assumes "panics_within env X" and "table_ok s" and "set ids \<subseteq> vms s" and "distinct ids"
    and "length ids \<le> MAX_INSTANTIATED_VMS" and "ensure_vms_instantiated env ids s = (r, s')"
  shows "(case r of Panic k \<Rightarrow> X k
     | _ \<Rightarrow> table_ok s' \<and> vms s' = vms s \<and> same_but_table s s')
   \<and> (r = Ok () \<longrightarrow> set ids \<subseteq> insts s')"
  using wp_ensure [OF assms(1-5)] assms(6) by (cases r) (auto simp: wp_def)

theorem ensure_instantiates_witness:
  "case ensure_vms_instantiated (toy_env True (\<lambda>_. [])) [4] demo_full of (r, s') \<Rightarrow>
     (case r of Panic k \<Rightarrow> k \<notin> own_panics
      | _ \<Rightarrow> table_ok s' \<and> vms s' = vms demo_full \<and> same_but_table demo_full s')
     \<and> (r = Ok () \<longrightarrow> set [4] \<subseteq> insts s')"
  by (cases "ensure_vms_instantiated (toy_env True (\<lambda>_. [])) [4] demo_full")
    (use ensure_instantiates [where X = "\<lambda>k. k \<notin> own_panics" and ids = "[4]" and s = demo_full
        and env = "toy_env True (\<lambda>_. [])"] demo_full_table demo_full_vms in
      \<open>auto simp: toy_panics own_panics_def MAX_INSTANTIATED_VMS_def\<close>)

text \<open>
  C18: \<open>boot_vm\<close> gives the new VM the next ID, which no VM has, makes it \<open>Runnable\<close> and
  instantiated, and keeps every other VM, pipe and exit code; the limit of four instantiated
  VMs still holds because others are suspended first.
\<close>

theorem boot_vm_boots:
  assumes "table_ok s" and "next_vm_id s \<notin> vms s" and "overflow_checks env"
    and "boot_vm env piece off len args s = (Ok vm, s')"
  shows "vm = next_vm_id s \<and> next_vm_id s' = vm + 1 \<and> vm \<in> insts s' \<and> card (insts s') \<le> 4
    \<and> vms s' = insert vm (vms s) \<and> bt_get (states s') = (bt_get (states s))(vm \<mapsto> Runnable)
    \<and> pipes s' = pipes s \<and> terminated_vms s' = terminated_vms s"
proof -
  have "boots s vm s'"
    using wpD_Ok [OF wp_boot_vm [OF panics_within_all assms(1,2)] assms(4)] assms(3) by simp
  then show ?thesis
    by (auto simp: boots_def table_ok_def MAX_INSTANTIATED_VMS_def map_laws)
qed

definition demo_fresh :: "(toy, unit, toy, nat) scheduler" where
  "demo_fresh = sched_new sample_tx"

lemma demo_fresh_table: "table_ok demo_fresh" "vms demo_fresh = {}"
proof -
  have "insts demo_fresh = {}" "susps demo_fresh = {}"
    by (auto simp: insts_def susps_def demo_fresh_def sched_new_def map_laws)
  then show "table_ok demo_fresh" "vms demo_fresh = {}"
    by (auto simp: table_ok_def inst_wf_def vms_def demo_fresh_def sched_new_def map_laws)
qed

lemma demo_boot:
  "fst (boot_vm (toy_env True (\<lambda>_. [])) Program 0 0 [] demo_fresh) = Ok 0"
  by (simp add: boot_vm_def prog_defs demo_fresh_def sched_new_def MAX_INSTANTIATED_VMS_def
      create_dummy_vm_def on_local_def load_program_def load_data_def load_full_def slice_data_def
      sample_tx_def transferred_byte_cycles_def BYTES_PER_CYCLE_def FIRST_VM_ID_def Let_def)

theorem boot_vm_boots_witness:
  "0 \<in> insts (snd (boot_vm (toy_env True (\<lambda>_. [])) Program 0 0 [] demo_fresh))"
  using boot_vm_boots [of demo_fresh "toy_env True (\<lambda>_. [])" Program 0 0 "[]" 0
      "snd (boot_vm (toy_env True (\<lambda>_. [])) Program 0 0 [] demo_fresh)"] demo_boot demo_fresh_table
  by (simp add: prod_eq_iff)


section \<open>Properties of messages and pipes\<close>

text \<open>
  C3: carrying out a message of a runnable VM has exactly the effect its specification
  \<open>a_message\<close> gives it, on the VM states, the pipe owners, the exit codes and both counters:
  whichever branch the handler takes, whether the machines it answers were instantiated or not.
\<close>

theorem process_message_refines:
  assumes "overflow_checks env" and "sched_ok s"
    and "bt_get (states s) (message_from msg) = Some Runnable" and "message_ok tx msg"
    and "process_message env msg s = (Ok (), s')"
  shows "sched_ok s' \<and> abs_of s' = a_message msg (abs_of s) \<and> total_cycles s' = total_cycles s"
  using wpD_Ok [OF wp_process_message [OF panics_within_all assms(1-4)] assms(5)]
  by (simp add: advanced_def same_frame_def)

definition demo_join :: message where
  "demo_join = MJoin 0 \<lparr>jn_target_id = 9, jn_exit_code_addr = 64\<rparr>"

lemma demo_process_join:
  "process_message (toy_env True (\<lambda>_. [])) demo_join (demo_sched []) =
   (Ok (), (demo_sched [])\<lparr>instantiated :=
      [(0, (demo_context 0, toy_new\<lparr>t_regs := (t_regs toy_new)(10 := 5)\<rparr>))]\<rparr>)"
  by (simp add: demo_join_def message_join_def prog_defs demo_sched_def reply_def finish_def
      ensure_vms_instantiated_def with_machine_def with_vm_def bt_contains_def bt_get_def hm_get_def
      MAX_INSTANTIATED_VMS_def JOIN_FAILURE_def demo_context_def toy_new_def)

theorem process_message_refines_witness:
  "abs_of ((demo_sched [])\<lparr>instantiated :=
      [(0, (demo_context 0, toy_new\<lparr>t_regs := (t_regs toy_new)(10 := 5)\<rparr>))]\<rparr>)
    = a_message demo_join (abs_of (demo_sched []))"
  using process_message_refines [OF _ _ _ _ demo_process_join, where tx = sample_tx] demo_settled [of "[]"]
  by (simp add: settled_def demo_join_def) (simp add: demo_sched_def bt_get_def)

text \<open>
  C2: a successful \<open>process_io\<close> gives every VM the state the specification \<open>a_io\<close> computes from
  the VM states and pipe owners alone. So the outcome depends neither on the order in which
  pairs are served nor on which machines were instantiated, and nothing else changes.
\<close>

theorem process_io_refines:
  assumes "sched_ok s" and "process_io env s = (Ok (), s')"
  shows "sched_ok s' \<and> abs_of s' = a_io (abs_of s) \<and> total_cycles s' = total_cycles s
    \<and> message_box s' = message_box s"
  using wpD_Ok [OF wp_process_io [OF panics_within_all assms(1)] assms(2)]
  by (simp add: advanced_def same_frame_def)

text \<open>
  VM 0 reads up to 10 bytes from pipe 2 while VM 1 writes 3 bytes to its other end; in
  \<open>demo_closed\<close> the writer is gone and the reader suspended.
\<close>

definition demo_io :: "(toy, unit, toy, nat) scheduler" where
  "demo_io = (demo_sched [])\<lparr>next_vm_id := 2, next_pipe_slot := 4,
     states := [(0, WaitForRead (PipeId 2) 10 64 128), (1, WaitForWrite (PipeId 3) 0 3 256 512)],
     pipes := [(PipeId 2, 0), (PipeId 3, 1)],
     instantiated := [(0, (demo_context 0, toy_new)), (1, (demo_context 1, toy_new))]\<rparr>"

definition demo_closed :: "(toy, unit, toy, nat) scheduler" where
  "demo_closed = (demo_sched [])\<lparr>next_vm_id := 2, next_pipe_slot := 4,
     states := [(0, WaitForRead (PipeId 2) 10 64 128)], pipes := [(PipeId 2, 0)],
     instantiated := [], suspended := [(0, toy_new)]\<rparr>"

lemma demo_pipes [simp]: "other_pipe (PipeId 2) = PipeId 3" "other_pipe (PipeId 3) = PipeId 2"
  "is_read (PipeId 2)" "is_write (PipeId 3)"
  by (simp_all add: other_pipe_def is_read_def is_write_def)

lemma demo_io_ok: "sched_ok demo_io"
proof -
  have "insts demo_io = {0, 1}" "susps demo_io = {}" "dom (bt_get (states demo_io)) = {0, 1}"
    by (auto simp: insts_def susps_def demo_io_def demo_sched_def bt_get_def hm_get_def dom_def split: if_splits)
  then show ?thesis
    by (auto simp: sched_ok_def table_ok_def vms_def inst_wf_def demo_io_def demo_sched_def
        demo_context_def bt_get_def hm_get_def MAX_INSTANTIATED_VMS_def ainv_def pipe_issued_def
        FIRST_PIPE_SLOT_def split: if_splits)
qed

lemma demo_closed_ok: "sched_ok demo_closed" "0 \<notin> insts demo_closed"
proof -
  have "insts demo_closed = {}" "susps demo_closed = {0}" "dom (bt_get (states demo_closed)) = {0}"
    by (auto simp: insts_def susps_def demo_closed_def demo_sched_def bt_get_def hm_get_def dom_def split: if_splits)
  then show "sched_ok demo_closed" "0 \<notin> insts demo_closed"
    by (auto simp: sched_ok_def table_ok_def vms_def inst_wf_def demo_closed_def demo_sched_def
        bt_get_def hm_get_def MAX_INSTANTIATED_VMS_def ainv_def pipe_issued_def
        FIRST_PIPE_SLOT_def split: if_splits)
qed

lemma demo_process_io: "fst (process_io (toy_env True (\<lambda>_. [])) demo_io) = Ok ()"
  by (simp add: process_io_def prog_defs demo_io_def demo_sched_def hm_contains_def hm_get_def
      ensure_vms_instantiated_def bt_contains_def bt_get_def MAX_INSTANTIATED_VMS_def Let_def
      with_machine_def with_vm_def demo_context_def toy_load_bytes_def toy_store_bytes_def
      in_memory_def finish_def insert_state_def le_bytes_def)

theorem process_io_refines_witness:
  "a_states (abs_of (snd (process_io (toy_env True (\<lambda>_. [])) demo_io))) 1 = Some Runnable"
  using process_io_refines [OF demo_io_ok, of "toy_env True (\<lambda>_. [])"
      "snd (process_io (toy_env True (\<lambda>_. [])) demo_io)"] demo_process_io
  by (simp add: prod_eq_iff) (simp add: demo_io_def bt_get_def hm_get_def peer_def Let_def)

text \<open>
  C13: a VM that waits on a pipe whose other end is closed and that is suspended at that moment
  blocks the scheduler: \<open>process_io\<close> unwraps its machine without instantiating it first, so the
  iteration panics (or fails before, on an earlier guest address), in every such state.
\<close>

theorem closed_pipe_of_suspended_vm:
  assumes "sched_ok s" and "waits_closed (abs_of s) v" and "v \<notin> insts s"
  shows "fst (process_io env s) \<noteq> Ok ()"
proof -
  let ?I = "\<lambda>D s'. reached s D s' \<and> insts s' = insts s"
  obtain xs ys where split: "closed_list s = xs @ v # ys"
    using assms(2) set_closed_list [OF assms(1)] by (metis mem_Collect_eq split_list)
  have d: "distinct (xs @ v # ys)" using distinct_closed_list [OF assms(1)] split by simp
  have w: "waits_closed (abs_of s) x" if "x \<in> set xs" for x
    using that set_closed_list [OF assms(1)] split by (metis UnCI mem_Collect_eq set_append)
  have before: "wp (for_each (finish_closed env) xs)
      (\<lambda>_. ?I ({} \<union> \<Union> ((\<lambda>v. {v}) ` set xs))) (\<lambda>_ _. True) (\<lambda>_. True) s"
  proof (rule wp_for_each_parts)
    fix x D s1 assume x: "x \<in> set xs" "?I D s1" "{x} \<inter> D = {}"
    then have "wp (finish_closed env x) (\<lambda>_. ?I (insert x D)) (\<lambda>_. unharmed s) (\<lambda>_. True) s1"
      by (intro wp_finish_closed [OF panics_within_all assms(1) w]) auto
    then show "wp (finish_closed env x) (\<lambda>_. ?I (D \<union> {x})) (\<lambda>_ _. True) (\<lambda>_. True) s1"
      by (rule wp_mono) auto
  qed (use d assms(1) in \<open>auto intro: reached_start\<close>)
  have stuck: "fst (finish_closed env v s1) \<noteq> Ok ()" if s1: "?I (set xs) s1" for s1
  proof -
    obtain st p where st: "a_states (abs_of s) v = Some st" "pipe_of st = Some p"
      using assms(2) by (auto simp: waits_closed_def)
    have "bt_get (states s1) v = Some st" using reached_state [of s "set xs" s1 v] s1 st(1) d by simp
    moreover have "bt_get (instantiated s1) v = None" using s1 assms(3) by (auto simp: insts_def)
    ultimately show ?thesis
      using st(2) by (cases st) (simp_all add: finish_closed_def prog_defs with_machine_def with_vm_missing)
  qed
  then have never: "finish_closed env v s1 \<noteq> (Ok (), s2)"
    if "reached s (set xs) s1" "insts s1 = insts s" for s1 s2
    using that by fastforce
  have "wp (for_each (finish_closed env) (xs @ v # ys)) (\<lambda>_ _. False) (\<lambda>_ _. True) (\<lambda>_. True) s"
    unfolding for_each_append for_each.simps
    by (rule wp_seq [OF before])
      (use never in \<open>auto simp: wp_def and_then_def split: prod.splits res.splits\<close>)
  then show ?thesis
    by (auto simp: wp_def process_io_loops and_then_def split split: prod.splits res.splits)
qed

theorem closed_pipe_of_suspended_vm_witness:
  "fst (process_io (toy_env True (\<lambda>_. [])) demo_closed) \<noteq> Ok ()"
  by (rule closed_pipe_of_suspended_vm [OF demo_closed_ok(1) _ demo_closed_ok(2)])
    (simp add: waits_closed_def demo_closed_def bt_get_def hm_get_def)

lemma demo_closed_panics: "fst (process_io (toy_env True (\<lambda>_. [])) demo_closed) = Panic UnwrapNone"
  by (simp add: process_io_def prog_defs demo_closed_def hm_contains_def hm_get_def finish_closed_def
      bt_get_def with_machine_def with_vm_def)


section \<open>Properties of the specification\<close>

lemma a_io_twice:
  assumes "ainv a"
  shows "a_io (a_io a) = a_io a"
proof -
  have "a_states (a_io (a_io a)) v = a_states (a_io a) v" for v
    using io_state_idem [OF assms, of v] by (cases "a_states a v") simp_all
  then show ?thesis by (intro asched.equality) (auto simp: fun_eq_iff)
qed



lemma pipe_of_cases:
  "pipe_of st = Some p \<longleftrightarrow> (\<exists>len b l. st = WaitForRead p len b l) \<or> (\<exists>c n b l. st = WaitForWrite p c n b l)"
  by (cases st) auto



text \<open>The specification right after the root VM has been booted.\<close>

definition a_start :: asched where
  "a_start = \<lparr>a_states = [ROOT_VM_ID \<mapsto> Runnable], a_pipes = Map.empty, a_terminated = Map.empty,
     a_next_vm = 1, a_next_slot = FIRST_PIPE_SLOT\<rparr>"

lemma a_start_ok: "ainv a_start \<and> codes_ok a_start"
  by (auto simp: a_start_def ainv_def codes_ok_def ROOT_VM_ID_def FIRST_VM_ID_def FIRST_PIPE_SLOT_def split: if_splits)


lemma a_start_exit: "asteps a_start [Exited ROOT_VM_ID 7] (a_exit ROOT_VM_ID 7 (a_io a_start))"
  by (rule asteps.more [OF astep.exits asteps.none]) (auto simp: picks_def a_start_def split: if_splits)




end
