(* ===== verification/Pipe_Data.thy ===== *)
theory Pipe_Data
  imports Scheduler_Correct
begin

text \<open>
  What a round of IO moves: the bytes of the writer's buffer, from the position reached so far, arrive
  in the reader's buffer, and the length cells and return values are set as the syscalls promise. The
  memory of a machine is that of ckb-vm; \<open>guest_memory\<close> is what its loads and stores do to it, over the
  contents \<open>mem\<close> of a machine, address by address. The sample machine obeys it.
\<close>

section \<open>Guest memory\<close>

definition written_at :: "u64 \<Rightarrow> bytes \<Rightarrow> (u64 \<Rightarrow> u8) \<Rightarrow> u64 \<Rightarrow> u8" where
  "written_at a bs f = (\<lambda>x. if unat (x - a) < length bs then bs ! unat (x - a) else f x)"

locale guest_memory =
  fixes env :: "('m, 'c, 's, 'e, 'z, 'd) ckb_env"
    and mem :: "'m \<Rightarrow> u64 \<Rightarrow> u8"
  assumes loaded: "load_bytes env a n m = (Ok bs, m') \<Longrightarrow>
          bs = map (\<lambda>i. mem m (a + of_nat i)) [0..<unat n] \<and> mem m' = mem m"
    and stored: "store_bytes env a bs m = (Ok (), m') \<Longrightarrow> mem m' = written_at a bs (mem m)"
    and stored64: "store64 env a v m = (Ok (), m') \<Longrightarrow> mem m' = written_at a (le_bytes v) (mem m)"
    and set_register_mem: "mem (set_register env r v m) = mem m"
    and set_register_same: "get_register env (set_register env A0 v m) A0 = v"

definition machine_of :: "('m, 'c, 's, 'd) scheduler \<Rightarrow> vm_id \<Rightarrow> 'm option" where
  "machine_of s vm = map_option snd (bt_get (instantiated s) vm)"

lemma and_then_Ok: "and_then f g s = (Ok b, s') \<longleftrightarrow> (\<exists>a s1. f s = (Ok a, s1) \<and> g a s1 = (Ok b, s'))"
  by (auto simp: and_then_def split: prod.splits res.splits)

lemma with_machine_Ok:
  assumes "with_machine vm f s = (Ok a, s')"
  obtains m m' where "machine_of s vm = Some m" and "f m = (Ok a, m')" and "machine_of s' vm = Some m'"
    and "\<And>v. v \<noteq> vm \<Longrightarrow> machine_of s' v = machine_of s v" and "states s' = states s"
  using assms
  by (auto simp: with_machine_def with_vm_def machine_of_def btree.lookup_upd split: option.splits prod.splits)

lemma insert_state_Ok:
  "insert_state vm st s = (Ok a, s') \<longleftrightarrow> s' = s\<lparr>states := bt_insert vm st (states s)\<rparr>"
  by (auto simp: insert_state_def modify_def)

lemma machine_of_states [simp]: "machine_of (s\<lparr>states := x\<rparr>) v = machine_of s v"
  by (simp add: machine_of_def)

lemma unat_index: "i < unat (k :: u64) \<Longrightarrow> unat (a + of_nat i - a :: u64) = i"
  using unat_bound_u64 [of k] by (simp add: unsigned_of_nat take_bit_nat_eq_self_iff)

lemma written_at_inside:
  "i < length bs \<Longrightarrow> i < 2 ^ 64 \<Longrightarrow> written_at a bs f (a + of_nat i) = bs ! i"
proof -
  assume "i < length bs" "i < 2 ^ 64"
  then have "unat (a + of_nat i - a) = i"
    by (simp add: unsigned_of_nat take_bit_nat_eq_self_iff)
  then show ?thesis
    using \<open>i < length bs\<close> unfolding written_at_def by simp
qed

lemma written_at_outside: "length bs \<le> unat (x - a) \<Longrightarrow> written_at a bs f x = f x"
  by (simp add: written_at_def)

lemma length_le_bytes [simp]: "length (le_bytes v) = 8"
  by (simp add: le_bytes_def)

text \<open>The \<open>n\<close> bytes from address \<open>a\<close> on.\<close>

definition buffer :: "(u64 \<Rightarrow> u8) \<Rightarrow> u64 \<Rightarrow> u64 \<Rightarrow> bytes" where
  "buffer f a n = map (\<lambda>i. f (a + of_nat i)) [0..<unat n]"

lemma buffer_written: "length bs = unat n \<Longrightarrow> buffer (written_at a bs f) a n = bs"
  using unat_bound_u64 [of n] by (intro nth_equalityI) (simp_all add: buffer_def written_at_inside)

lemma buffer_cong: "(\<And>i. i < unat n \<Longrightarrow> f (a + of_nat i) = g (a + of_nat i)) \<Longrightarrow> buffer f a n = buffer g a n"
  by (simp add: buffer_def)

lemma buffer_part:
  assumes "c \<le> n" and "k \<le> n - c"
  shows "buffer f (a + c) k = take (unat k) (drop (unat c) (buffer f a n))"
proof (rule nth_equalityI)
  have "unat c + unat k \<le> unat n"
    using assms by (simp add: word_le_nat_alt unat_sub)
  then show "length (buffer f (a + c) k) = length (take (unat k) (drop (unat c) (buffer f a n)))"
    by (simp add: buffer_def)
  fix i assume "i < length (buffer f (a + c) k)"
  then show "buffer f (a + c) k ! i = take (unat k) (drop (unat c) (buffer f a n)) ! i"
    using \<open>unat c + unat k \<le> unat n\<close> by (simp add: buffer_def add.assoc)
qed

context guest_memory
begin

lemma finish_Ok:
  assumes "and_then (store64 env a v) (\<lambda>_. finish env code) m = (Ok u, m')"
  shows "mem m' = written_at a (le_bytes v) (mem m) \<and> get_register env m' A0 = ucast code"
  using assms by (auto simp: and_then_Ok finish_def modify_def set_register_mem set_register_same dest!: stored64)

text \<open>
  The reader's memory after a transfer: the writer's bytes, then the length over them.
\<close>

lemma transfer_memory:
  assumes run: "transfer env ((r, WaitForRead q len b l), (w, WaitForWrite p c n b' l')) s = (Ok (), s')"
    and ready: "ensure_vms_instantiated env [r, w] s = (Ok (), s1)"
    and mr: "machine_of s1 r = Some mr" and mw: "machine_of s1 w = Some mw" and "r \<noteq> w" and c: "c \<le> n"
  shows "\<exists>mr' mw'. machine_of s' r = Some mr' \<and> machine_of s' w = Some mw' \<and>
    mem mr' = written_at l (le_bytes (min len (n - c)))
      (written_at b (map (\<lambda>i. mem mw (b' + c + of_nat i)) [0..<unat (min len (n - c))]) (mem mr)) \<and>
    get_register env mr' A0 = ucast SUCCESS \<and>
    (if c + min len (n - c) = n then mem mw' = written_at l' (le_bytes n) (mem mw) \<and> get_register env mw' A0 = ucast SUCCESS
     else mem mw' = mem mw)"
proof -
  let ?k = "min len (n - c)"
  note sub = sub_u64_ok [OF c] and add = add_u64_ok [OF add_min_fits [OF c, of len]]
  from run ready obtain d s2 s3 s4 where 2: "with_machine w (load_bytes env (b' + c) ?k) s1 = (Ok d, s2)"
    and 3: "with_machine r (store_bytes env b d) s2 = (Ok (), s3)"
    and 4: "with_machine r (and_then (store64 env l ?k) (\<lambda>_. finish env SUCCESS)) s3 = (Ok (), s4)"
    and 5: "(if c + ?k = n
       then and_then (with_machine w (and_then (store64 env l' n) (\<lambda>_. finish env SUCCESS))) (\<lambda>_. insert_state w Runnable)
       else insert_state w (WaitForWrite p (c + ?k) n b' l')) (s4\<lparr>states := bt_insert r Runnable (states s4)\<rparr>) = (Ok (), s')"
    by (auto simp: and_then_Ok sub add and_then_ret_left Let_def insert_state_Ok split del: if_split)
  from 2 obtain mw2 where mw2: "load_bytes env (b' + c) ?k mw = (Ok d, mw2)" "machine_of s2 w = Some mw2"
      "machine_of s2 r = Some mr"
    by (rule with_machine_Ok) (use mr mw \<open>r \<noteq> w\<close> in auto)
  from 3 obtain mr3 where mr3: "store_bytes env b d mr = (Ok (), mr3)" "machine_of s3 r = Some mr3"
      "machine_of s3 w = Some mw2"
    by (rule with_machine_Ok) (use mw2 \<open>r \<noteq> w\<close> in auto)
  from 4 obtain mr4 where mr4: "and_then (store64 env l ?k) (\<lambda>_. finish env SUCCESS) mr3 = (Ok (), mr4)"
      "machine_of s4 r = Some mr4" "machine_of s4 w = Some mw2"
    by (rule with_machine_Ok) (use mr3 \<open>r \<noteq> w\<close> in auto)
  have reader: "mem mr4 = written_at l (le_bytes ?k) (written_at b (map (\<lambda>i. mem mw (b' + c + of_nat i)) [0..<unat ?k]) (mem mr))"
      "get_register env mr4 A0 = ucast SUCCESS" and writer: "mem mw2 = mem mw"
    using finish_Ok [OF mr4(1)] stored [OF mr3(1)] loaded [OF mw2(1)] by simp_all
  show ?thesis
  proof (cases "c + ?k = n")
    case True
    with 5 obtain s5 where 6: "with_machine w (and_then (store64 env l' n) (\<lambda>_. finish env SUCCESS))
        (s4\<lparr>states := bt_insert r Runnable (states s4)\<rparr>) = (Ok (), s5)"
      and s': "s' = s5\<lparr>states := bt_insert w Runnable (states s5)\<rparr>"
      by (auto simp: and_then_Ok insert_state_Ok)
    from 6 obtain mw5 where mw5: "and_then (store64 env l' n) (\<lambda>_. finish env SUCCESS) mw2 = (Ok (), mw5)"
        "machine_of s5 w = Some mw5" "machine_of s5 r = Some mr4"
      by (rule with_machine_Ok) (use mr4 \<open>r \<noteq> w\<close> in auto)
    show ?thesis
      using True mw5(2,3) s' reader writer finish_Ok [OF mw5(1)] by auto
  next
    case False
    with 5 show ?thesis
      using mr4 reader writer by (auto simp: insert_state_Ok)
  qed
qed

text \<open>What the reader finds in its buffer, when its length cell lies outside.\<close>

lemma transfer_buffer:
  assumes "transfer env ((r, WaitForRead q len b l), (w, WaitForWrite p c n b' l')) s = (Ok (), s')"
    and "ensure_vms_instantiated env [r, w] s = (Ok (), s1)"
    and "machine_of s1 r = Some mr" and "machine_of s1 w = Some mw" and "r \<noteq> w" and "c \<le> n"
    and "\<forall>i < unat (min len (n - c)). 8 \<le> unat (b + of_nat i - l)"
    and "machine_of s' r = Some mr'"
  shows "buffer (mem mr') b (min len (n - c)) = buffer (mem mw) (b' + c) (min len (n - c))"
proof -
  let ?k = "min len (n - c)" and ?bytes = "buffer (mem mw) (b' + c) (min len (n - c))"
  have "mem mr' = written_at l (le_bytes ?k) (written_at b ?bytes (mem mr))"
    using transfer_memory [OF assms(1-6)] assms(8) by (auto simp: buffer_def)
  then have "buffer (mem mr') b ?k = buffer (written_at b ?bytes (mem mr)) b ?k"
    using assms(7) by (intro buffer_cong) (simp add: written_at_outside)
  also have "\<dots> = ?bytes"
    by (rule buffer_written) (simp add: buffer_def)
  finally show ?thesis .
qed

end

lemma poke_bytes_written: "length bs < 2 ^ 64 \<Longrightarrow> poke_bytes a bs f = written_at a bs f"
proof (induction bs arbitrary: a f)
  case Nil
  then show ?case by (simp add: poke_bytes_def written_at_def)
next
  case (Cons b bs)
  show ?case
  proof
    fix x
    have "poke_bytes a (b # bs) f x = written_at (a + 1) bs (f(a := b)) x"
      using Cons by (simp add: poke_bytes_def)
    moreover have "unat (x - a) = Suc (unat (x - (a + 1)))" if "x \<noteq> a"
    proof -
      have pos: "0 < unat (x - a)"
        using that by (metis gr0I right_minus_eq unsigned_eq_0_iff)
      then have "unat (x - a - 1) = unat (x - a) - 1"
        by (subst unat_sub) (simp_all add: word_le_nat_alt)
      with pos show ?thesis
        by (simp add: diff_diff_eq)
    qed
    moreover have "unat (a - (a + 1)) = 2 ^ 64 - 1"
      by (simp add: unsigned_minus_1_eq_mask mask_eq_exp_minus_1)
    ultimately show "poke_bytes a (b # bs) f x = written_at a (b # bs) f x"
      using Cons.prems by (cases "x = a") (simp_all add: written_at_def)
  qed
qed

interpretation toy: guest_memory "toy_env chk scripts" t_mem for chk scripts
proof (unfold_locales, goal_cases)
  case (2 a bs m m')
  then show ?case
    by (auto simp: toy_store_bytes_def in_memory_def poke_bytes_written split: if_splits)
next
  case (3 a v m m')
  then show ?case
    by (auto simp: toy_store_bytes_def in_memory_def poke_bytes_written split: if_splits)
qed (auto simp: toy_load_bytes_def split: if_splits)

section \<open>A write read in several parts\<close>

text \<open>
  \<open>delivers ... data c s chunks c'\<close>: from scheduler \<open>s\<close> on, a writer that waits at position \<open>c\<close> is paired with
  one reader after the other, who find \<open>chunks\<close> in their buffers, until it has reached \<open>c'\<close>. Between two
  transfers the scheduler may do anything: all that is asked is that the writer still waits at the
  position reached, with \<open>data\<close> in its buffer, and that a reader does not let its length cell overlap its buffer.
\<close>

inductive delivers :: "('m, 'c, 's, 'e, 'z, 'd) ckb_env \<Rightarrow> ('m \<Rightarrow> u64 \<Rightarrow> u8) \<Rightarrow> vm_id \<Rightarrow> pipe_id \<Rightarrow> u64 \<Rightarrow> u64 \<Rightarrow> u64 \<Rightarrow>
    bytes \<Rightarrow> u64 \<Rightarrow> ('m, 'c, 's, 'd) scheduler \<Rightarrow> bytes list \<Rightarrow> u64 \<Rightarrow> bool"
  for env mem w p n b' l' data where
  paused: "delivers env mem w p n b' l' data c s [] c"
| part: "bt_get (states s) w = Some (WaitForWrite p c n b' l') \<Longrightarrow> bt_get (states s) r = Some (WaitForRead q len b l) \<Longrightarrow>
    transfer env ((r, WaitForRead q len b l), (w, WaitForWrite p c n b' l')) s = (Ok (), s') \<Longrightarrow>
    ensure_vms_instantiated env [r, w] s = (Ok (), s1) \<Longrightarrow>
    machine_of s1 r = Some mr \<Longrightarrow> machine_of s1 w = Some mw \<Longrightarrow> buffer (mem mw) b' n = data \<Longrightarrow>
    \<forall>i < unat (min len (n - c)). 8 \<le> unat (b + of_nat i - l) \<Longrightarrow>
    machine_of s' r = Some mr' \<Longrightarrow> k = min len (n - c) \<Longrightarrow>
    delivers env mem w p n b' l' data (c + k) s2 chunks c' \<Longrightarrow>
    delivers env mem w p n b' l' data c s (buffer (mem mr') b k # chunks) c'"

lemma word_min_fits:
  assumes "(c :: u64) \<le> n" and "k = min len (n - c)"
  shows "k \<le> n - c" and "c + k \<le> n" and "unat (c + k) = unat c + unat k"
proof -
  have fits: "unat c + unat k < 2 ^ 64"
    unfolding assms(2) by (rule add_min_fits [OF assms(1)])
  show "k \<le> n - c"
    by (simp add: assms(2))
  show "c + k \<le> n"
    unfolding assms(2) by (rule min_le_diff [OF assms(1)])
  show "unat (c + k) = unat c + unat k"
    using fits by (rule unat_add_small)
qed

context guest_memory
begin

lemma delivers_bytes:
  "delivers env mem w p n b' l' data c s chunks c' \<Longrightarrow> c \<le> n \<Longrightarrow> length data = unat n \<Longrightarrow>
    c \<le> c' \<and> c' \<le> n \<and> concat chunks = take (unat c' - unat c) (drop (unat c) data)"
proof (induction rule: delivers.induct)
  case (paused c s)
  then show ?case by simp
next
  case (part s c r q len b l s' s1 mr mw mr' k s2 chunks c')
  note k = word_min_fits [OF part.prems(1) part.hyps(10)]
  have IH: "c + k \<le> c'" "c' \<le> n" "concat chunks = take (unat c' - unat (c + k)) (drop (unat (c + k)) data)"
    using part.IH [OF k(2) part.prems(2)] by simp_all
  have "r \<noteq> w"
    using part.hyps(1,2) by auto
  then have "buffer (mem mr') b k = buffer (mem mw) (b' + c) k"
    using transfer_buffer [OF part.hyps(3-6) _ part.prems(1) part.hyps(8,9)] part.hyps(10) by simp
  then have "buffer (mem mr') b k = take (unat k) (drop (unat c) data)"
    using buffer_part [OF part.prems(1) k(1), of "mem mw" b'] part.hyps(7) by simp
  then have "concat (buffer (mem mr') b k # chunks)
      = take (unat k) (drop (unat c) data) @ take (unat c' - (unat c + unat k)) (drop (unat k) (drop (unat c) data))"
    by (simp add: IH(3) k(3) add.commute)
  also have "\<dots> = take (unat k + (unat c' - (unat c + unat k))) (drop (unat c) data)"
    by (rule take_add [symmetric])
  finally show ?case
    using IH(1,2) k(3) by (simp add: word_le_nat_alt)
qed

end

section \<open>Properties\<close>


text \<open>Three bytes go from address 256 of VM 1 to address 64 of VM 0.\<close>

definition demo_write :: "(toy, unit, toy, nat) scheduler" where
  "demo_write = demo_io\<lparr>instantiated := [(0, (demo_context 0, toy_new)),
     (1, (demo_context 1, toy_new\<lparr>t_mem := written_at 256 [7, 8, 9] (\<lambda>_. 0)\<rparr>))]\<rparr>"

abbreviation demo_transfer :: "(toy, unit, toy, nat) scheduler \<Rightarrow> unit res \<times> (toy, unit, toy, nat) scheduler" where
  "demo_transfer \<equiv> transfer (toy_env True (\<lambda>_. []))
     ((0, WaitForRead (PipeId 2) 10 64 128), (1, WaitForWrite (PipeId 3) 0 3 256 512))"

lemma demo_write_runs:
  "demo_transfer demo_write = (Ok (), snd (demo_transfer demo_write))"
  "ensure_vms_instantiated (toy_env True (\<lambda>_. [])) [0, 1] demo_write = (Ok (), demo_write)"
  "machine_of demo_write 0 = Some toy_new"
  "machine_of demo_write 1 = Some (toy_new\<lparr>t_mem := written_at 256 [7, 8, 9] (\<lambda>_. 0)\<rparr>)"
  by (simp_all add: prod_eq_iff demo_write_def demo_io_def demo_sched_def machine_of_def prog_defs hm_contains_def hm_get_def
      ensure_vms_instantiated_def bt_contains_def bt_get_def MAX_INSTANTIATED_VMS_def Let_def
      with_machine_def with_vm_def demo_context_def toy_load_bytes_def toy_store_bytes_def
      in_memory_def finish_def insert_state_def le_bytes_def)



text \<open>The three bytes of VM 1, read by VM 0 in parts of two and one.\<close>

definition demo_part :: "u64 \<Rightarrow> u64 \<Rightarrow> (toy, unit, toy, nat) scheduler" where
  "demo_part c len = demo_write\<lparr>states := [(0, WaitForRead (PipeId 2) len 64 128), (1, WaitForWrite (PipeId 3) c 3 256 512)]\<rparr>"

abbreviation demo_transfer_part :: "u64 \<Rightarrow> u64 \<Rightarrow> unit res \<times> (toy, unit, toy, nat) scheduler" where
  "demo_transfer_part c len \<equiv> transfer (toy_env True (\<lambda>_. []))
     ((0, WaitForRead (PipeId 2) len 64 128), (1, WaitForWrite (PipeId 3) c 3 256 512)) (demo_part c len)"

lemma demo_part_runs:
  assumes "c = 0 \<and> len = 2 \<or> c = 2 \<and> len = 10"
  shows "demo_transfer_part c len = (Ok (), snd (demo_transfer_part c len))"
    and "\<exists>m. machine_of (snd (demo_transfer_part c len)) 0 = Some m"
  using assms
  by (auto simp: prod_eq_iff demo_part_def demo_write_def demo_io_def demo_sched_def machine_of_def prog_defs hm_contains_def hm_get_def
      ensure_vms_instantiated_def bt_contains_def bt_get_def MAX_INSTANTIATED_VMS_def Let_def sub_u64_def add_u64_def min_def
      with_machine_def with_vm_def demo_context_def toy_load_bytes_def toy_store_bytes_def word_le_nat_alt
      in_memory_def finish_def insert_state_def le_bytes_def)

lemma demo_part_ready:
  "ensure_vms_instantiated (toy_env True (\<lambda>_. [])) [0, 1] (demo_part c len) = (Ok (), demo_part c len)"
  "bt_get (states (demo_part c len)) 1 = Some (WaitForWrite (PipeId 3) c 3 256 512)"
  "bt_get (states (demo_part c len)) 0 = Some (WaitForRead (PipeId 2) len 64 128)"
  "machine_of (demo_part c len) 0 = Some toy_new"
  "machine_of (demo_part c len) 1 = Some (toy_new\<lparr>t_mem := written_at 256 [7, 8, 9] (\<lambda>_. 0)\<rparr>)"
  by (simp_all add: prod_eq_iff demo_part_def demo_write_def demo_io_def demo_sched_def machine_of_def prog_defs
      ensure_vms_instantiated_def bt_contains_def bt_get_def MAX_INSTANTIATED_VMS_def Let_def demo_context_def)

lemma demo_deliver:
  assumes "c = 0 \<and> len = 2 \<or> c = 2 \<and> len = 10"
    and "delivers (toy_env True (\<lambda>_. [])) t_mem 1 (PipeId 3) 3 256 512 [7, 8, 9] (c + min len (3 - c)) s2 chunks c'"
  shows "\<exists>chunk. delivers (toy_env True (\<lambda>_. [])) t_mem 1 (PipeId 3) 3 256 512 [7, 8, 9] c (demo_part c len) (chunk # chunks) c'"
proof -
  obtain m where m: "machine_of (snd (demo_transfer_part c len)) 0 = Some m"
    using demo_part_runs(2) [OF assms(1)] by blast
  have data: "buffer (t_mem (toy_new\<lparr>t_mem := written_at 256 [7, 8, 9] (\<lambda>_. 0)\<rparr>)) 256 3 = [7, 8, 9]"
    using buffer_written [of "[7, 8, 9]" 3] by simp
  have small: "unat (min len (3 - c)) \<le> 2"
    using assms(1) by (auto simp: min_def word_le_nat_alt)
  have "8 \<le> unat (64 + of_nat i - 128 :: u64)" if "i < unat (min len (3 - c))" for i
  proof -
    have "i = 0 \<or> i = 1" using that small by linarith
    then show ?thesis by auto
  qed
  then show ?thesis
    using delivers.part [OF demo_part_ready(2,3) demo_part_runs(1) [OF assms(1)] demo_part_ready(1,4,5) data _ m refl assms(2)]
    by blast
qed


end
