(* ===== verification/Suspend_Resume.thy ===== *)
theory Suspend_Resume
  imports Scheduler_Correct
begin

text \<open>
  Writing a scheduler out and reading it back: \<open>sched_suspend\<close> followed by \<open>sched_resume\<close> gives a
  scheduler with the same abstract state, all of whose VMs are suspended.
\<close>

section \<open>Suspending every machine\<close>

lemma wp_suspend_keeps_others:
  "wp (suspend_vm env vm) (\<lambda>_ s'. \<forall>v. v \<noteq> vm \<longrightarrow> hm_get (suspended s') v = hm_get (suspended s) v)
     (\<lambda>_ _. True) (\<lambda>_. True) s"
  by (auto simp: wp_def suspend_vm_def with_vm_def prog_defs map_laws split: option.splits prod.splits res.splits)

definition evicted :: "('m, 'c, 's, 'd) scheduler \<Rightarrow> vm_id set \<Rightarrow> ('m, 'c, 's, 'd) scheduler \<Rightarrow> bool" where
  "evicted s D s' \<longleftrightarrow> table_kept s s' \<and> insts s' = insts s - D
     \<and> (\<forall>v \<in> susps s. hm_get (suspended s') v = hm_get (suspended s) v)"

lemma wp_suspend_all:
  assumes "panics_within env X" and "table_ok s"
  shows "wp (for_each (suspend_vm env) (bt_keys (instantiated s)))
    (\<lambda>_ s'. evicted s (insts s) s') (\<lambda>_ _. True) X s"
proof -
  have wf: "bt_wf (instantiated s)" using assms(2) by (simp add: table_ok_def inst_wf_bt)
  have "wp (for_each (suspend_vm env) (bt_keys (instantiated s)))
    (\<lambda>_ s'. evicted s ({} \<union> \<Union> ((\<lambda>v. {v}) ` set (bt_keys (instantiated s)))) s') (\<lambda>_ _. True) X s"
  proof (rule wp_for_each_parts)
    fix v D s1
    assume v: "v \<in> set (bt_keys (instantiated s))" and s1: "evicted s D s1" and new: "{v} \<inter> D = {}"
    have here: "v \<in> insts s1" using v s1 new by (auto simp: evicted_def)
    have tab: "table_ok s1" using s1 by (simp add: evicted_def)
    have out: "v \<notin> susps s" using v assms(2) by (auto simp: table_ok_def)
    have "wp (suspend_vm env v) (\<lambda>_ s2. (table_kept s1 s2 \<and> insts s2 = insts s1 - {v})
        \<and> (\<forall>u. u \<noteq> v \<longrightarrow> hm_get (suspended s2) u = hm_get (suspended s1) u)) (\<lambda>_ _. True) X s1"
      using wp_suspend_table [OF assms(1) tab here] wp_suspend_keeps_others [of env v s1]
      by (auto simp: wp_def split: prod.splits res.splits)
    then show "wp (suspend_vm env v) (\<lambda>_. evicted s (D \<union> {v})) (\<lambda>_ _. True) X s1"
      by (rule wp_mono) (use s1 out in \<open>auto simp: evicted_def intro: same_trans\<close>)
  qed (use wf assms(2) in \<open>auto simp: bt_wf_def evicted_def\<close>)
  then show ?thesis by simp
qed

lemma take_snapshots_Ok:
  assumes "distinct (map fst xs)" and "\<forall>v \<in> fst ` set xs. hm_get (suspended s) v \<noteq> None"
  shows "take_snapshots xs out s =
    (Ok (out @ map (\<lambda>(v, st). (v, st, the (hm_get (suspended s) v))) xs),
     s\<lparr>suspended := fold hm_remove (map fst xs) (suspended s)\<rparr>)"
  using assms
proof (induction xs arbitrary: out s)
  case Nil
  then show ?case by (simp add: prog_defs)
next
  case (Cons x xs)
  obtain v st where x: "x = (v, st)" by fastforce
  obtain snap where snap: "hm_get (suspended s) v = Some snap" using Cons.prems(2) x by auto
  let ?s = "s\<lparr>suspended := hm_remove v (suspended s)\<rparr>"
  have same: "hm_get (suspended ?s) u = hm_get (suspended s) u" if "u \<in> fst ` set xs" for u
    using that Cons.prems(1) x by (auto simp: map_laws)
  have "take_snapshots xs (out @ [(v, st, snap)]) ?s =
    (Ok ((out @ [(v, st, snap)]) @ map (\<lambda>(v, st). (v, st, the (hm_get (suspended ?s) v))) xs),
     ?s\<lparr>suspended := fold hm_remove (map fst xs) (suspended ?s)\<rparr>)"
    by (rule Cons.IH) (use Cons.prems x same in auto)
  moreover have "map (\<lambda>(v, st). (v, st, the (hm_get (suspended ?s) v))) xs =
      map (\<lambda>(v, st). (v, st, the (hm_get (suspended s) v))) xs"
    using same by (intro map_cong) force+
  ultimately show ?case using x snap by (simp add: prog_defs)
qed

text \<open>The suspended form of a scheduler whose VMs are all suspended in \<open>s1\<close>.\<close>

definition written_out :: "('m, 'c, 's, 'd) scheduler \<Rightarrow> 's full_suspended_state" where
  "written_out s1 = \<lparr>fs_total_cycles = total_cycles s1, fs_next_vm_id = next_vm_id s1,
     fs_next_pipe_slot = next_pipe_slot s1,
     fs_vms = map (\<lambda>(v, st). (v, st, the (hm_get (suspended s1) v))) (states s1),
     fs_pipes = pipes s1, fs_terminated_vms = terminated_vms s1\<rparr>"

lemma wp_sched_suspend:
  assumes "panics_within env X" and "sched_ok s"
  shows "wp (sched_suspend env)
    (\<lambda>full _. \<exists>s1. evicted s (insts s) s1 \<and> full = written_out s1) (\<lambda>_ _. True) X s"
proof -
  have tab: "table_ok s" using assms(2) by (simp add: sched_ok_def)
  show ?thesis
    unfolding sched_suspend_def wp_first
  proof (rule wp_seq [OF wp_suspend_all [OF assms(1) tab]])
    fix u s1 assume s1: "evicted s (insts s) s1"
    then have ok: "sched_ok s1" using sched_ok_kept [OF assms(2)] by (simp add: evicted_def)
    have none: "insts s1 = {}" using s1 by (simp add: evicted_def)
    then have sus: "susps s1 = dom (bt_get (states s1))"
      using ok by (simp add: sched_ok_def vms_def)
    have d: "distinct (map fst (states s1))" using ok by (simp add: sched_ok_def bt_wf_def bt_keys_def)
    have "v \<in> susps s1" if "v \<in> fst ` set (states s1)" for v
      unfolding sus using that set_bt_keys [of "states s1"] by (simp add: bt_keys_def)
    then have all: "\<forall>v \<in> fst ` set (states s1). hm_get (suspended s1) v \<noteq> None"
      by (auto simp: susps_def)
    show "wp (and_then (gets states) (\<lambda>all. and_then (take_snapshots all []) (\<lambda>out.
        gets (\<lambda>s. \<lparr>fs_total_cycles = total_cycles s, fs_next_vm_id = next_vm_id s,
          fs_next_pipe_slot = next_pipe_slot s, fs_vms = out, fs_pipes = pipes s,
          fs_terminated_vms = terminated_vms s\<rparr>))))
      (\<lambda>full _. \<exists>s1. evicted s (insts s) s1 \<and> full = written_out s1) (\<lambda>_ _. True) X s1"
      using s1 by (auto simp: wp_first wp_known [where f = "take_snapshots (states s1) []", OF take_snapshots_Ok [OF d all]] wp_gets written_out_def)
  qed simp
qed

section \<open>Reading it back\<close>

lemma hm_collect_lookup: "hm_wf m \<Longrightarrow> hm_get (hm_collect m) = hm_get m"
  using hash.lookup_collect_entries [of m] by (simp add: hm_collect_def)

lemma hm_collect_wf: "hm_wf (hm_collect kvs)"
  unfolding hm_collect_def by (rule hash.inv_collect) simp

lemma bt_collect_same: "bt_wf m \<Longrightarrow> bt_collect m = m"
  using btree.lookup_collect_entries [of m] btree.inv_collect [of "[]" m]
  by (intro bt_eqI) (simp_all add: bt_collect_def)

lemma resumed_ok:
  assumes "sched_ok s1" and "insts s1 = {}"
    and t_def: "t = sched_resume tx (written_out s1)"
  shows "states t = states s1" and "abs_of t = abs_of s1" and "sched_ok t" and "insts t = {}"
    and "v \<in> dom (bt_get (states s1)) \<Longrightarrow> hm_get (suspended t) v = hm_get (suspended s1) v"
proof -
  have wf: "bt_wf (states s1)" "hm_wf (pipes s1)" "hm_wf (terminated_vms s1)" "table_ok s1"
    "vms s1 = dom (bt_get (states s1))"
    using assms(1) by (auto simp: sched_ok_def)
  have "map (\<lambda>(vm, st, _). (vm, st)) (fs_vms (written_out s1)) = states s1"
    by (simp add: written_out_def case_prod_unfold comp_def)
  then show st: "states t = states s1"
    using bt_collect_same [OF wf(1)] by (simp add: t_def sched_resume_def)
  show a: "abs_of t = abs_of s1"
    using st hm_collect_lookup [OF wf(2)] hm_collect_lookup [OF wf(3)]
    by (simp add: abs_of_def t_def sched_resume_def written_out_def)
  let ?kvs = "map (\<lambda>(vm, _, snapshot). (vm, snapshot)) (fs_vms (written_out s1))"
  have kvs: "?kvs = map (\<lambda>(v, st). (v, the (hm_get (suspended s1) v))) (states s1)"
    by (simp add: written_out_def case_prod_unfold comp_def)
  have keys: "map fst ?kvs = bt_keys (states s1)"
    unfolding kvs by (simp add: bt_keys_def case_prod_unfold comp_def)
  then have kwf: "hm_wf ?kvs" using wf(1) by (simp add: hm_wf_def hm_keys_def bt_wf_def)
  have sus: "hm_get (suspended t) = hm_get ?kvs"
    using hm_collect_lookup [OF kwf] by (simp add: t_def sched_resume_def)
  have dom: "dom (hm_get ?kvs) = dom (bt_get (states s1))"
    using keys set_bt_keys [of "states s1"] dom_map_of_conv_image_fst [of ?kvs]
    by (simp add: hm_get_def [abs_def] flip: keys set_map)
  have all: "susps s1 = dom (bt_get (states s1))" using wf(5) assms(2) by (simp add: vms_def)
  show "hm_get (suspended t) v = hm_get (suspended s1) v" if v: "v \<in> dom (bt_get (states s1))"
  proof -
    obtain x where x: "hm_get ?kvs v = Some x" using v dom by blast
    then have "(v, x) \<in> set ?kvs" unfolding hm_get_def by (rule map_of_SomeD)
    then have "x = the (hm_get (suspended s1) v)" unfolding kvs by auto
    moreover have "v \<in> susps s1" using v all by simp
    ultimately show ?thesis using x sus by (auto simp: susps_def)
  qed
  show i: "insts t = {}" by (auto simp: insts_def t_def sched_resume_def bt_get_def)
  have sd: "susps t = dom (bt_get (states s1))" using sus dom by (simp add: susps_def)
  have "table_ok t"
    unfolding table_ok_def i using hm_collect_wf
    by (simp add: inst_wf_def t_def sched_resume_def bt_get_def)
  moreover have "vms t = dom (bt_get (states t))" by (simp add: vms_def i sd st)
  moreover have "hm_wf (pipes t)" "hm_wf (terminated_vms t)"
    using hm_collect_wf by (simp_all add: t_def sched_resume_def)
  ultimately show "sched_ok t"
    using a st wf(1) assms(1) by (simp add: sched_ok_def)
qed

text \<open>
  C8: suspending a scheduler and resuming it from the result gives a scheduler in the same abstract
  state, with the same cycles, that satisfies the invariant, has an empty message box, and keeps
  the snapshot of every VM that was already suspended. The tables being in agreement, no \<open>unwrap\<close>
  of \<open>suspend\<close> fails: it panics only where the snapshot code does.
\<close>

theorem suspend_resume_round_trip:
  assumes "panics_within env X" and "sched_ok s" and "sched_suspend env s = (r, s')"
  shows "(\<forall>full t. r = Ok full \<longrightarrow> t = sched_resume tx full \<longrightarrow>
      sched_ok t \<and> abs_of t = abs_of s \<and> states t = states s
      \<and> consumed_cycles t = consumed_cycles s \<and> message_box t = []
      \<and> (\<forall>v \<in> susps s. hm_get (suspended t) v = hm_get (suspended s) v))
    \<and> (\<forall>k. r = Panic k \<longrightarrow> X k)"
proof (intro conjI allI impI)
  fix full t assume "r = Ok full" and t: "t = sched_resume tx full"
  with wpD_Ok [OF wp_sched_suspend [OF assms(1,2)]] assms(3)
  obtain s1 where s1: "evicted s (insts s) s1" and full: "full = written_out s1" by blast
  have ok: "sched_ok s1" and none: "insts s1 = {}" and same: "same_but_table s s1"
    using s1 sched_ok_kept [OF assms(2)] by (auto simp: evicted_def)
  note R = resumed_ok [OF ok none t [unfolded full]]
  show "sched_ok t" by (rule R(3))
  show "abs_of t = abs_of s" using R(2) same_but_table_abs [OF same] by simp
  show "states t = states s" using R(1) same by (simp add: same_but_table_def)
  show "consumed_cycles t = consumed_cycles s"
    using same by (simp add: t consumed_cycles_def sched_resume_def full written_out_def same_but_table_def)
  show "message_box t = []" by (simp add: t sched_resume_def)
  show "\<forall>v \<in> susps s. hm_get (suspended t) v = hm_get (suspended s) v"
  proof
    fix v assume v: "v \<in> susps s"
    have "v \<in> dom (bt_get (states s1))"
      using v assms(2) same by (auto simp: sched_ok_def vms_def same_but_table_def)
    with R(5) v s1 show "hm_get (suspended t) v = hm_get (suspended s) v"
      by (simp add: evicted_def)
  qed
next
  fix k assume "r = Panic k"
  with wpD_Panic [OF wp_sched_suspend [OF assms(1,2)]] assms(3) show "X k" by blast
qed

theorem suspend_resume_round_trip_witness:
  "\<exists>full s' t. sched_suspend (toy_env True (\<lambda>_. [])) demo_closed = (Ok full, s')
     \<and> t = (sched_resume sample_tx full :: (toy, unit, toy, nat) scheduler)
     \<and> abs_of t = abs_of demo_closed"
proof -
  let ?r = "sched_suspend (toy_env True (\<lambda>_. [])) demo_closed"
  have "\<exists>full. fst ?r = Ok full"
    by (simp add: sched_suspend_def prog_defs demo_closed_def hm_get_def)
  then obtain full where r: "?r = (Ok full, snd ?r)" by (metis prod.collapse)
  have "panics_within (toy_env True (\<lambda>_. [])) (\<lambda>_. True)" by (rule panics_within_all)
  from suspend_resume_round_trip [OF this demo_closed_ok(1) r, of sample_tx] r show ?thesis by blast
qed

section \<open>Two schedulers that cannot run\<close>

text \<open>
  When the first boot fails, \<open>next_vm_id\<close> has already been advanced: the scheduler still has no VM, but the
  next call of \<open>run\<close> boots VM 1, which is not the root, so no later call of \<open>run\<close> can succeed.
\<close>

lemma boot_vm_first:
  assumes "instantiated s = []"
  shows "boot_vm env piece off len args s = and_then (add_u64 (overflow_checks env) (next_vm_id s) 1) (\<lambda>next_id.
     and_then (modify (\<lambda>s. s\<lparr>next_vm_id := next_id\<rparr>)) (\<lambda>_.
     and_then (create_dummy_vm env (next_vm_id s)) (\<lambda>(ctx, machine).
     and_then (on_local (load_program env (mc_data_source ctx) piece off len args)
         (mc_snapshot2_context ctx, machine)) (\<lambda>(_, c, m).
     and_then (modify (\<lambda>s'. s'\<lparr>
         instantiated := bt_insert (next_vm_id s) (ctx\<lparr>mc_snapshot2_context := c\<rparr>, m) (instantiated s'),
         states := bt_insert (next_vm_id s) Runnable (states s')\<rparr>)) (\<lambda>_.
     ret (next_vm_id s)))))) s"
  by (simp add: boot_vm_def and_then_def gets_def ret_def assms MAX_INSTANTIATED_VMS_def)

lemma boot_vm_first_cases:
  assumes "instantiated s = []" and "boot_vm env piece off len args s = (r, s')"
  shows "case r of Ok vm \<Rightarrow> vm = next_vm_id s
    | Err e \<Rightarrow> states s' = states s \<and> instantiated s' = [] \<and> next_vm_id s' = next_vm_id s + 1
    | Panic k \<Rightarrow> True"
  using assms(2) unfolding boot_vm_first [OF assms(1)]
  by (auto simp: and_then_def add_u64_def modify_def ret_def panic_def fail_def create_dummy_vm_def on_local_def gets_def assms(1)
      split: res.splits prod.splits if_splits sum.splits)

lemma failed_first_boot:
  assumes "run_start env (sched_new tx) = (Err e, s1)"
  shows "states s1 = [] \<and> next_vm_id s1 = 1 \<and> run env mode s1 \<noteq> Some (Ok ended, s2)"
proof -
  let ?boot = "boot_vm env Program 0 u64_max []"
  obtain r s' where b: "?boot (sched_new tx) = (r, s')" by fastforce
  note first = boot_vm_first_cases [OF _ b]
  have s1: "states s1 = [] \<and> instantiated s1 = [] \<and> next_vm_id s1 = 1"
    using assms b first by (cases r) (auto simp: run_start_def and_then_def gets_def sched_new_def FIRST_VM_ID_def assert_def
        ret_def panic_def split: res.splits prod.splits if_splits)
  obtain r2 s3 where b2: "?boot s1 = (r2, s3)" by fastforce
  have "run_start env s1 \<noteq> (Ok (), s4)" for s4
    using b2 boot_vm_first_cases [OF _ b2] s1 by (cases r2)
      (auto simp: run_start_def and_then_def gets_def assert_def ret_def panic_def ROOT_VM_ID_def FIRST_VM_ID_def)
  then show ?thesis
    using s1 by (auto simp: run_def split: prod.splits res.splits)
qed

text \<open>
  A scheduler whose root VM has terminated, once suspended and resumed, has no instantiated VM: \<open>run\<close> skips
  its loop and panics where it looks up the root VM for its exit code.
\<close>

lemma finished_resumed_panics:
  assumes "panics_within env X" and "sched_ok s" and "sched_suspend env s = (Ok full, s')"
    and "bt_get (states s) ROOT_VM_ID = Some Terminated"
  shows "run env mode (sched_resume tx full) = Some (Panic MissingKey, sched_resume tx full)"
    (is "run env mode ?t = _")
proof -
  obtain s1 where s1: "evicted s (insts s) s1" and full: "full = written_out s1"
    using wpD_Ok [OF wp_sched_suspend [OF assms(1,2)] assms(3)] by blast
  have ok: "sched_ok s1" and none: "insts s1 = {}" and same: "same_but_table s s1"
    using s1 sched_ok_kept [OF assms(2)] by (auto simp: evicted_def)
  have st: "states ?t = states s"
    using resumed_ok(1) [OF ok none refl, of tx] same unfolding full by (simp add: same_but_table_def)
  then have "run_start env ?t = (Ok (), ?t)"
    using assms(4) by (auto simp: run_start_def and_then_def gets_def ret_def assert_def bt_contains_def bt_get_def)
  moreover have "run_result env ?t = (Panic MissingKey, ?t)"
    by (simp add: run_result_def and_then_def gets_def unwrap_def panic_def sched_resume_def bt_get_def)
  ultimately show ?thesis
    using st assms(4) by (simp add: run_def run_loop_Terminated split: prod.split)
qed

end
