(* ===== verification/Tx_Driver.thy ===== *)
theory Tx_Driver
  imports Suspend_Resume
begin

text \<open>
  \<open>verify_tx\<close> of src/dev_utils/mod.rs, the example of how the scheduler is driven: every script
  group of a transaction is run to its end in slices of \<open>cycles_per_iterate\<close>, with a full suspend
  and resume every \<open>cycles_per_suspend\<close>, and the cycles of all groups are summed up against
  \<open>max_cycles\<close>.

  The resolution of the transaction and its script groups come from the ckb crates; they are the
  record \<open>script_library\<close>. Its options are \<open>None\<close> where an \<open>expect\<close> of the code fails. The message of an
  \<open>Error::Unexpected\<close> is the constructor with the values it prints.
\<close>

section \<open>The code\<close>

record ('tx, 'rtx, 'g, 'm, 'c, 's, 'e, 'z, 'd) script_library =
  resolve_tx :: "'tx \<Rightarrow> 'rtx option"
  script_groups :: "'rtx \<Rightarrow> 'g list"
  extract_script :: "'rtx \<Rightarrow> 'g \<Rightarrow> bytes option"
  group_data :: "'rtx \<Rightarrow> 'g \<Rightarrow> bytes \<Rightarrow> 'd tx_data"
  group_env :: "'rtx \<Rightarrow> 'g \<Rightarrow> ('m, 'c, 's, 'e, 'z, 'd) ckb_env"

text \<open>The full suspend at the start of a round, if it is due: the scheduler and \<open>last_suspended_cycles\<close>.\<close>

definition suspend_if_due :: "('m, 'c, 's, 'e, 'z, 'd) ckb_env \<Rightarrow> 'd tx_data \<Rightarrow> u64 \<Rightarrow> u64 \<Rightarrow>
    ('m, 'c, 's, 'd) scheduler \<Rightarrow> (u64 \<times> ('m, 'c, 's, 'd) scheduler) res" where
  "suspend_if_due env tx_data cycles_per_suspend last_suspended s =
     (case sub_u64 (overflow_checks env) (consumed_cycles s) last_suspended s of
        (Ok since, _) \<Rightarrow>
          if since \<ge> cycles_per_suspend
          then (case sched_suspend env s of
                  (Ok full, _) \<Rightarrow>
                    let s' = sched_resume tx_data full in Ok (consumed_cycles s', s')
                | (Err _, _) \<Rightarrow> Panic UnwrapNone
                | (Panic k, _) \<Rightarrow> Panic k)
          else Ok (last_suspended, s)
      | (Err e, _) \<Rightarrow> Err e
      | (Panic k, _) \<Rightarrow> Panic k)"

text \<open>
  The \<open>loop\<close> of one group, given the cycles consumed by the groups before: the cycles with this
  group. It need not end: \<open>None\<close> is a loop (or a call of \<open>run\<close>) that does not return.
\<close>

partial_function (option) verify_group ::
    "('m, 'c, 's, 'e, 'z, 'd) ckb_env \<Rightarrow> 'd tx_data \<Rightarrow> u64 \<Rightarrow> u64 \<Rightarrow> u64 \<Rightarrow> u64 \<Rightarrow> u64 \<Rightarrow>
     ('m, 'c, 's, 'd) scheduler \<Rightarrow> u64 res option" where
  "verify_group env tx_data max_cycles cycles_per_iterate cycles_per_suspend consumed last_suspended s =
     (if consumed_cycles s > max_cycles
      then Some (Err (Unexpected (OutOfMaxCycles (consumed_cycles s) max_cycles)))
      else
        (case suspend_if_due env tx_data cycles_per_suspend last_suspended s of
           Err e \<Rightarrow> Some (Err e)
         | Panic k \<Rightarrow> Some (Panic k)
         | Ok due \<Rightarrow>
             (case run env (LimitCycles cycles_per_iterate) (snd due) of
                None \<Rightarrow> None
              | Some (Ok ended, s') \<Rightarrow>
                  Some (if fst ended \<noteq> 0 then Err (Unexpected (NonZeroExit (fst ended)))
                   else (case add_u64 (overflow_checks env) consumed (snd ended) s' of
                      (Ok consumed', _) \<Rightarrow>
                        if snd ended > max_cycles \<or> consumed' > max_cycles
                        then Err (Unexpected (OutOfMaxCycles consumed' max_cycles))
                        else Ok consumed'
                    | (Err e, _) \<Rightarrow> Err e
                    | (Panic k, _) \<Rightarrow> Panic k))
              | Some (Err e, s') \<Rightarrow>
                  if e = CyclesExceeded
                  then verify_group env tx_data max_cycles cycles_per_iterate cycles_per_suspend
                         consumed (fst due) s'
                  else Some (Err (Unexpected ScriptError))
              | Some (Panic k, s') \<Rightarrow> Some (Panic k))))"

fun verify_groups ::
    "('tx, 'rtx, 'g, 'm, 'c, 's, 'e, 'z, 'd) script_library \<Rightarrow> 'rtx \<Rightarrow> u64 \<Rightarrow> u64 \<Rightarrow> u64 \<Rightarrow>
     'g list \<Rightarrow> u64 \<Rightarrow> u64 res option" where
  "verify_groups lib rtx max_cycles cycles_per_iterate cycles_per_suspend [] consumed = Some (Ok consumed)"
| "verify_groups lib rtx max_cycles cycles_per_iterate cycles_per_suspend (g # gs) consumed =
     (case extract_script lib rtx g of
        None \<Rightarrow> Some (Panic UnwrapNone)
      | Some code \<Rightarrow>
          let tx_data = group_data lib rtx g code
          in case verify_group (group_env lib rtx g) tx_data max_cycles cycles_per_iterate
               cycles_per_suspend consumed 0 (sched_new tx_data) of
               Some (Ok consumed') \<Rightarrow>
                 verify_groups lib rtx max_cycles cycles_per_iterate cycles_per_suspend gs consumed'
             | Some (Err e) \<Rightarrow> Some (Err e)
             | Some (Panic k) \<Rightarrow> Some (Panic k)
             | None \<Rightarrow> None)"

definition verify_tx ::
    "('tx, 'rtx, 'g, 'm, 'c, 's, 'e, 'z, 'd) script_library \<Rightarrow> 'tx \<Rightarrow> u64 \<Rightarrow> u64 \<Rightarrow> u64 \<Rightarrow> u64 res option" where
  "verify_tx lib mock_tx max_cycles cycles_per_iterate cycles_per_suspend =
     (case resolve_tx lib mock_tx of
        None \<Rightarrow> Some (Panic UnwrapNone)
      | Some rtx \<Rightarrow>
          verify_groups lib rtx max_cycles cycles_per_iterate cycles_per_suspend (script_groups lib rtx) 0)"

section \<open>What a success means\<close>

text \<open>
  \<open>passes env tx_data c since s\<close>: a scheduler \<open>s\<close> of a group, driven in slices, ends with exit code 0
  after \<open>c\<close> cycles: every round before the last ended in \<open>CyclesExceeded\<close>, and between rounds there is
  at most a suspend and a resume.
\<close>

inductive passes :: "('m, 'c, 's, 'e, 'z, 'd) ckb_env \<Rightarrow> 'd tx_data \<Rightarrow> u64 \<Rightarrow> u64 \<Rightarrow> u64 \<Rightarrow>
    u64 \<Rightarrow> ('m, 'c, 's, 'd) scheduler \<Rightarrow> bool"
  for env tx_data per_run per_suspend cycles where
  ends: "suspend_if_due env tx_data per_suspend since s = Ok (since', s1) \<Longrightarrow>
    run env (LimitCycles per_run) s1 = Some (Ok (0, cycles), s2) \<Longrightarrow>
    passes env tx_data per_run per_suspend cycles since s"
| more: "suspend_if_due env tx_data per_suspend since s = Ok (since', s1) \<Longrightarrow>
    run env (LimitCycles per_run) s1 = Some (Err CyclesExceeded, s2) \<Longrightarrow>
    passes env tx_data per_run per_suspend cycles since' s2 \<Longrightarrow>
    passes env tx_data per_run per_suspend cycles since s"

text \<open>What a verdict \<open>Ok\<close> of a group says.\<close>

definition verdict :: "('m, 'c, 's, 'e, 'z, 'd) ckb_env \<Rightarrow> 'd tx_data \<Rightarrow> u64 \<Rightarrow> u64 \<Rightarrow> u64 \<Rightarrow> u64 \<Rightarrow> u64 \<Rightarrow>
    ('m, 'c, 's, 'd) scheduler \<Rightarrow> u64 res \<Rightarrow> bool" where
  "verdict env tx_data max_cycles per_run per_suspend consumed since s r \<longleftrightarrow>
     (\<forall>consumed'. r = Ok consumed' \<longrightarrow>
       (\<exists>c. passes env tx_data per_run per_suspend c since s \<and> c \<le> max_cycles \<and> consumed' \<le> max_cycles
         \<and> consumed' = consumed + c \<and> (overflow_checks env \<longrightarrow> unat consumed + unat c < 2 ^ 64)))"

lemma add_u64_result:
  "add_u64 chk a b s = (Ok c, s') \<longleftrightarrow> c = a + b \<and> s' = s \<and> (chk \<longrightarrow> unat a + unat b < 2 ^ 64)"
  by (auto simp: add_u64_def panic_def ret_def)

lemma verdict_step:
  assumes rec: "\<And>since s r. verify env tx_data max_cycles per_run per_suspend consumed since s = Some r \<Longrightarrow>
      verdict env tx_data max_cycles per_run per_suspend consumed since s r"
    and body: "(if consumed_cycles s > max_cycles
      then Some (Err (Unexpected (OutOfMaxCycles (consumed_cycles s) max_cycles)))
      else
        (case suspend_if_due env tx_data per_suspend since s of
           Err e \<Rightarrow> Some (Err e)
         | Panic k \<Rightarrow> Some (Panic k)
         | Ok due \<Rightarrow>
             (case run env (LimitCycles per_run) (snd due) of
                None \<Rightarrow> None
              | Some (Ok ended, s') \<Rightarrow>
                  Some (if fst ended \<noteq> 0 then Err (Unexpected (NonZeroExit (fst ended)))
                   else (case add_u64 (overflow_checks env) consumed (snd ended) s' of
                      (Ok consumed', _) \<Rightarrow>
                        if snd ended > max_cycles \<or> consumed' > max_cycles
                        then Err (Unexpected (OutOfMaxCycles consumed' max_cycles))
                        else Ok consumed'
                    | (Err e, _) \<Rightarrow> Err e
                    | (Panic k, _) \<Rightarrow> Panic k))
              | Some (Err e, s') \<Rightarrow>
                  if e = CyclesExceeded
                  then verify env tx_data max_cycles per_run per_suspend consumed (fst due) s'
                  else Some (Err (Unexpected ScriptError))
              | Some (Panic k, s') \<Rightarrow> Some (Panic k)))) = Some r"
  shows "verdict env tx_data max_cycles per_run per_suspend consumed since s r"
  unfolding verdict_def
proof (intro allI impI)
  fix consumed' assume r: "r = Ok consumed'"
  have le: "\<not> consumed_cycles s > max_cycles" using body r by (cases "consumed_cycles s > max_cycles") auto
  obtain since' s1 where due: "suspend_if_due env tx_data per_suspend since s = Ok (since', s1)"
    using body r le by (cases "suspend_if_due env tx_data per_suspend since s") auto
  obtain ended s2 where run: "run env (LimitCycles per_run) s1 = Some (ended, s2)"
    using body le due by (cases "run env (LimitCycles per_run) s1") auto
  show "\<exists>c. passes env tx_data per_run per_suspend c since s \<and> c \<le> max_cycles \<and> consumed' \<le> max_cycles
      \<and> consumed' = consumed + c \<and> (overflow_checks env \<longrightarrow> unat consumed + unat c < 2 ^ 64)"
  proof (cases ended)
    case (Ok y)
    obtain code c where y: "y = (code, c)" by fastforce
    obtain a t where a: "add_u64 (overflow_checks env) consumed c s2 = (a, t)" by fastforce
    have z: "code = 0" using body le due run Ok y r by (cases "code = 0") auto
    then obtain d where d: "a = Ok d" using body le due run Ok y r a by (cases a) auto
    then have "d = consumed'" "c \<le> max_cycles" "d \<le> max_cycles"
      using body le due run Ok y r a z by (auto split: if_splits)
    then show ?thesis
      using passes.ends [OF due] run Ok y z a d by (auto simp: add_u64_result)
  next
    case (Err e)
    have e: "e = CyclesExceeded" using body le due run Err r by (cases "e = CyclesExceeded") auto
    then have "verify env tx_data max_cycles per_run per_suspend consumed since' s2 = Some r"
      using body le due run Err by simp
    from rec [OF this] r show ?thesis
      using passes.more [OF due] run Err e unfolding verdict_def by blast
  next
    case (Panic k)
    then show ?thesis using body le due run r by simp
  qed
qed

lemma verify_group_verdict:
  "verify_group env tx_data max_cycles per_run per_suspend consumed since s = Some r \<Longrightarrow>
    verdict env tx_data max_cycles per_run per_suspend consumed since s r"
  by (erule verify_group.raw_induct [where P = verdict, rotated 1]) (erule verdict_step [rotated 1], blast)

lemma verify_groups_Ok:
  "verify_groups lib rtx max_cycles per_run per_suspend gs consumed = Some (Ok total_consumed) \<Longrightarrow>
   consumed \<le> max_cycles \<Longrightarrow>
   \<exists>cs. list_all2 (\<lambda>g c. \<exists>code. extract_script lib rtx g = Some code \<and> c \<le> max_cycles
       \<and> passes (group_env lib rtx g) (group_data lib rtx g code) per_run per_suspend c 0
           (sched_new (group_data lib rtx g code))) gs cs
     \<and> total_consumed = consumed + sum_list cs \<and> total_consumed \<le> max_cycles
     \<and> ((\<forall>g\<in>set gs. overflow_checks (group_env lib rtx g)) \<longrightarrow>
          unat total_consumed = unat consumed + sum_list (map unat cs))"
proof (induction gs arbitrary: consumed)
  case Nil
  then show ?case by simp
next
  case (Cons g gs)
  obtain code where code: "extract_script lib rtx g = Some code"
    using Cons.prems(1) by (auto split: option.splits)
  obtain mid where mid: "verify_group (group_env lib rtx g) (group_data lib rtx g code) max_cycles per_run
        per_suspend consumed 0 (sched_new (group_data lib rtx g code)) = Some (Ok mid)"
      and rest: "verify_groups lib rtx max_cycles per_run per_suspend gs mid = Some (Ok total_consumed)"
    using Cons.prems(1) code by (auto simp: Let_def split: option.splits res.splits)
  obtain c where c: "passes (group_env lib rtx g) (group_data lib rtx g code) per_run per_suspend c 0
        (sched_new (group_data lib rtx g code))" "c \<le> max_cycles" "mid \<le> max_cycles" "mid = consumed + c"
      "overflow_checks (group_env lib rtx g) \<longrightarrow> unat consumed + unat c < 2 ^ 64"
    using verify_group_verdict [OF mid] by (auto simp: verdict_def)
  from Cons.IH [OF rest c(3)] obtain cs where cs: "list_all2 (\<lambda>g c. \<exists>code. extract_script lib rtx g = Some code
        \<and> c \<le> max_cycles \<and> passes (group_env lib rtx g) (group_data lib rtx g code) per_run per_suspend c 0
           (sched_new (group_data lib rtx g code))) gs cs"
      "total_consumed = mid + sum_list cs" "total_consumed \<le> max_cycles"
      "(\<forall>g\<in>set gs. overflow_checks (group_env lib rtx g)) \<longrightarrow> unat total_consumed = unat mid + sum_list (map unat cs)"
    by blast
  show ?case
    using cs c code by (intro exI [of _ "c # cs"]) (auto simp: add.assoc unat_add_small)
qed

lemma suspend_if_due_no_error: "suspend_if_due env tx_data per_suspend since s \<noteq> Err e"
  by (auto simp: suspend_if_due_def sub_u64_def panic_def ret_def Let_def split: res.splits prod.splits if_splits)

lemma add_u64_no_error: "add_u64 chk a b t \<noteq> (Err e, t')"
  by (auto simp: add_u64_def panic_def ret_def)

definition unexpected_only :: "u64 res \<Rightarrow> bool" where
  "unexpected_only r \<longleftrightarrow> (\<forall>e. r = Err e \<longrightarrow> (\<exists>u. e = Unexpected u))"

lemma verify_group_unexpected:
  "verify_group env tx_data max_cycles per_run per_suspend consumed since s = Some r \<Longrightarrow> unexpected_only r"
proof (erule verify_group.raw_induct [where P = "\<lambda>env tx_data max_cycles per_run per_suspend consumed since s r.
    unexpected_only r", rotated 1], goal_cases)
  case (1 verify env tx_data max_cycles per_run per_suspend consumed since s r)
  show ?case
  proof (cases "consumed_cycles s > max_cycles")
    case True
    then show ?thesis using 1(2) by (auto simp: unexpected_only_def)
  next
    case le: False
    show ?thesis
    proof (cases "suspend_if_due env tx_data per_suspend since s")
      case (Ok due)
      show ?thesis
      proof (cases "run env (LimitCycles per_run) (snd due)")
        case None
        then show ?thesis using 1(2) le Ok by simp
      next
        case (Some x)
        obtain ended s2 where x: "x = (ended, s2)" by fastforce
        show ?thesis
        proof (cases ended)
          case Ok': (Ok y)
          then show ?thesis
            using 1(2) le Ok Some x add_u64_no_error [of "overflow_checks env" consumed "snd y" s2]
            by (auto simp: unexpected_only_def split: if_splits prod.splits res.splits)
        next
          case (Err e)
          then show ?thesis using 1 le Ok Some x by (auto simp: unexpected_only_def split: if_splits)
        next
          case (Panic k)
          then show ?thesis using 1(2) le Ok Some x by (auto simp: unexpected_only_def)
        qed
      qed
    next
      case (Err e)
      then show ?thesis by (simp add: suspend_if_due_no_error)
    next
      case (Panic k)
      then show ?thesis using 1(2) le by (auto simp: unexpected_only_def)
    qed
  qed
qed

lemma verify_group_None:
  assumes "I since s" and step: "\<And>since s. I since s \<Longrightarrow> consumed_cycles s \<le> max_cycles
      \<and> (\<exists>since' s1 s2. suspend_if_due env tx_data per_suspend since s = Ok (since', s1)
           \<and> run env (LimitCycles per_run) s1 = Some (Err CyclesExceeded, s2) \<and> I since' s2)"
  shows "verify_group env tx_data max_cycles per_run per_suspend consumed since s = None"
proof (rule ccontr)
  assume "verify_group env tx_data max_cycles per_run per_suspend consumed since s \<noteq> None"
  then obtain r where r: "verify_group env tx_data max_cycles per_run per_suspend consumed since s = Some r" by blast
  have "(env', tx', max', run', sus') = (env, tx_data, max_cycles, per_run, per_suspend) \<longrightarrow> \<not> I since' s'"
    if "verify_group env' tx' max' run' sus' consumed' since' s' = Some r'"
    for env' tx' max' run' sus' consumed' since' s' r'
    using that
  proof (rule verify_group.raw_induct [where P = "\<lambda>env' tx' max' run' sus' consumed' since' s' r'.
      (env', tx', max', run', sus') = (env, tx_data, max_cycles, per_run, per_suspend) \<longrightarrow> \<not> I since' s'",
      rotated 1], goal_cases)
    case (1 verify env' tx' max' run' sus' consumed' since' s' r')
    show ?case
    proof (intro impI notI)
      assume eq: "(env', tx', max', run', sus') = (env, tx_data, max_cycles, per_run, per_suspend)" and I: "I since' s'"
      from step [OF I] obtain since2 s1 s2 where st: "consumed_cycles s' \<le> max_cycles"
          "suspend_if_due env tx_data per_suspend since' s' = Ok (since2, s1)"
          "run env (LimitCycles per_run) s1 = Some (Err CyclesExceeded, s2)" "I since2 s2" by blast
      have "verify env tx_data max_cycles per_run per_suspend consumed' since2 s2 = Some r'"
        using 1(2) eq st(2,3) leD [OF st(1)] by simp
      from 1(1) [OF this] st(4) show False by simp
    qed
  qed
  from this [OF r] assms(1) show False by simp
qed

section \<open>Properties\<close>

text \<open>
  C26: \<open>verify_tx\<close> accepts a transaction only if every script group, started from a fresh scheduler and
  driven in slices with suspends in between, ended with exit code 0 within \<open>max_cycles\<close>; the result is
  the sum of their cycles, is at most \<open>max_cycles\<close>, and does not wrap in a build with overflow checks.
\<close>

theorem verify_tx_accepts:
  assumes "verify_tx lib tx max_cycles per_run per_suspend = Some (Ok total_consumed)"
  shows "\<exists>rtx cs. resolve_tx lib tx = Some rtx
    \<and> list_all2 (\<lambda>g c. \<exists>code. extract_script lib rtx g = Some code \<and> c \<le> max_cycles
       \<and> passes (group_env lib rtx g) (group_data lib rtx g code) per_run per_suspend c 0
           (sched_new (group_data lib rtx g code))) (script_groups lib rtx) cs
    \<and> total_consumed = sum_list cs \<and> total_consumed \<le> max_cycles
    \<and> ((\<forall>g\<in>set (script_groups lib rtx). overflow_checks (group_env lib rtx g)) \<longrightarrow>
         unat total_consumed = sum_list (map unat cs))"
proof -
  obtain rtx where rtx: "resolve_tx lib tx = Some rtx"
      and groups: "verify_groups lib rtx max_cycles per_run per_suspend (script_groups lib rtx) 0 = Some (Ok total_consumed)"
    using assms by (auto simp: verify_tx_def split: option.splits)
  from verify_groups_Ok [OF groups] rtx show ?thesis by auto
qed

text \<open>A transaction with two groups, each running the same program, which exits with code 0.\<close>

definition demo_lib :: "(unit, unit, nat, toy, unit, toy, toy_action list, unit, nat) script_library" where
  "demo_lib = \<lparr>resolve_tx = \<lambda>_. Some (), script_groups = \<lambda>_. [0, 1], extract_script = \<lambda>_ _. Some [7],
     group_data = \<lambda>_ _ code. sample_tx\<lparr>program := code\<rparr>, group_env = \<lambda>_ _. toy_env True (\<lambda>_. [TExit 0])\<rparr>"

lemma u64_max_facts: "0 < u64_max" "unat u64_max = 2 ^ 64 - 1"
  by (simp_all add: u64_max_def word_gt_0 unsigned_minus_1_eq_mask mask_eq_exp_minus_1)

definition demo_code :: "nat tx_data" where
  "demo_code = sample_tx\<lparr>program := [7]\<rparr>"

definition demo_root :: "toy \<Rightarrow> vm_state \<Rightarrow> u64 \<Rightarrow> u64 \<Rightarrow> (vm_id, i8) hashmap \<Rightarrow> (toy, unit, toy, nat) scheduler" where
  "demo_root m st base spent exits = (sched_new demo_code)\<lparr>total_cycles := spent, next_vm_id := 1,
     states := [(0, st)], terminated_vms := exits,
     instantiated := [(0, (\<lparr>mc_id = 0, mc_base_cycles = base, mc_snapshot2_context = (),
        mc_data_source = demo_code\<rparr>, m))]\<rparr>"

abbreviation exit_env :: toy_env_type where
  "exit_env \<equiv> toy_env True (\<lambda>_. [TExit 0])"

lemma demo_start:
  "run_start exit_env (sched_new demo_code) =
   (Ok (), demo_root (toy_new\<lparr>t_script := [TExit 0], t_cycles := t_cycles toy_new + 1\<rparr>) Runnable 0 0 [])"
  by (simp add: run_start_def boot_vm_def prog_defs sched_new_def MAX_INSTANTIATED_VMS_def create_dummy_vm_def
      on_local_def load_program_def load_data_def load_full_def slice_data_def sample_tx_def demo_code_def
      transferred_byte_cycles_def BYTES_PER_CYCLE_def FIRST_VM_ID_def Let_def ROOT_VM_ID_def bt_contains_def
      bt_get_def u64_max_facts demo_root_def)

definition demo_done :: "(toy, unit, toy, nat) scheduler" where
  "demo_done = demo_root (toy_new\<lparr>t_script := [], t_cycles := 0, t_max := 100\<rparr>) Terminated 0 2 [(0, 0)]"

lemma demo_limit: "\<not> (100 :: u64) \<le> 1"
  by (simp add: word_le_nat_alt)

lemma demo_exits:
  "iterate exit_env () 100 (demo_root (toy_new\<lparr>t_script := [TExit 0], t_cycles := t_cycles toy_new + 1\<rparr>) Runnable 0 0 [])
   = (Ok 2, demo_done)"
  by (simp add: iterate_def process_io_def prog_defs demo_root_def demo_done_def sched_new_def vm_to_run_def
     run_vm_def ensure_vms_instantiated_def bt_contains_def bt_get_def MAX_INSTANTIATED_VMS_def run_machine_def
     toy_run_def toy_new_def Let_def checked_add_def process_message_box_def vm_exited_def ROOT_VM_ID_def
     FIRST_VM_ID_def purge_others_def bt_retain_def demo_limit)

lemma demo_state [simp]:
  "bt_get (states (demo_root m st base spent exits)) ROOT_VM_ID = Some st"
  "bt_get (states demo_done) ROOT_VM_ID = Some Terminated"
  by (simp_all add: demo_done_def demo_root_def bt_get_def ROOT_VM_ID_def FIRST_VM_ID_def)

lemma demo_result: "run_result exit_env demo_done = (Ok (0, 2), demo_done)"
  by (simp add: run_result_def and_then_def gets_def unwrap_def ret_def demo_done_def demo_root_def bt_get_def
      ROOT_VM_ID_def FIRST_VM_ID_def toy_new_def)

lemma demo_run: "run exit_env (LimitCycles 100) (sched_new demo_code) = Some (Ok (0, 2), demo_done)"
proof -
  have "run_loop exit_env () 100
      (demo_root (toy_new\<lparr>t_script := [TExit 0], t_cycles := t_cycles toy_new + 1\<rparr>) Runnable 0 0 []) =
    Some (Ok (), demo_done)"
    by (subst run_loop_step [where st = Runnable])
      (simp_all add: demo_exits run_loop_Terminated demo_state)
  then show ?thesis
    by (simp add: run_def demo_start run_limits_def demo_result)
qed

lemma demo_not_due: "suspend_if_due exit_env demo_code 50 0 (sched_new demo_code) = Ok (0, sched_new demo_code)"
  by (simp add: suspend_if_due_def sub_u64_def consumed_cycles_def sched_new_def ret_def word_le_nat_alt)

lemma fresh_cycles: "consumed_cycles (sched_new tx) = 0"
  by (simp add: consumed_cycles_def sched_new_def)

lemma demo_group:
  assumes "c = 0 \<or> c = 2"
  shows "verify_group exit_env demo_code 1000 100 50 c 0 (sched_new demo_code) = Some (Ok (c + 2))"
  using assms
  by (subst verify_group.simps) (auto simp: demo_not_due demo_run add_u64_def ret_def word_less_nat_alt fresh_cycles)

lemma demo_verify_tx: "verify_tx demo_lib () 1000 100 50 = Some (Ok 4)"
  by (simp add: verify_tx_def demo_lib_def demo_code_def [symmetric] Let_def demo_group)

theorem verify_tx_accepts_witness: "(4 :: u64) \<le> 1000 \<and> (\<exists>cs. sum_list (map unat cs) = 4 \<and> length (cs :: u64 list) = 2)"
proof -
  obtain cs where "list_all2 (\<lambda>g c. \<exists>code. extract_script demo_lib () g = Some code \<and> c \<le> 1000
        \<and> passes (group_env demo_lib () g) (group_data demo_lib () g code) 100 50 c 0
            (sched_new (group_data demo_lib () g code))) (script_groups demo_lib ()) cs"
      "(4 :: u64) \<le> 1000" "unat (4 :: u64) = sum_list (map unat cs)"
    using verify_tx_accepts [OF demo_verify_tx] by (auto simp: demo_lib_def)
  then show ?thesis by (auto simp: demo_lib_def dest!: list_all2_lengthD intro!: exI [of _ cs])
qed

text \<open>
  C28: every error \<open>verify_tx\<close> returns is an \<open>Error::Unexpected\<close>: \<open>CyclesExceeded\<close> is answered with another
  round, never reported, and any other error of \<open>run\<close> is wrapped.
\<close>

theorem verify_tx_errors:
  assumes "verify_tx lib tx max_cycles per_run per_suspend = Some (Err e)"
  shows "\<exists>u. e = Unexpected u"
proof -
  have "\<exists>u. e = Unexpected u"
    if "verify_groups lib rtx max_cycles per_run per_suspend gs consumed = Some (Err e)" for rtx gs consumed
    using that
  proof (induction gs arbitrary: consumed)
    case (Cons g gs)
    then show ?case
      by (auto simp: Let_def unexpected_only_def split: option.splits res.splits dest: verify_group_unexpected)
  qed simp
  then show ?thesis using assms by (auto simp: verify_tx_def split: option.splits)
qed

lemma demo_verify_tx_low: "verify_tx demo_lib () 1 100 50 = Some (Err (Unexpected (OutOfMaxCycles 2 1)))"
proof -
  have "verify_group exit_env demo_code 1 100 50 0 0 (sched_new demo_code) =
      Some (Err (Unexpected (OutOfMaxCycles 2 1)))"
    by (subst verify_group.simps) (auto simp: demo_not_due demo_run add_u64_def ret_def word_less_nat_alt fresh_cycles)
  then show ?thesis by (simp add: verify_tx_def demo_lib_def demo_code_def [symmetric] Let_def)
qed

theorem verify_tx_errors_witness: "\<exists>u. Unexpected (OutOfMaxCycles 2 1) = Unexpected u"
  by (rule verify_tx_errors [OF demo_verify_tx_low])


text \<open>The rounds of the sample program with a limit of 0 cycles: booted, then never further.\<close>

definition demo_stuck :: "u64 \<Rightarrow> (toy, unit, toy, nat) scheduler" where
  "demo_stuck base = demo_root (toy_new\<lparr>t_script := [TExit 0], t_max := 0\<rparr>) Runnable base 1 []"

lemma demo_stuck_run:
  "run exit_env (LimitCycles 0) (sched_new demo_code) = Some (Err CyclesExceeded, demo_stuck 0)"
  "run exit_env (LimitCycles 0) (demo_stuck base) = Some (Err CyclesExceeded, demo_stuck 1)"
proof -
  note defs = iterate_def process_io_def prog_defs demo_root_def demo_stuck_def sched_new_def vm_to_run_def
     run_vm_def ensure_vms_instantiated_def bt_contains_def bt_get_def MAX_INSTANTIATED_VMS_def run_machine_def
     toy_run_def toy_new_def Let_def checked_add_def process_message_box_def YIELD_def
  have "iterate exit_env () 0 (demo_root (toy_new\<lparr>t_script := [TExit 0], t_cycles := t_cycles toy_new + 1\<rparr>) Runnable 0 0 [])
      = (Err CyclesExceeded, demo_stuck 0)"
    by (simp add: defs)
  then show "run exit_env (LimitCycles 0) (sched_new demo_code) = Some (Err CyclesExceeded, demo_stuck 0)"
    by (simp add: run_def demo_start run_limits_def run_loop_step [where st = Runnable])
  have start: "run_start exit_env (demo_stuck base) = (Ok (), demo_stuck base)"
    by (simp add: run_start_def and_then_def gets_def ret_def assert_def demo_stuck_def demo_root_def
        bt_contains_def bt_get_def ROOT_VM_ID_def FIRST_VM_ID_def)
  have "iterate exit_env () 0 (demo_stuck base) = (Err CyclesExceeded, demo_stuck 1)"
    by (simp add: defs)
  moreover have "bt_get (states (demo_stuck base)) ROOT_VM_ID = Some Runnable" by (simp add: demo_stuck_def)
  ultimately show "run exit_env (LimitCycles 0) (demo_stuck base) = Some (Err CyclesExceeded, demo_stuck 1)"
    by (simp add: run_def start run_limits_def run_loop_step [where st = Runnable])
qed


end
