(* ===== verification/Molecule.thy ===== *)
theory Molecule
  imports Rust_Base
begin

text \<open>
  The serialisation scheme of the generated code in src/dev_utils/dag.rs. The code repeats the
  same text for every type; here each of the four shapes (array, fixed vector, dynamic vector,
  table) is written once, with the element verifiers as arguments, and Dag_Types applies them to
  the ten types of the schema.

  The molecule crate itself is not part of the repository. The generated code uses two of its
  functions, \<open>pack_number\<close> and \<open>unpack_number\<close>, which are parameters (\<open>number_codec\<close>); the locale
  \<open>number_format\<close> states what is documented of them: four bytes, and inverse to each other.
  \<open>unpack_number\<close> on fewer than four bytes is \<open>None\<close>: no theorem relies on it.

  A \<open>vres\<close> is the outcome of a verification or of a getter: a value, an error of \<open>verify\<close>, or a
  panic (an index or slice out of range).
\<close>

section \<open>Outcomes\<close>

type_synonym byte_list = "u8 list"

datatype verification_error =
    HeaderIsBroken string nat nat
  | TotalSizeNotMatch string nat nat
  | OffsetsNotMatch string
  | FieldCountNotMatch string nat nat

text \<open>What can go wrong without an error value: an index or range outside a slice, a subtraction of
  \<open>usize\<close> below zero, a number read past the end of the buffer.\<close>

datatype crash = SliceOutOfRange | Underflow | ReadPastEnd

datatype 'a vres = Verified 'a | Rejected verification_error | Crashed crash

fun vbind :: "'a vres \<Rightarrow> ('a \<Rightarrow> 'b vres) \<Rightarrow> 'b vres" where
  "vbind (Verified a) f = f a"
| "vbind (Rejected e) f = Rejected e"
| "vbind (Crashed k) f = Crashed k"

fun vmap :: "('a \<Rightarrow> 'b vres) \<Rightarrow> 'a list \<Rightarrow> 'b list vres" where
  "vmap f [] = Verified []"
| "vmap f (x # xs) = vbind (f x) (\<lambda>y. vbind (vmap f xs) (\<lambda>ys. Verified (y # ys)))"

record number_codec =
  pack_number :: "u32 \<Rightarrow> byte_list"
  unpack_number :: "byte_list \<Rightarrow> u32 option"
  checked_arith :: bool

text \<open>\<open>molecule::NUMBER_SIZE\<close>: the generated code writes its multiples as 4, 8, 12 and 16.\<close>

definition NUMBER_SIZE :: nat where
  "NUMBER_SIZE = 4"

lemma NUMBER_SIZE_value [simp]: "NUMBER_SIZE = 4"
  by (simp add: NUMBER_SIZE_def)

section \<open>Slices and numbers\<close>

text \<open>\<open>&slice[a..b]\<close> and \<open>&slice[a..]\<close> panic when the range is not inside the slice.\<close>

definition slice_of :: "byte_list \<Rightarrow> nat \<Rightarrow> nat \<Rightarrow> byte_list vres" where
  "slice_of s a b = (if a \<le> b \<and> b \<le> length s then Verified (take (b - a) (drop a s)) else Crashed SliceOutOfRange)"

definition slice_from :: "byte_list \<Rightarrow> nat \<Rightarrow> byte_list vres" where
  "slice_from s a = (if a \<le> length s then Verified (drop a s) else Crashed SliceOutOfRange)"

text \<open>\<open>unpack_number(&slice[i..]) as usize\<close>.\<close>

definition number_at :: "number_codec \<Rightarrow> byte_list \<Rightarrow> nat \<Rightarrow> nat vres" where
  "number_at num s i = vbind (slice_from s i) (\<lambda>t.
     case unpack_number num t of None \<Rightarrow> Crashed ReadPastEnd | Some n \<Rightarrow> Verified (unat n))"

text \<open>\<open>pack_number(n as Number)\<close>: the cast drops the upper bits of \<open>n\<close>.\<close>

definition packed :: "number_codec \<Rightarrow> nat \<Rightarrow> byte_list" where
  "packed num n = pack_number num (of_nat n)"

text \<open>\<open>a - b\<close> on \<open>usize\<close>.\<close>

definition usize_sub :: "bool \<Rightarrow> nat \<Rightarrow> nat \<Rightarrow> nat vres" where
  "usize_sub chk a b = (if b \<le> a then Verified (a - b)
     else if chk then Crashed Underflow else Verified (a + 2 ^ 64 - b))"

fun chunks_exact :: "nat \<Rightarrow> 'a list \<Rightarrow> 'a list list" where
  "chunks_exact n xs = (if n = 0 \<or> length xs < n then [] else take n xs # chunks_exact n (drop n xs))"

definition windows2 :: "'a list \<Rightarrow> ('a \<times> 'a) list" where
  "windows2 xs = zip xs (tl xs)"

definition descends :: "nat list \<Rightarrow> bool" where
  "descends offsets = list_ex (\<lambda>(a, b). a > b) (windows2 offsets)"

text \<open>The vector \<open>offsets\<close> of \<open>verify\<close>: the offsets in the header, then the total size.\<close>

definition read_offsets :: "number_codec \<Rightarrow> byte_list \<Rightarrow> nat \<Rightarrow> nat \<Rightarrow> nat list vres" where
  "read_offsets num s offset_first total_size =
     vbind (slice_of s NUMBER_SIZE offset_first) (\<lambda>header.
     vbind (vmap (\<lambda>x. number_at num x 0) (chunks_exact NUMBER_SIZE header)) (\<lambda>offsets.
     Verified (offsets @ [total_size])))"

section \<open>Verifying\<close>

type_synonym verifier = "byte_list \<Rightarrow> bool \<Rightarrow> unit vres"

definition array_verify :: "string \<Rightarrow> nat \<Rightarrow> verifier" where
  "array_verify name total_size s compatible =
     (if length s \<noteq> total_size then Rejected (TotalSizeNotMatch name total_size (length s))
      else Verified ())"

definition fixvec_verify :: "number_codec \<Rightarrow> string \<Rightarrow> nat \<Rightarrow> verifier" where
  "fixvec_verify num name item_size s compatible =
     (if length s < NUMBER_SIZE then Rejected (HeaderIsBroken name NUMBER_SIZE (length s))
      else vbind (number_at num s 0) (\<lambda>item_count.
        if item_count = 0
        then (if length s \<noteq> NUMBER_SIZE then Rejected (TotalSizeNotMatch name NUMBER_SIZE (length s))
              else Verified ())
        else let total_size = NUMBER_SIZE + item_size * item_count
          in if length s \<noteq> total_size then Rejected (TotalSizeNotMatch name total_size (length s))
             else Verified ()))"

fun verify_pairs :: "verifier \<Rightarrow> byte_list \<Rightarrow> bool \<Rightarrow> (nat \<times> nat) list \<Rightarrow> unit vres" where
  "verify_pairs v s compatible [] = Verified ()"
| "verify_pairs v s compatible ((start, end') # rest) =
     vbind (slice_of s start end') (\<lambda>part. vbind (v part compatible) (\<lambda>_. verify_pairs v s compatible rest))"

definition dynvec_verify :: "number_codec \<Rightarrow> string \<Rightarrow> verifier \<Rightarrow> verifier" where
  "dynvec_verify num name item s compatible =
     (if length s < NUMBER_SIZE then Rejected (HeaderIsBroken name NUMBER_SIZE (length s))
      else vbind (number_at num s 0) (\<lambda>total_size.
        if length s \<noteq> total_size then Rejected (TotalSizeNotMatch name total_size (length s))
        else if length s = NUMBER_SIZE then Verified ()
        else if length s < NUMBER_SIZE * 2
          then Rejected (TotalSizeNotMatch name (NUMBER_SIZE * 2) (length s))
        else vbind (number_at num s NUMBER_SIZE) (\<lambda>offset_first.
          if offset_first mod NUMBER_SIZE \<noteq> 0 \<or> offset_first < NUMBER_SIZE * 2
            then Rejected (OffsetsNotMatch name)
          else if length s < offset_first then Rejected (HeaderIsBroken name offset_first (length s))
          else vbind (read_offsets num s offset_first total_size) (\<lambda>offsets.
            if descends offsets then Rejected (OffsetsNotMatch name)
            else verify_pairs item s compatible (windows2 offsets)))))"

text \<open>The fields of a table are verified in order, field \<open>i\<close> on \<open>slice[offsets[i]..offsets[i + 1]]\<close>.\<close>

fun verify_fields :: "verifier list \<Rightarrow> byte_list \<Rightarrow> bool \<Rightarrow> nat list \<Rightarrow> unit vres" where
  "verify_fields [] s compatible offsets = Verified ()"
| "verify_fields (v # vs) s compatible (start # end' # rest) =
     vbind (slice_of s start end') (\<lambda>part. vbind (v part compatible) (\<lambda>_. verify_fields vs s compatible (end' # rest)))"
| "verify_fields (v # vs) s compatible offsets = Crashed SliceOutOfRange"

definition table_verify :: "number_codec \<Rightarrow> string \<Rightarrow> verifier list \<Rightarrow> verifier" where
  "table_verify num name verifiers s compatible =
     (if length s < NUMBER_SIZE then Rejected (HeaderIsBroken name NUMBER_SIZE (length s))
      else vbind (number_at num s 0) (\<lambda>total_size.
        if length s \<noteq> total_size then Rejected (TotalSizeNotMatch name total_size (length s))
        else if length s < NUMBER_SIZE * 2
          then Rejected (HeaderIsBroken name (NUMBER_SIZE * 2) (length s))
        else vbind (number_at num s NUMBER_SIZE) (\<lambda>offset_first.
          if offset_first mod NUMBER_SIZE \<noteq> 0 \<or> offset_first < NUMBER_SIZE * 2
            then Rejected (OffsetsNotMatch name)
          else if length s < offset_first then Rejected (HeaderIsBroken name offset_first (length s))
          else let field_count = offset_first div NUMBER_SIZE - 1
            in if field_count < length verifiers
                 then Rejected (FieldCountNotMatch name (length verifiers) field_count)
               else if \<not> compatible \<and> field_count > length verifiers
                 then Rejected (FieldCountNotMatch name (length verifiers) field_count)
               else vbind (read_offsets num s offset_first total_size) (\<lambda>offsets.
                 if descends offsets then Rejected (OffsetsNotMatch name)
                 else verify_fields verifiers s compatible offsets))))"

section \<open>Getters\<close>

definition array_nth :: "byte_list \<Rightarrow> nat \<Rightarrow> u8 vres" where
  "array_nth s i = vbind (slice_of s i (i + 1)) (\<lambda>p. Verified (p ! 0))"

definition fixvec_item_count :: "number_codec \<Rightarrow> byte_list \<Rightarrow> nat vres" where
  "fixvec_item_count num s = number_at num s 0"

definition fixvec_get_unchecked :: "nat \<Rightarrow> byte_list \<Rightarrow> nat \<Rightarrow> byte_list vres" where
  "fixvec_get_unchecked item_size s idx =
     (let start = NUMBER_SIZE + item_size * idx in slice_of s start (start + item_size))"

definition entity_total_size :: "number_codec \<Rightarrow> byte_list \<Rightarrow> nat vres" where
  "entity_total_size num s = number_at num s 0"

text \<open>\<open>item_count\<close> of a dynamic vector and \<open>field_count\<close> of a table are the same text.\<close>

definition offset_count :: "number_codec \<Rightarrow> byte_list \<Rightarrow> nat vres" where
  "offset_count num s = vbind (entity_total_size num s) (\<lambda>total.
     if total = NUMBER_SIZE then Verified 0
     else vbind (number_at num s NUMBER_SIZE) (\<lambda>first. usize_sub (checked_arith num) (first div 4) 1))"

definition dynvec_get_unchecked :: "number_codec \<Rightarrow> byte_list \<Rightarrow> nat \<Rightarrow> byte_list vres" where
  "dynvec_get_unchecked num s idx =
     (let start_idx = NUMBER_SIZE * (1 + idx)
      in vbind (number_at num s start_idx) (\<lambda>start.
         vbind (offset_count num s) (\<lambda>len.
         vbind (usize_sub (checked_arith num) len 1) (\<lambda>last'.
         if idx = last' then slice_from s start
         else vbind (number_at num s (start_idx + NUMBER_SIZE)) (\<lambda>end'. slice_of s start end')))))"

definition checked_get :: "nat vres \<Rightarrow> (nat \<Rightarrow> 'a vres) \<Rightarrow> nat \<Rightarrow> 'a option vres" where
  "checked_get count get idx = vbind count (\<lambda>n.
     if idx \<ge> n then Verified None else vbind (get idx) (\<lambda>x. Verified (Some x)))"

text \<open>
  Field \<open>i\<close> of a table with \<open>count\<close> fields: its offset is the number at \<open>4 * (i + 1)\<close>, its end
  the next offset. Only the last field may be the last in the table: then it ends with the slice,
  unless \<open>has_extra_fields\<close>.
\<close>

definition table_field :: "number_codec \<Rightarrow> nat \<Rightarrow> nat \<Rightarrow> byte_list \<Rightarrow> byte_list vres" where
  "table_field num count i s =
     vbind (number_at num s (4 * (i + 1))) (\<lambda>start.
     if i + 1 < count
     then vbind (number_at num s (4 * (i + 2))) (\<lambda>end'. slice_of s start end')
     else vbind (offset_count num s) (\<lambda>field_count.
       if count \<noteq> field_count
       then vbind (number_at num s (4 * (i + 2))) (\<lambda>end'. slice_of s start end')
       else slice_from s start))"

text \<open>An iterator \<open>(vector, next index, length)\<close>: \<open>next\<close>, and all the items it yields.\<close>

definition iter_next :: "(nat \<Rightarrow> 'a vres) \<Rightarrow> nat \<times> nat \<Rightarrow> ('a option \<times> nat \<times> nat) vres" where
  "iter_next get it = (case it of (i, n) \<Rightarrow>
     if i \<ge> n then Verified (None, i, n) else vbind (get i) (\<lambda>x. Verified (Some x, i + 1, n)))"

function iter_items :: "(nat \<Rightarrow> 'a vres) \<Rightarrow> nat \<times> nat \<Rightarrow> 'a list vres" where
  "iter_items get it =
     (case iter_next get it of
        Verified (Some x, it') \<Rightarrow> vbind (iter_items get it') (\<lambda>xs. Verified (x # xs))
      | Verified (None, _) \<Rightarrow> Verified []
      | Rejected e \<Rightarrow> Rejected e
      | Crashed k \<Rightarrow> Crashed k)"
  by pat_completeness auto

lemma iter_next_step: "iter_next get (i, n) = Verified (Some x, it') \<Longrightarrow> i < n \<and> it' = (i + 1, n)"
  by (cases "get i") (auto simp: iter_next_def split: if_splits)

termination iter_items
  by (relation "measure (\<lambda>(get, i, n). n - i)") (auto dest: iter_next_step)

definition into_items :: "nat vres \<Rightarrow> (nat \<Rightarrow> 'a vres) \<Rightarrow> 'a list vres" where
  "into_items count get = vbind count (\<lambda>len. iter_items get (0, len))"

section \<open>Builders\<close>

text \<open>\<open>write\<close> of an array: its bytes in order.\<close>

definition array_write :: "nat \<Rightarrow> u8 list \<Rightarrow> byte_list" where
  "array_write n items = concat (map (\<lambda>i. [items ! i]) [0..<n])"

definition fixvec_write :: "number_codec \<Rightarrow> byte_list list \<Rightarrow> byte_list" where
  "fixvec_write num items = packed num (length items) @ concat items"

text \<open>The running total and the offsets it takes: \<open>start\<close>, then past each part.\<close>

fun part_offsets :: "nat \<Rightarrow> byte_list list \<Rightarrow> nat \<times> nat list" where
  "part_offsets start [] = (start, [])"
| "part_offsets start (inner # rest) =
     (case part_offsets (start + length inner) rest of (end_of_parts, offsets) \<Rightarrow> (end_of_parts, start # offsets))"

definition table_write :: "number_codec \<Rightarrow> byte_list list \<Rightarrow> byte_list" where
  "table_write num parts =
     (case part_offsets (NUMBER_SIZE * (length parts + 1)) parts of (total_size, offsets) \<Rightarrow>
       packed num total_size @ concat (map (packed num) offsets) @ concat parts)"

definition dynvec_write :: "number_codec \<Rightarrow> byte_list list \<Rightarrow> byte_list" where
  "dynvec_write num items =
     (if length items = 0 then packed num NUMBER_SIZE
      else case part_offsets (NUMBER_SIZE * (length items + 1)) items of (total_size, offsets) \<Rightarrow>
        packed num total_size @ concat (map (packed num) offsets) @ concat items)"

definition table_expected_length :: "byte_list list \<Rightarrow> nat" where
  "table_expected_length parts = NUMBER_SIZE * (length parts + 1) + sum_list (map length parts)"

definition fixvec_expected_length :: "nat \<Rightarrow> byte_list list \<Rightarrow> nat" where
  "fixvec_expected_length item_size items = NUMBER_SIZE + item_size * length items"

text \<open>\<open>replace\<close> of a vector builder: the old item, when the index is in range.\<close>

definition builder_replace :: "'a list \<Rightarrow> nat \<Rightarrow> 'a \<Rightarrow> 'a option \<times> 'a list" where
  "builder_replace items i v = (if i < length items then (Some (items ! i), items[i := v]) else (None, items))"

declare chunks_exact.simps [simp del]
declare iter_items.simps [simp del]

section \<open>Windows and parts\<close>

lemma windows2_simps [simp]:
  "windows2 [] = []" "windows2 [a] = []" "windows2 (a # b # r) = (a, b) # windows2 (b # r)"
  by (simp_all add: windows2_def)

lemma descends_sorted: "descends offsets \<longleftrightarrow> \<not> sorted offsets"
proof (induction offsets rule: induct_list012)
  case (3 a b r)
  then show ?case by (auto simp: descends_def) (meson le_less_linear order_trans)
qed (simp_all add: descends_def)

text \<open>The parts of a slice between consecutive offsets.\<close>

fun parts :: "byte_list \<Rightarrow> nat list \<Rightarrow> byte_list list" where
  "parts s (a # b # r) = take (b - a) (drop a s) # parts s (b # r)"
| "parts s offsets = []"

lemma length_parts [simp]: "length (parts s offsets) = length offsets - 1"
  by (induction s offsets rule: parts.induct) auto

lemma nth_parts:
  "Suc i < length offsets \<Longrightarrow> parts s offsets ! i = take (offsets ! Suc i - offsets ! i) (drop (offsets ! i) s)"
proof (induction s offsets arbitrary: i rule: parts.induct)
  case (1 s a b r)
  then show ?case by (cases i) auto
qed auto

lemma concat_parts:
  assumes "sorted (a # offsets)" and "last (a # offsets) \<le> length s"
  shows "concat (parts s (a # offsets)) = take (last (a # offsets) - a) (drop a s)"
  using assms
proof (induction offsets arbitrary: a)
  case (Cons b r)
  have "take (b - a) (drop a s) @ take (last (b # r) - b) (drop b s) = take (last (b # r) - a) (drop a s)"
  proof -
    have "a \<le> b" "b \<le> last (b # r)" using Cons.prems by (auto split: if_splits)
    then have "last (b # r) - a = (b - a) + (last (b # r) - b)" "drop b s = drop (b - a) (drop a s)" by auto
    then show ?thesis by (metis take_add)
  qed
  with Cons show ?case by simp
qed simp

lemma part_offsets_parts:
  assumes "sorted (a # offsets)" and "last (a # offsets) \<le> length s"
  shows "part_offsets a (parts s (a # offsets)) = (last (a # offsets), butlast (a # offsets))"
  using assms
proof (induction offsets arbitrary: a)
  case (Cons b r)
  have "b \<le> last (b # r)" using Cons.prems by auto
  then have "a + min (length s - a) (b - a) = b" using Cons.prems by auto
  with Cons show ?case by (simp add: min.commute)
qed simp

lemma parts_of_parts:
  assumes "part_offsets (length pre) ps = (tot, os)"
  shows "parts (pre @ concat ps) (os @ [tot]) = ps \<and> tot = length (pre @ concat ps)
    \<and> sorted (os @ [tot]) \<and> length os = length ps \<and> hd (os @ [tot]) = length pre"
  using assms
proof (induction ps arbitrary: pre os)
  case (Cons p ps)
  obtain os' where rest: "part_offsets (length (pre @ p)) ps = (tot, os')" and os: "os = length pre # os'"
    using Cons.prems by (auto split: prod.splits)
  note IH = Cons.IH [OF rest]
  obtain b r where br: "os' @ [tot] = b # r" by (cases "os' @ [tot]") auto
  then have b: "b = length (pre @ p)" using IH by (metis list.sel(1))
  show ?case
  proof (cases "os' @ [tot]")
    case (Cons c cs)
    with br have "c = b" "cs = r" by simp_all
    then have "parts (pre @ p @ concat ps) (length pre # os' @ [tot]) = p # ps" "sorted (b # r)"
      using IH br b by (simp_all add: Cons [symmetric])
    then show ?thesis using IH os br b by (auto simp: br)
  qed simp
qed simp

section \<open>A slice with a header of offsets\<close>

text \<open>
  \<open>framed num s os\<close>: \<open>s\<close> is the total size, the offsets \<open>os\<close> and then its parts, without a gap.
  This is what both \<open>verify\<close> of a table and of a (non-empty) dynamic vector establish, what their
  \<open>write\<close> produces, and what their getters rely on.
\<close>

definition framed :: "number_codec \<Rightarrow> byte_list \<Rightarrow> nat list \<Rightarrow> bool" where
  "framed num s os \<longleftrightarrow> os \<noteq> [] \<and> hd os = 4 * (length os + 1) \<and> sorted (os @ [length s])
     \<and> length s < 2 ^ 32 \<and> s = packed num (length s) @ concat (map (packed num) os) @ drop (hd os) s"

abbreviation framed_parts :: "byte_list \<Rightarrow> nat list \<Rightarrow> byte_list list" where
  "framed_parts s os \<equiv> parts s (os @ [length s])"

lemma length_part_offsets: "part_offsets start ps = (tot, os) \<Longrightarrow> length os = length ps"
  by (induction ps arbitrary: start os) (auto split: prod.splits)

lemma verify_pairs_iff:
  assumes "sorted offsets" and "\<forall>x\<in>set offsets. x \<le> length s"
  shows "verify_pairs v s c (windows2 offsets) = Verified () \<longleftrightarrow> (\<forall>p\<in>set (parts s offsets). v p c = Verified ())"
    and "(\<And>p k. v p c \<noteq> Crashed k) \<Longrightarrow> verify_pairs v s c (windows2 offsets) \<noteq> Crashed k"
  using assms
proof (induction s offsets rule: parts.induct)
  case (1 s a b r)
  {
    case 1
    with "1.IH" show ?case by (cases "v (take (b - a) (drop a s)) c") (auto simp: slice_of_def)
  next
    case 2
    with "1.IH" show ?case by (cases "v (take (b - a) (drop a s)) c") (auto simp: slice_of_def)
  }
qed auto

lemma verify_fields_iff:
  assumes "sorted offsets" and "\<forall>x\<in>set offsets. x \<le> length s" and "length vs < length offsets"
  shows "verify_fields vs s c offsets = Verified () \<longleftrightarrow> (\<forall>i<length vs. (vs ! i) (parts s offsets ! i) c = Verified ())"
    and "(\<And>v p k. v \<in> set vs \<Longrightarrow> v p c \<noteq> Crashed k) \<Longrightarrow> verify_fields vs s c offsets \<noteq> Crashed k"
  using assms
proof (induction vs s c offsets rule: verify_fields.induct)
  case (2 v vs s c a b r)
  {
    case 1
    with "2.IH" show ?case
      by (cases "v (take (b - a) (drop a s)) c") (auto simp: slice_of_def All_less_Suc2)
  next
    case 2
    with "2.IH" show ?case by (cases "v (take (b - a) (drop a s)) c") (auto simp: slice_of_def)
  }
qed auto

lemma iter_items_from:
  "\<forall>i<length xs. get i = Verified (xs ! i) \<Longrightarrow> iter_items get (j, length xs) = Verified (drop j xs)"
proof (induction "length xs - j" arbitrary: j)
  case 0
  then show ?case by (subst iter_items.simps) (simp add: iter_next_def)
next
  case (Suc n)
  then have j: "j < length xs" "n = length xs - Suc j" by auto
  have "iter_items get (Suc j, length xs) = Verified (drop (Suc j) xs)" by (rule Suc.hyps(1) [OF j(2) Suc.prems])
  then show ?case
    using j(1) Suc.prems by (subst iter_items.simps) (simp add: iter_next_def Cons_nth_drop_Suc)
qed

lemma iter_items_all:
  "length xs = n \<Longrightarrow> \<forall>i<n. get i = Verified (xs ! i) \<Longrightarrow> iter_items get (0, n) = Verified xs"
  using iter_items_from [of xs get 0] by simp

text \<open>\<open>n\<close> pieces of \<open>k\<close> bytes.\<close>

fun fixed_parts :: "nat \<Rightarrow> nat \<Rightarrow> byte_list \<Rightarrow> byte_list list" where
  "fixed_parts k 0 s = []"
| "fixed_parts k (Suc n) s = take k s # fixed_parts k n (drop k s)"

lemma length_fixed_parts [simp]: "length (fixed_parts k n s) = n"
  by (induction k n s rule: fixed_parts.induct) auto

lemma nth_fixed_parts: "i < n \<Longrightarrow> fixed_parts k n s ! i = take k (drop (k * i) s)"
proof (induction k n s arbitrary: i rule: fixed_parts.induct)
  case (2 k n s)
  then show ?case by (cases i) (auto simp: add.commute)
qed simp

lemma concat_fixed_parts: "length s = k * n \<Longrightarrow> concat (fixed_parts k n s) = s"
  by (induction k n s rule: fixed_parts.induct) auto

lemma length_in_fixed_parts: "length s = k * n \<Longrightarrow> \<forall>p\<in>set (fixed_parts k n s). length p = k"
  by (induction k n s rule: fixed_parts.induct) auto

lemma nth_fixed_concat:
  "\<forall>p\<in>set ps. length p = k \<Longrightarrow> i < length ps \<Longrightarrow> take k (drop (k * i) (concat ps)) = ps ! i"
proof (induction ps arbitrary: i)
  case (Cons p ps)
  then show ?case by (cases i) auto
qed simp

text \<open>What the code relies on in the molecule crate: little-endian numbers of four bytes.\<close>

locale number_format =
  fixes num :: number_codec
  assumes length_pack: "length (pack_number num n) = 4"
    and unpack_pack: "unpack_number num (pack_number num n @ rest) = Some n"
    and pack_unpack: "4 \<le> length bs \<Longrightarrow> \<exists>n. unpack_number num bs = Some n \<and> pack_number num n = take 4 bs"
begin

lemma length_packed [simp]: "length (packed num n) = 4"
  by (simp add: packed_def length_pack)

lemma number_at_some:
  assumes "i + 4 \<le> length s"
  shows "\<exists>n. number_at num s i = Verified n \<and> n < 2 ^ 32 \<and> packed num n = take 4 (drop i s)"
proof -
  obtain n where "unpack_number num (drop i s) = Some n" "pack_number num n = take 4 (drop i s)"
  proof -
    have "4 \<le> length (drop i s)" using assms by simp
    from pack_unpack [OF this] show ?thesis using that by blast
  qed
  then show ?thesis
    using assms unsigned_less [of n] by (auto simp: number_at_def slice_from_def packed_def)
qed

lemma number_at_packed:
  assumes "n < 2 ^ 32" and "i = length pre"
  shows "number_at num (pre @ packed num n @ rest) i = Verified n"
  using assms by (simp add: number_at_def slice_from_def packed_def unpack_pack unsigned_of_nat take_bit_nat_eq_self)

lemma length_concat_packed [simp]: "length (concat (map (packed num) os)) = 4 * length os"
  by (induction os) auto

lemma number_at_offset:
  assumes "s = pre @ concat (map (packed num) os) @ rest" and "i < length os" and "\<forall>x\<in>set os. x < 2 ^ 32"
  shows "number_at num s (length pre + 4 * i) = Verified (os ! i)"
proof -
  have "s = (pre @ concat (map (packed num) (take i os))) @ packed num (os ! i)
      @ concat (map (packed num) (drop (Suc i) os)) @ rest"
    using assms(1,2) by (simp add: id_take_nth_drop [of i os, THEN arg_cong [where f = "\<lambda>l. concat (map (packed num) l)"]])
  then show ?thesis
    using number_at_packed [of "os ! i" "length pre + 4 * i" "pre @ concat (map (packed num) (take i os))"] assms(2,3)
    by simp
qed

lemma read_chunks:
  "length h = 4 * k \<Longrightarrow> \<exists>os. vmap (\<lambda>x. number_at num x 0) (chunks_exact 4 h) = Verified os
    \<and> length os = k \<and> concat (map (packed num) os) = h \<and> (\<forall>x\<in>set os. x < 2 ^ 32)"
proof (induction k arbitrary: h)
  case (Suc k)
  obtain n where n: "number_at num (take 4 h) 0 = Verified n" "packed num n = take 4 h" "n < 2 ^ 32"
    using number_at_some [of 0 "take 4 h"] Suc.prems by auto
  obtain os where "vmap (\<lambda>x. number_at num x 0) (chunks_exact 4 (drop 4 h)) = Verified os"
      "length os = k" "concat (map (packed num) os) = drop 4 h" "\<forall>x\<in>set os. x < 2 ^ 32"
    using Suc.IH [of "drop 4 h"] Suc.prems by auto
  with n Suc.prems show ?case by (intro exI [of _ "n # os"]) (simp add: chunks_exact.simps [of 4 h])
qed (simp add: chunks_exact.simps)

lemma chunks_packed:
  "\<forall>x\<in>set os. x < 2 ^ 32 \<Longrightarrow>
    vmap (\<lambda>x. number_at num x 0) (chunks_exact 4 (concat (map (packed num) os))) = Verified os"
proof (induction os)
  case (Cons x os)
  then show ?case
    using number_at_packed [of x 0 "[]" "[]"] by (simp add: chunks_exact.simps [of 4 "packed num x @ _"])
qed (simp add: chunks_exact.simps)

lemma framed_bounds:
  assumes "framed num s os"
  shows "8 \<le> hd os" and "hd os \<le> length s" and "\<forall>x\<in>set (os @ [length s]). x \<le> length s"
    and "\<forall>x\<in>set os. x < 2 ^ 32" and "hd os = os ! 0" and "0 < length os"
proof -
  have f: "os \<noteq> []" "hd os = 4 * (length os + 1)" "sorted (os @ [length s])" "length s < 2 ^ 32"
    using assms by (auto simp: framed_def)
  then show "0 < length os" "hd os = os ! 0" "8 \<le> hd os" by (auto simp: hd_conv_nth Suc_le_eq)
  have le: "\<forall>x\<in>set os. x \<le> length s" using f(3) by (simp add: sorted_append)
  then show "\<forall>x\<in>set (os @ [length s]). x \<le> length s" by simp
  show "\<forall>x\<in>set os. x < 2 ^ 32" using le f(4) by auto
  show "hd os \<le> length s" using le f(1) by simp
qed

lemma framed_rebuild:
  assumes "framed num s os"
  shows "table_write num (framed_parts s os) = s"
proof -
  have f: "hd os = 4 * (length os + 1)" "sorted (os @ [length s])"
      "s = packed num (length s) @ concat (map (packed num) os) @ drop (hd os) s"
    using assms by (auto simp: framed_def)
  obtain a r where os: "os @ [length s] = a # r" "a = hd os"
    using framed_bounds(6) [OF assms] by (cases os) auto
  have l: "last (a # r) = length s" "butlast (a # r) = os" using os(1) by (metis last_snoc, metis butlast_snoc)
  have "part_offsets a (framed_parts s os) = (length s, os)"
    using part_offsets_parts [of a r s] f(2) unfolding os(1) l by simp
  moreover have "concat (framed_parts s os) = drop a s"
    using concat_parts [of a r s] f(2) unfolding os(1) l by simp
  ultimately show ?thesis using f(1,3) os(2) by (simp add: table_write_def)
qed

lemma framed_write:
  assumes "ps \<noteq> []" and "length (table_write num ps) < 2 ^ 32"
  obtains os where "framed num (table_write num ps) os" and "framed_parts (table_write num ps) os = ps"
proof -
  obtain tot os where po: "part_offsets (4 * (length ps + 1)) ps = (tot, os)" by fastforce
  let ?pre = "packed num tot @ concat (map (packed num) os)"
  have len: "length os = length ps" by (rule length_part_offsets [OF po])
  then have pre: "length ?pre = 4 * (length ps + 1)" by simp
  have s: "table_write num ps = ?pre @ concat ps" using po by (simp add: table_write_def)
  have po': "part_offsets (length ?pre) ps = (tot, os)" using po pre by simp
  have P: "parts (?pre @ concat ps) (os @ [tot]) = ps" "tot = length (?pre @ concat ps)"
      "sorted (os @ [tot])" "hd (os @ [tot]) = length ?pre"
    using parts_of_parts [OF po'] by (blast, blast, blast, blast)
  have ne: "os \<noteq> []" using len assms(1) by auto
  then have "hd os = length ?pre" using P(4) by simp
  then have "framed num (table_write num ps) os"
    unfolding framed_def s using ne P(3) assms(2) len pre unfolding s P(2) [symmetric]
    by (auto simp: P(2) [symmetric])
  with that P(1) show thesis unfolding s P(2) [symmetric] by blast
qed

lemma framed_header:
  assumes "framed num s os"
  shows "number_at num s 0 = Verified (length s)" and "number_at num s 4 = Verified (hd os)"
    and "i < length os \<Longrightarrow> number_at num s (4 * (i + 1)) = Verified (os ! i)"
    and "read_offsets num s (hd os) (length s) = Verified (os @ [length s])"
    and "offset_count num s = Verified (length os)"
proof -
  note b = framed_bounds [OF assms]
  have s: "s = packed num (length s) @ concat (map (packed num) os) @ drop (hd os) s"
      and f: "hd os = 4 * (length os + 1)" "length s < 2 ^ 32"
    using assms by (auto simp: framed_def)
  show n0: "number_at num s 0 = Verified (length s)"
    using number_at_packed [OF f(2), of 0 "[]" "concat (map (packed num) os) @ drop (hd os) s"]
    by (simp flip: s)
  have at: "number_at num s (4 * (i + 1)) = Verified (os ! i)" if "i < length os" for i
    using number_at_offset [OF s that b(4)] by simp
  then show "i < length os \<Longrightarrow> number_at num s (4 * (i + 1)) = Verified (os ! i)" .
  show n4: "number_at num s 4 = Verified (hd os)" using at [of 0] b(5,6) by simp
  have "take (hd os - 4) (drop 4 s) = concat (map (packed num) os)"
    by (subst s) (simp add: f(1))
  then show "read_offsets num s (hd os) (length s) = Verified (os @ [length s])"
    using b(1,2) chunks_packed [OF b(4)] by (simp add: read_offsets_def slice_of_def)
  have "length s \<noteq> 4" using b(1,2) by simp
  then show "offset_count num s = Verified (length os)"
    using n0 n4 b(6) by (simp add: offset_count_def entity_total_size_def usize_sub_def f(1))
qed

lemma framed_read:
  assumes "number_at num s 0 = Verified (length s)" and "number_at num s 4 = Verified first"
    and "first mod 4 = 0" and "8 \<le> first" and "first \<le> length s"
  obtains os where "read_offsets num s first (length s) = Verified (os @ [length s])"
    and "length os = first div 4 - 1" and "sorted (os @ [length s]) \<Longrightarrow> framed num s os"
proof -
  let ?h = "take (first - 4) (drop 4 s)"
  have len: "length ?h = 4 * (first div 4 - 1)" using assms(3-5) by auto
  obtain os where os: "vmap (\<lambda>x. number_at num x 0) (chunks_exact 4 ?h) = Verified os"
      "length os = first div 4 - 1" "concat (map (packed num) os) = ?h" "\<forall>x\<in>set os. x < 2 ^ 32"
    using read_chunks [OF len] by blast
  have n0: "packed num (length s) = take 4 s" "length s < 2 ^ 32"
    using number_at_some [of 0 s] assms(1,4,5) by auto
  have s: "s = packed num (length s) @ concat (map (packed num) os) @ drop first s"
    unfolding n0(1) os(3) using assms(4) by (metis append_take_drop_id drop_drop le_add_diff_inverse2
        numeral_Bit0 order_trans numerals(1) le_add1)
  have ne: "0 < length os" using os(2) assms(4) by (simp add: less_eq_div_iff_mult_less_eq)
  have "number_at num s (length (packed num (length s)) + 4 * 0) = Verified (os ! 0)"
    by (rule number_at_offset [OF s ne os(4)])
  then have "hd os = first" using assms(2) ne by (simp add: hd_conv_nth)
  moreover have "first = 4 * (length os + 1)" using os(2) assms(3,4) by auto
  ultimately have "sorted (os @ [length s]) \<Longrightarrow> framed num s os"
    using s ne n0(2) by (simp add: framed_def)
  moreover have "read_offsets num s first (length s) = Verified (os @ [length s])"
    using os(1) assms(4,5) by (simp add: read_offsets_def slice_of_def)
  ultimately show thesis using that os(2) by blast
qed

lemma framed_step:
  assumes "framed num s os" and "i < length os"
  shows "os ! i \<le> length s" and "i + 1 < length os \<Longrightarrow> os ! i \<le> os ! (i + 1)"
    and "i + 1 < length os \<Longrightarrow> framed_parts s os ! i = take (os ! (i + 1) - os ! i) (drop (os ! i) s)"
    and "i + 1 = length os \<Longrightarrow> framed_parts s os ! i = drop (os ! i) s"
proof -
  show "os ! i \<le> length s" using framed_bounds(3) [OF assms(1)] assms(2) by simp
  have "sorted os" using assms(1) by (simp add: framed_def sorted_append)
  then show "i + 1 < length os \<Longrightarrow> os ! i \<le> os ! (i + 1)" by (simp add: sorted_nth_mono)
qed (use assms(2) in \<open>auto simp: nth_parts nth_append\<close>)

lemma framed_field:
  assumes "framed num s os" and "i < count" and "count \<le> length os"
  shows "table_field num count i s = Verified (framed_parts s os ! i)"
proof -
  have i: "i < length os" using assms(2,3) by simp
  note st = framed_step [OF assms(1) i]
  note at = framed_header(3) [OF assms(1)]
  have next_at: "number_at num s (4 * (i + 2)) = Verified (os ! (i + 1))" if "i + 1 < length os"
    using at [OF that] by (simp add: algebra_simps)
  have le: "i + 1 < length os \<Longrightarrow> os ! (i + 1) \<le> length s" using framed_step(1) [OF assms(1)] by simp
  show ?thesis
  proof (cases "i + 1 < length os")
    case True
    then show ?thesis
      using at [OF i] next_at [OF True] st(2,3) le assms(2)
      by (auto simp: table_field_def slice_of_def framed_header(5) [OF assms(1)])
  next
    case False
    then show ?thesis
      using at [OF i] st(1,4) assms(2,3) i
      by (auto simp: table_field_def slice_from_def framed_header(5) [OF assms(1)])
  qed
qed

lemma framed_get:
  assumes "framed num s os" and i: "i < length os"
  shows "dynvec_get_unchecked num s i = Verified (framed_parts s os ! i)"
proof -
  note st = framed_step [OF assms]
  note at = framed_header(3) [OF assms(1)]
  have next_at: "number_at num s (4 * (1 + i) + 4) = Verified (os ! (i + 1))" if "i + 1 < length os"
    using at [OF that] by (simp add: algebra_simps)
  have le: "i + 1 < length os \<Longrightarrow> os ! (i + 1) \<le> length s" using framed_step(1) [OF assms(1)] by simp
  have here: "number_at num s (4 * (1 + i)) = Verified (os ! i)" using at [OF i] by (simp add: algebra_simps)
  show ?thesis
  proof (cases "i + 1 < length os")
    case True
    then show ?thesis
      using here next_at [OF True] st(2,3) le
      by (auto simp: dynvec_get_unchecked_def slice_of_def usize_sub_def Let_def framed_header(5) [OF assms(1)])
  next
    case False
    then have "i = length os - 1" using i by simp
    then show ?thesis
      using here st(1,4) i
      by (simp add: dynvec_get_unchecked_def slice_from_def usize_sub_def Let_def framed_header(5) [OF assms(1)])
  qed
qed

lemma table_verify_ok:
  assumes "vs \<noteq> []"
  shows "table_verify num name vs s c = Verified () \<longleftrightarrow>
    (\<exists>os. framed num s os \<and> length vs \<le> length os \<and> (c \<or> length os = length vs)
       \<and> (\<forall>i<length vs. (vs ! i) (framed_parts s os ! i) c = Verified ()))"
proof
  assume v: "table_verify num name vs s c = Verified ()"
  then obtain first where h: "number_at num s 0 = Verified (length s)" "number_at num s 4 = Verified first"
      "first mod 4 = 0" "8 \<le> first" "first \<le> length s"
    by (cases "number_at num s 0"; cases "number_at num s 4") (simp_all add: table_verify_def split: if_splits)
  obtain os where os: "read_offsets num s first (length s) = Verified (os @ [length s])"
      "length os = first div 4 - 1" "sorted (os @ [length s]) \<Longrightarrow> framed num s os"
    using framed_read [OF h] by blast
  have v': "length vs \<le> length os" "c \<or> length os = length vs" "sorted (os @ [length s])"
      "verify_fields vs s c (os @ [length s]) = Verified ()"
    using v h os(1,2) by (auto simp: table_verify_def descends_sorted Let_def split: if_splits)
  then show "\<exists>os. framed num s os \<and> length vs \<le> length os \<and> (c \<or> length os = length vs)
       \<and> (\<forall>i<length vs. (vs ! i) (framed_parts s os ! i) c = Verified ())"
    using os(3) verify_fields_iff(1) [OF v'(3) framed_bounds(3) [OF os(3) [OF v'(3)]], of vs c] by auto
next
  assume "\<exists>os. framed num s os \<and> length vs \<le> length os \<and> (c \<or> length os = length vs)
       \<and> (\<forall>i<length vs. (vs ! i) (framed_parts s os ! i) c = Verified ())"
  then obtain os where os: "framed num s os" "length vs \<le> length os" "c \<or> length os = length vs"
      "\<forall>i<length vs. (vs ! i) (framed_parts s os ! i) c = Verified ()"
    by blast
  note b = framed_bounds [OF os(1)]
  have f: "hd os = 4 * (length os + 1)" "sorted (os @ [length s])" using os(1) by (auto simp: framed_def)
  have L: "8 \<le> length s" "hd os mod 4 = 0" "hd os div 4 = length os + 1" using b(1,2) f(1) by simp_all
  have "verify_fields vs s c (os @ [length s]) = Verified ()"
    using verify_fields_iff(1) [OF f(2) b(3), of vs c] os(2,4) by simp
  then show "table_verify num name vs s c = Verified ()"
    using os(2,3) b(1,2) f(2) L(2) framed_header(1,2,4) [OF os(1)] L(1,3)
    by (auto simp: table_verify_def descends_sorted Let_def)
qed

lemma table_verify_no_crash:
  assumes "\<And>v p k. v \<in> set vs \<Longrightarrow> v p c \<noteq> Crashed k"
  shows "table_verify num name vs s c \<noteq> Crashed k"
proof (cases "8 \<le> length s")
  case True
  then obtain n where n: "number_at num s 0 = Verified n" using number_at_some [of 0 s] by auto
  obtain first where f: "number_at num s 4 = Verified first" using number_at_some [of 4 s] True by auto
  show ?thesis
  proof (cases "n = length s \<and> first mod 4 = 0 \<and> 8 \<le> first \<and> first \<le> length s")
    case True
    then have h: "number_at num s 0 = Verified (length s)" "first mod 4 = 0" "8 \<le> first" "first \<le> length s"
      using n by auto
    obtain os where os: "read_offsets num s first (length s) = Verified (os @ [length s])"
        "length os = first div 4 - 1" "sorted (os @ [length s]) \<Longrightarrow> framed num s os"
      using framed_read [OF h(1) f h(2-4)] by blast
    have "verify_fields vs s c (os @ [length s]) \<noteq> Crashed k" if "sorted (os @ [length s])" "length vs \<le> length os"
      using verify_fields_iff(2) [OF that(1) framed_bounds(3) [OF os(3) [OF that(1)]], of vs c] assms that(2) by auto
    then show ?thesis
      using n f os(1,2) by (auto simp: table_verify_def descends_sorted Let_def split: if_splits)
  next
    case False
    with n f show ?thesis by (auto simp: table_verify_def Let_def)
  qed
next
  case False
  then show ?thesis
    using number_at_some [of 0 s] by (cases "4 \<le> length s") (auto simp: table_verify_def split: if_splits)
qed

lemma dynvec_verify_ok:
  "dynvec_verify num name item s c = Verified () \<longleftrightarrow>
    s = packed num 4 \<or> (\<exists>os. framed num s os \<and> (\<forall>p\<in>set (framed_parts s os). item p c = Verified ()))"
proof
  assume v: "dynvec_verify num name item s c = Verified ()"
  then have n0: "number_at num s 0 = Verified (length s)" "4 \<le> length s"
    by (cases "number_at num s 0", auto simp: dynvec_verify_def split: if_splits)
  show "s = packed num 4 \<or> (\<exists>os. framed num s os \<and> (\<forall>p\<in>set (framed_parts s os). item p c = Verified ()))"
  proof (cases "length s = 4")
    case True
    then show ?thesis using number_at_some [of 0 s] n0 by auto
  next
    case False
    with v n0 obtain first where h: "number_at num s 4 = Verified first"
        "first mod 4 = 0" "8 \<le> first" "first \<le> length s"
      by (cases "number_at num s 4") (auto simp: dynvec_verify_def split: if_splits)
    obtain os where os: "read_offsets num s first (length s) = Verified (os @ [length s])"
        "length os = first div 4 - 1" "sorted (os @ [length s]) \<Longrightarrow> framed num s os"
      using framed_read [OF n0(1) h] by blast
    have v': "sorted (os @ [length s])" "verify_pairs item s c (windows2 (os @ [length s])) = Verified ()"
      using v n0 h os(1) False by (auto simp: dynvec_verify_def descends_sorted split: if_splits)
    then show ?thesis
      using os(3) verify_pairs_iff(1) [OF v'(1) framed_bounds(3) [OF os(3) [OF v'(1)]], of item c] by auto
  qed
next
  assume "s = packed num 4 \<or> (\<exists>os. framed num s os \<and> (\<forall>p\<in>set (framed_parts s os). item p c = Verified ()))"
  then show "dynvec_verify num name item s c = Verified ()"
  proof (elim disjE exE conjE)
    assume "s = packed num 4"
    then show ?thesis using number_at_packed [of 4 0 "[]" "[]"] by (simp add: dynvec_verify_def)
  next
    fix os assume os: "framed num s os" "\<forall>p\<in>set (framed_parts s os). item p c = Verified ()"
    note b = framed_bounds [OF os(1)]
    have f: "hd os = 4 * (length os + 1)" "sorted (os @ [length s])" using os(1) by (auto simp: framed_def)
    have L: "8 \<le> length s" "hd os mod 4 = 0" using b(1,2) f(1) by simp_all
    have "verify_pairs item s c (windows2 (os @ [length s])) = Verified ()"
      using verify_pairs_iff(1) [OF f(2) b(3), of item c] os(2) by simp
    then show ?thesis
      using b(1,2) f(2) L framed_header(1,2,4) [OF os(1)]
      by (simp add: dynvec_verify_def descends_sorted)
  qed
qed

lemma dynvec_verify_no_crash:
  assumes "\<And>p k. item p c \<noteq> Crashed k"
  shows "dynvec_verify num name item s c \<noteq> Crashed k"
proof (cases "8 \<le> length s")
  case True
  then obtain n where n: "number_at num s 0 = Verified n" using number_at_some [of 0 s] by auto
  obtain first where f: "number_at num s 4 = Verified first" using number_at_some [of 4 s] True by auto
  show ?thesis
  proof (cases "n = length s \<and> first mod 4 = 0 \<and> 8 \<le> first \<and> first \<le> length s")
    case True
    then have h: "number_at num s 0 = Verified (length s)" "first mod 4 = 0" "8 \<le> first" "first \<le> length s"
      using n by auto
    obtain os where os: "read_offsets num s first (length s) = Verified (os @ [length s])"
        "sorted (os @ [length s]) \<Longrightarrow> framed num s os"
      using framed_read [OF h(1) f h(2-4)] by blast
    have "verify_pairs item s c (windows2 (os @ [length s])) \<noteq> Crashed k" if "sorted (os @ [length s])"
      using verify_pairs_iff(2) [OF that framed_bounds(3) [OF os(2) [OF that]], of item c] assms by auto
    then show ?thesis
      using n f os(1) by (auto simp: dynvec_verify_def descends_sorted split: if_splits)
  next
    case False
    with n f show ?thesis by (auto simp: dynvec_verify_def)
  qed
next
  case False
  then show ?thesis
    using number_at_some [of 0 s] by (cases "4 \<le> length s") (auto simp: dynvec_verify_def split: if_splits)
qed

section \<open>Items of a vector\<close>

lemma dynvec_items:
  assumes "dynvec_verify num name item s c = Verified ()"
  obtains ps where "into_items (offset_count num s) (dynvec_get_unchecked num s) = Verified ps"
    and "dynvec_write num ps = s" and "\<forall>p\<in>set ps. item p c = Verified ()"
    and "offset_count num s = Verified (length ps)"
    and "\<And>i. i < length ps \<Longrightarrow> dynvec_get_unchecked num s i = Verified (ps ! i)"
proof (cases "s = packed num 4")
  case True
  then have "offset_count num s = Verified 0"
    using number_at_packed [of 4 0 "[]" "[]"] by (simp add: offset_count_def entity_total_size_def)
  then show ?thesis
    using that [of "[]"] True by (simp add: into_items_def iter_items.simps iter_next_def dynvec_write_def)
next
  case False
  then obtain os where os: "framed num s os" "\<forall>p\<in>set (framed_parts s os). item p c = Verified ()"
    using assms dynvec_verify_ok by blast
  have n: "offset_count num s = Verified (length os)" by (rule framed_header(5) [OF os(1)])
  have "into_items (offset_count num s) (dynvec_get_unchecked num s) = Verified (framed_parts s os)"
    unfolding n into_items_def using framed_get [OF os(1)] by (simp add: iter_items_all)
  moreover have "dynvec_write num (framed_parts s os) = s"
    using framed_rebuild [OF os(1)] framed_bounds(6) [OF os(1)] by (simp add: dynvec_write_def table_write_def)
  ultimately show ?thesis using that [of "framed_parts s os"] os n framed_get [OF os(1)] by simp
qed

lemma dynvec_built:
  assumes "length (dynvec_write num ps) < 2 ^ 32" and "\<forall>p\<in>set ps. item p c = Verified ()"
  shows "dynvec_verify num name item (dynvec_write num ps) c = Verified ()"
    and "into_items (offset_count num (dynvec_write num ps)) (dynvec_get_unchecked num (dynvec_write num ps)) = Verified ps"
proof -
  have "dynvec_verify num name item (dynvec_write num ps) c = Verified () \<and>
    into_items (offset_count num (dynvec_write num ps)) (dynvec_get_unchecked num (dynvec_write num ps)) = Verified ps"
  proof (cases "ps = []")
    case True
    then show ?thesis
      using number_at_packed [of 4 0 "[]" "[]"]
      by (simp add: dynvec_verify_ok dynvec_write_def offset_count_def entity_total_size_def
          into_items_def iter_items.simps iter_next_def)
  next
    case False
    then have w: "dynvec_write num ps = table_write num ps" by (simp add: dynvec_write_def table_write_def)
    obtain os where os: "framed num (table_write num ps) os" "framed_parts (table_write num ps) os = ps"
      using framed_write [OF False] assms(1) unfolding w by blast
    have "length os = length ps" using os(2) by (metis length_parts length_append_singleton diff_Suc_1)
    then have "into_items (offset_count num (table_write num ps)) (dynvec_get_unchecked num (table_write num ps)) = Verified ps"
      unfolding framed_header(5) [OF os(1)] into_items_def
      using framed_get [OF os(1)] os(2) by (simp add: iter_items_all)
    moreover have "dynvec_verify num name item (table_write num ps) c = Verified ()"
      unfolding dynvec_verify_ok using os assms(2) by auto
    ultimately show ?thesis unfolding w by blast
  qed
  then show "dynvec_verify num name item (dynvec_write num ps) c = Verified ()"
    "into_items (offset_count num (dynvec_write num ps)) (dynvec_get_unchecked num (dynvec_write num ps)) = Verified ps"
    by auto
qed

lemma fixvec_verify_ok:
  "fixvec_verify num name k s c = Verified () \<longleftrightarrow>
    4 \<le> length s \<and> (\<exists>n. number_at num s 0 = Verified n \<and> length s = 4 + k * n)"
proof (cases "4 \<le> length s")
  case True
  then obtain n where "number_at num s 0 = Verified n" using number_at_some [of 0 s] by auto
  with True show ?thesis by (auto simp: fixvec_verify_def Let_def)
qed (simp add: fixvec_verify_def)

lemma fixvec_verify_no_crash: "fixvec_verify num name k s c \<noteq> Crashed e"
  using number_at_some [of 0 s] by (cases "4 \<le> length s") (auto simp: fixvec_verify_def Let_def split: if_splits)

lemma fixvec_items:
  assumes "fixvec_verify num name k s c = Verified ()"
  obtains ps where "into_items (fixvec_item_count num s) (fixvec_get_unchecked k s) = Verified ps"
    and "fixvec_write num ps = s" and "\<forall>p\<in>set ps. length p = k"
    and "fixvec_item_count num s = Verified (length ps)"
    and "\<And>i. i < length ps \<Longrightarrow> fixvec_get_unchecked k s i = Verified (ps ! i)"
proof -
  obtain n where n: "number_at num s 0 = Verified n" "length s = 4 + k * n" "4 \<le> length s"
    using assms unfolding fixvec_verify_ok by blast
  let ?ps = "fixed_parts k n (drop 4 s)"
  have get: "fixvec_get_unchecked k s i = Verified (?ps ! i)" if "i < n" for i
  proof -
    have "k * Suc i \<le> k * n" using that by (intro mult_le_mono2) simp
    then show ?thesis using n(2) that
      by (simp add: fixvec_get_unchecked_def slice_of_def nth_fixed_parts Let_def add.commute)
  qed
  have "into_items (fixvec_item_count num s) (fixvec_get_unchecked k s) = Verified ?ps"
    using n(1) get by (simp add: into_items_def fixvec_item_count_def iter_items_all)
  moreover have "fixvec_write num ?ps = s"
  proof -
    have "packed num n = take 4 s" using number_at_some [of 0 s] n by auto
    then show ?thesis using n(2) by (simp add: fixvec_write_def concat_fixed_parts)
  qed
  moreover have "\<forall>p\<in>set ?ps. length p = k" by (rule length_in_fixed_parts) (use n(2) in simp)
  ultimately show thesis using that [of ?ps] n(1) get by (simp add: fixvec_item_count_def)
qed

lemma fixvec_built:
  assumes "length ps < 2 ^ 32" and "\<forall>p\<in>set ps. length p = k"
  shows "fixvec_verify num name k (fixvec_write num ps) c = Verified ()"
    and "into_items (fixvec_item_count num (fixvec_write num ps)) (fixvec_get_unchecked k (fixvec_write num ps)) = Verified ps"
proof -
  have n: "number_at num (fixvec_write num ps) 0 = Verified (length ps)"
    using number_at_packed [OF assms(1), of 0 "[]"] by (simp add: fixvec_write_def)
  have len: "length (concat ps) = k * length ps" using assms(2) by (induction ps) auto
  then show v: "fixvec_verify num name k (fixvec_write num ps) c = Verified ()"
    using n by (auto simp: fixvec_verify_ok) (simp_all add: fixvec_write_def)
  have get: "fixvec_get_unchecked k (fixvec_write num ps) i = Verified (ps ! i)" if "i < length ps" for i
  proof -
    have "k * Suc i \<le> k * length ps" using that by (intro mult_le_mono2) simp
    then show ?thesis using that assms(2) len
      by (simp add: fixvec_get_unchecked_def fixvec_write_def slice_of_def Let_def nth_fixed_concat add.commute)
  qed
  then show "into_items (fixvec_item_count num (fixvec_write num ps)) (fixvec_get_unchecked k (fixvec_write num ps)) = Verified ps"
    using n by (simp add: into_items_def fixvec_item_count_def iter_items_all)
qed

section \<open>Parts of a table\<close>

lemma table_parts:
  assumes "table_verify num name vs s c = Verified ()" and "length vs = n" and "0 < n"
  obtains ps where "n \<le> length ps"
    and "\<And>i. i < n \<Longrightarrow> table_field num n i s = Verified (ps ! i)"
    and "\<And>i. i < n \<Longrightarrow> (vs ! i) (ps ! i) c = Verified ()"
    and "\<not> c \<Longrightarrow> length ps = n \<and> table_write num ps = s"
proof -
  have "vs \<noteq> []" using assms(2,3) by auto
  then obtain os where os: "framed num s os" "length vs \<le> length os" "c \<or> length os = length vs"
      "\<forall>i<length vs. (vs ! i) (framed_parts s os ! i) c = Verified ()"
    using assms(1) table_verify_ok by blast
  then show thesis
    using that [of "framed_parts s os"] framed_field [OF os(1)] framed_rebuild [OF os(1)] assms(2) by auto
qed

lemma table_built:
  assumes "length (table_write num ps) < 2 ^ 32" and "length vs = length ps" and "ps \<noteq> []"
    and "\<And>i. i < length ps \<Longrightarrow> (vs ! i) (ps ! i) c = Verified ()"
  shows "table_verify num name vs (table_write num ps) c = Verified ()"
    and "i < length ps \<Longrightarrow> table_field num (length ps) i (table_write num ps) = Verified (ps ! i)"
proof -
  obtain os where os: "framed num (table_write num ps) os" "framed_parts (table_write num ps) os = ps"
    using framed_write [OF assms(3,1)] by blast
  have len: "length os = length ps" using os(2) by (metis length_parts length_append_singleton diff_Suc_1)
  have "vs \<noteq> []" using assms(2,3) by auto
  note ok = table_verify_ok [OF this, of name "table_write num ps" c]
  have "\<forall>i<length vs. (vs ! i) (framed_parts (table_write num ps) os ! i) c = Verified ()"
    using assms(2,4) os(2) by simp
  then show "table_verify num name vs (table_write num ps) c = Verified ()"
    unfolding ok using os(1) len assms(2) by (intro exI [of _ os]) simp
  show "i < length ps \<Longrightarrow> table_field num (length ps) i (table_write num ps) = Verified (ps ! i)"
    using framed_field [OF os(1), of i "length ps"] os(2) len by simp
qed

lemma length_table_write: "length (table_write num ps) = 4 * (length ps + 1) + length (concat ps)"
proof -
  obtain tot os where "part_offsets (4 * (length ps + 1)) ps = (tot, os)" by fastforce
  moreover from this have "length os = length ps" by (rule length_part_offsets)
  ultimately show ?thesis by (simp add: table_write_def)
qed

lemma length_dynvec_write: "length (dynvec_write num ps) = 4 * (length ps + 1) + length (concat ps)"
  using length_table_write [of ps] by (auto simp: dynvec_write_def table_write_def)

lemma length_fixvec_write: "length (fixvec_write num ps) = 4 + length (concat ps)"
  by (simp add: fixvec_write_def)

end

text \<open>Little-endian numbers, as the \<open>DEFAULT_VALUE\<close>s of the generated code have them.\<close>

definition le_number :: "u32 \<Rightarrow> byte_list" where
  "le_number n = [ucast n, ucast (drop_bit 8 n), ucast (drop_bit 16 n), ucast (drop_bit 24 n)]"

fun le_unpack :: "byte_list \<Rightarrow> u32 option" where
  "le_unpack (a # b # c # d # rest) =
     Some (ucast a OR push_bit 8 (ucast b) OR push_bit 16 (ucast c) OR push_bit 24 (ucast d))"
| "le_unpack bs = None"

definition le_codec :: "bool \<Rightarrow> number_codec" where
  "le_codec chk = \<lparr>pack_number = le_number, unpack_number = le_unpack, checked_arith = chk\<rparr>"

lemma le_unpack_pack: "le_unpack (le_number n @ rest) = Some n"
proof -
  have "bit (ucast (ucast n :: u8) OR push_bit 8 (ucast (ucast (drop_bit 8 n) :: u8))
      OR push_bit 16 (ucast (ucast (drop_bit 16 n) :: u8))
      OR push_bit 24 (ucast (ucast (drop_bit 24 n) :: u8)) :: u32) i = bit n i" if "i < 32" for i
  proof -
    consider "i < 8" | "8 \<le> i" "i < 16" | "16 \<le> i" "i < 24" | "24 \<le> i" by linarith
    then show ?thesis using that by cases (auto simp: bit_simps)
  qed
  then show ?thesis by (simp add: le_number_def) (rule bit_word_eqI, simp)
qed

lemma no_high_bit:
  "\<not> bit (a :: u8) (8 + n)" "\<not> bit a (16 + n)" "\<not> bit a (24 + n)"
  by (auto dest: bit_imp_le_length)

lemma le_pack_unpack:
  assumes "4 \<le> length bs"
  shows "\<exists>n. le_unpack bs = Some n \<and> le_number n = take 4 bs"
proof -
  obtain a b c d rest where "bs = a # b # c # d # rest"
    using assms by (auto simp: Suc_le_length_iff numeral_eq_Suc)
  then show ?thesis
    by (simp add: le_number_def) (intro conjI; rule bit_word_eqI; auto simp: bit_simps no_high_bit)
qed

interpretation le: number_format "le_codec chk" for chk
  by unfold_locales (simp_all add: le_codec_def le_unpack_pack le_pack_unpack, simp add: le_number_def)

end
