(* ===== verification/Entity.thy ===== *)
theory Entity
  imports Molecule
begin

text \<open>
  The contract between \<open>verify\<close>, the getters and the builders of one serialised type, as the locale
  \<open>entity\<close>: \<open>verify\<close> never panics; what it accepts can be read; what it accepts in strict mode is
  exactly what the builder writes for the value read; what the builder writes is accepted in both
  modes and read back. One lemma per shape lifts the contract from the items to the whole.
\<close>

locale entity =
  fixes verify :: verifier and decode :: "byte_list \<Rightarrow> 'a vres" and encode :: "'a \<Rightarrow> byte_list"
    and wf :: "'a \<Rightarrow> bool"
  assumes no_crash: "verify s c \<noteq> Crashed k"
    and readable: "verify s c = Verified () \<Longrightarrow> \<exists>v. decode s = Verified v \<and> wf v"
    and canonical: "verify s False = Verified () \<Longrightarrow> decode s = Verified v \<Longrightarrow> encode v = s"
    and built: "wf v \<Longrightarrow> length (encode v) < 2 ^ 32 \<Longrightarrow>
      verify (encode v) c = Verified () \<and> decode (encode v) = Verified v"
begin

lemma one_encoding:
  "verify s False = Verified () \<Longrightarrow> verify t False = Verified () \<Longrightarrow> decode s = decode t \<Longrightarrow> s = t"
  by (metis canonical readable)

lemma encode_inj:
  assumes "wf v" and "wf w" and "length (encode v) < 2 ^ 32" and "encode v = encode w"
  shows "v = w"
  using built [OF assms(1,3)] built [OF assms(2)] assms(3,4) by (metis vres.inject(1))

end

lemma vmap_Verified:
  "\<forall>x\<in>set xs. \<exists>y. f x = Verified y \<and> P x y \<Longrightarrow> \<exists>ys. vmap f xs = Verified ys \<and> list_all2 P xs ys"
proof (induction xs)
  case (Cons x xs)
  then obtain y ys where "f x = Verified y" "P x y" "vmap f xs = Verified ys" "list_all2 P xs ys" by auto
  then show ?case by auto
qed simp

lemma vmap_map: "\<forall>x\<in>set xs. f (g x) = Verified x \<Longrightarrow> vmap f (map g xs) = Verified xs"
  by (induction xs) auto

lemma list_all2_map_eq: "list_all2 (\<lambda>x y. g y = x) xs ys \<Longrightarrow> map g ys = xs"
  by (induction rule: list_all2_induct) auto

lemma list_all2_right: "list_all2 (\<lambda>x y. P y) xs ys \<Longrightarrow> list_all P ys"
  by (induction rule: list_all2_induct) auto

text \<open>Reading a vector: its iterator, each item decoded.\<close>

definition fixvec_decode :: "number_codec \<Rightarrow> nat \<Rightarrow> (byte_list \<Rightarrow> 'a) \<Rightarrow> byte_list \<Rightarrow> 'a list vres" where
  "fixvec_decode num k get s = vbind (into_items (fixvec_item_count num s) (fixvec_get_unchecked k s))
     (\<lambda>ps. Verified (map get ps))"

definition dynvec_decode :: "number_codec \<Rightarrow> (byte_list \<Rightarrow> 'a vres) \<Rightarrow> byte_list \<Rightarrow> 'a list vres" where
  "dynvec_decode num get s = vbind (into_items (offset_count num s) (dynvec_get_unchecked num s)) (vmap get)"

text \<open>Reading a table: its getters, in order.\<close>

definition table3_decode :: "number_codec \<Rightarrow>
    (byte_list \<Rightarrow> 'a vres) \<Rightarrow> (byte_list \<Rightarrow> 'b vres) \<Rightarrow> (byte_list \<Rightarrow> 'c vres) \<Rightarrow>
    byte_list \<Rightarrow> ('a \<times> 'b \<times> 'c) vres" where
  "table3_decode num d1 d2 d3 s =
     vbind (vbind (table_field num 3 0 s) d1) (\<lambda>a.
     vbind (vbind (table_field num 3 1 s) d2) (\<lambda>b.
     vbind (vbind (table_field num 3 2 s) d3) (\<lambda>c. Verified (a, b, c))))"

definition table5_decode :: "number_codec \<Rightarrow>
    (byte_list \<Rightarrow> 'a vres) \<Rightarrow> (byte_list \<Rightarrow> 'b vres) \<Rightarrow> (byte_list \<Rightarrow> 'c vres) \<Rightarrow>
    (byte_list \<Rightarrow> 'd vres) \<Rightarrow> (byte_list \<Rightarrow> 'e vres) \<Rightarrow>
    byte_list \<Rightarrow> ('a \<times> 'b \<times> 'c \<times> 'd \<times> 'e) vres" where
  "table5_decode num d1 d2 d3 d4 d5 s =
     vbind (vbind (table_field num 5 0 s) d1) (\<lambda>a.
     vbind (vbind (table_field num 5 1 s) d2) (\<lambda>b.
     vbind (vbind (table_field num 5 2 s) d3) (\<lambda>c.
     vbind (vbind (table_field num 5 3 s) d4) (\<lambda>d.
     vbind (vbind (table_field num 5 4 s) d5) (\<lambda>e. Verified (a, b, c, d, e))))))"

lemma less_three: "i < (3 :: nat) \<longleftrightarrow> i = 0 \<or> i = 1 \<or> i = 2"
  by auto

lemma less_five: "i < (5 :: nat) \<longleftrightarrow> i = 0 \<or> i = 1 \<or> i = 2 \<or> i = 3 \<or> i = 4"
  by auto

lemma nth_three: "[a, b, c] ! 0 = a" "[a, b, c] ! 1 = b" "[a, b, c] ! 2 = c"
  by simp_all

lemma nth_five: "[a, b, c, d, e] ! 0 = a" "[a, b, c, d, e] ! 1 = b" "[a, b, c, d, e] ! 2 = c"
  "[a, b, c, d, e] ! 3 = d" "[a, b, c, d, e] ! 4 = e"
  by simp_all

lemma list_three: "length ps = 3 \<Longrightarrow> ps = [ps ! 0, ps ! 1, ps ! 2]"
  by (auto simp: numeral_eq_Suc length_Suc_conv)

lemma list_five: "length ps = 5 \<Longrightarrow> ps = [ps ! 0, ps ! 1, ps ! 2, ps ! 3, ps ! 4]"
  by (auto simp: numeral_eq_Suc length_Suc_conv)

text \<open>The contract gives at once what a getter followed by a decoder does.\<close>

lemma entity_read:
  assumes "entity V D E W" and "V p c = Verified ()"
  obtains v where "D p = Verified v" and "W v" and "\<not> c \<Longrightarrow> E v = p"
proof -
  obtain v where v: "D p = Verified v" "W v" using entity.readable [OF assms] by blast
  moreover have "\<not> c \<Longrightarrow> E v = p" using entity.canonical [OF assms(1) _ v(1)] assms(2) by simp
  ultimately show thesis by (rule that)
qed

lemma entity_array: "entity (array_verify name k) Verified (\<lambda>v. v) (\<lambda>v. length v = k)"
  by unfold_locales (auto simp: array_verify_def split: if_splits)

context number_format
begin

lemma entity_fixvec:
  assumes "\<And>p. length p = k \<Longrightarrow> put (get p) = p \<and> W (get p)"
    and "\<And>v. W v \<Longrightarrow> length (put v) = k \<and> get (put v) = v" and "0 < k"
  shows "entity (fixvec_verify num name k) (fixvec_decode num k get)
    (\<lambda>vs. fixvec_write num (map put vs)) (list_all W)"
proof
  show "fixvec_verify num name k s c \<noteq> Crashed e" for s c e by (rule fixvec_verify_no_crash)
next
  fix s c assume "fixvec_verify num name k s c = Verified ()"
  then obtain ps where "into_items (fixvec_item_count num s) (fixvec_get_unchecked k s) = Verified ps"
      "\<forall>p\<in>set ps. length p = k"
    by (rule fixvec_items)
  then show "\<exists>v. fixvec_decode num k get s = Verified v \<and> list_all W v"
    using assms(1) by (simp add: fixvec_decode_def list_all_iff)
next
  fix s v assume v: "fixvec_verify num name k s False = Verified ()" "fixvec_decode num k get s = Verified v"
  from v(1) obtain ps where ps: "into_items (fixvec_item_count num s) (fixvec_get_unchecked k s) = Verified ps"
      "fixvec_write num ps = s" "\<forall>p\<in>set ps. length p = k"
    by (rule fixvec_items)
  have "map put (map get ps) = ps" using ps(3) assms(1) by (simp add: map_idI)
  then show "fixvec_write num (map put v) = s" using v(2) ps(1,2) by (auto simp: fixvec_decode_def)
next
  fix v c assume v: "list_all W v" "length (fixvec_write num (map put v)) < 2 ^ 32"
  have k: "\<forall>p\<in>set (map put v). length p = k" using v(1) assms(2) by (simp add: list_all_iff)
  have "length (concat (map put v)) = k * length v" using k by (induction v) auto
  moreover have "length v \<le> k * length v" using assms(3) by simp
  ultimately have "length v \<le> length (fixvec_write num (map put v))" unfolding length_fixvec_write by linarith
  then have n: "length (map put v) < 2 ^ 32" using v(2) by simp
  have "map get (map put v) = v" using v(1) assms(2) by (simp add: list_all_iff map_idI)
  then show "fixvec_verify num name k (fixvec_write num (map put v)) c = Verified () \<and>
      fixvec_decode num k get (fixvec_write num (map put v)) = Verified v"
    using fixvec_built [OF n k] by (simp add: fixvec_decode_def)
qed

lemma part_bound:
  assumes "length (table_write num ps) < 2 ^ 32" and "p \<in> set ps"
  shows "length p < 2 ^ 32"
proof -
  have "length p \<le> length (concat ps)"
    using assms(2) by (simp add: length_concat member_le_sum_list)
  with assms(1) show ?thesis by (simp add: length_table_write)
qed

lemma entity_dynvec:
  assumes "entity V D E W"
  shows "entity (dynvec_verify num name V) (dynvec_decode num D) (\<lambda>vs. dynvec_write num (map E vs)) (list_all W)"
proof
  show "dynvec_verify num name V s c \<noteq> Crashed k" for s c k
    by (rule dynvec_verify_no_crash) (rule entity.no_crash [OF assms])
next
  fix s c assume "dynvec_verify num name V s c = Verified ()"
  then obtain ps where ps: "into_items (offset_count num s) (dynvec_get_unchecked num s) = Verified ps"
      "\<forall>p\<in>set ps. V p c = Verified ()"
    by (rule dynvec_items)
  have "\<forall>p\<in>set ps. \<exists>v. D p = Verified v \<and> W v" using ps(2) entity.readable [OF assms] by blast
  from vmap_Verified [OF this] obtain vs where "vmap D ps = Verified vs" "list_all2 (\<lambda>p v. W v) ps vs" by blast
  then show "\<exists>v. dynvec_decode num D s = Verified v \<and> list_all W v"
    using ps(1) list_all2_right by (auto simp: dynvec_decode_def)
next
  fix s v assume v: "dynvec_verify num name V s False = Verified ()" "dynvec_decode num D s = Verified v"
  from v(1) obtain ps where ps: "into_items (offset_count num s) (dynvec_get_unchecked num s) = Verified ps"
      "dynvec_write num ps = s" "\<forall>p\<in>set ps. V p False = Verified ()"
    by (rule dynvec_items)
  have "\<forall>p\<in>set ps. \<exists>x. D p = Verified x \<and> E x = p"
    using ps(3) entity.readable [OF assms] entity.canonical [OF assms] by metis
  from vmap_Verified [OF this] obtain vs where "vmap D ps = Verified vs" "list_all2 (\<lambda>p x. E x = p) ps vs" by blast
  then show "dynvec_write num (map E v) = s"
    using v(2) ps(1,2) list_all2_map_eq [of E ps vs] by (simp add: dynvec_decode_def)
next
  fix v c assume v: "list_all W v" "length (dynvec_write num (map E v)) < 2 ^ 32"
  have b: "V (E x) c = Verified () \<and> D (E x) = Verified x" if "x \<in> set v" for x
  proof (rule entity.built [OF assms])
    show "W x" using v(1) that by (simp add: list_all_iff)
    show "length (E x) < 2 ^ 32"
      using part_bound [of "map E v" "E x"] v(2) that by (simp add: length_dynvec_write length_table_write)
  qed
  then have "vmap D (map E v) = Verified v" by (simp add: vmap_map)
  then show "dynvec_verify num name V (dynvec_write num (map E v)) c = Verified () \<and>
      dynvec_decode num D (dynvec_write num (map E v)) = Verified v"
    using dynvec_built [OF v(2), of V c] b by (auto simp: dynvec_decode_def)
qed

lemma table_three_full:
  assumes "table_verify num name [V1, V2, V3] s c = Verified ()"
  obtains p q r where "table_field num 3 0 s = Verified p" "V1 p c = Verified ()"
    and "table_field num 3 1 s = Verified q" "V2 q c = Verified ()"
    and "table_field num 3 2 s = Verified r" "V3 r c = Verified ()"
    and "\<not> c \<Longrightarrow> table_write num [p, q, r] = s"
proof -
  obtain ps where ps: "\<And>i. i < 3 \<Longrightarrow> table_field num 3 i s = Verified (ps ! i)"
      "\<And>i. i < 3 \<Longrightarrow> ([V1, V2, V3] ! i) (ps ! i) c = Verified ()"
      "\<not> c \<Longrightarrow> length ps = 3 \<and> table_write num ps = s"
    using assms by (rule table_parts [where n = 3]) simp_all
  moreover have "\<not> c \<Longrightarrow> table_write num [ps ! 0, ps ! 1, ps ! 2] = s"
    using ps(3) list_three [of ps] by simp
  ultimately show thesis
    using that [of "ps ! 0" "ps ! 1" "ps ! 2"] ps(2) [of 0] ps(2) [of 1] ps(2) [of 2] by simp
qed

lemma table_five_full:
  assumes "table_verify num name [V1, V2, V3, V4, V5] s c = Verified ()"
  obtains p q r u v where "table_field num 5 0 s = Verified p" "V1 p c = Verified ()"
    and "table_field num 5 1 s = Verified q" "V2 q c = Verified ()"
    and "table_field num 5 2 s = Verified r" "V3 r c = Verified ()"
    and "table_field num 5 3 s = Verified u" "V4 u c = Verified ()"
    and "table_field num 5 4 s = Verified v" "V5 v c = Verified ()"
    and "\<not> c \<Longrightarrow> table_write num [p, q, r, u, v] = s"
proof -
  obtain ps where ps: "\<And>i. i < 5 \<Longrightarrow> table_field num 5 i s = Verified (ps ! i)"
      "\<And>i. i < 5 \<Longrightarrow> ([V1, V2, V3, V4, V5] ! i) (ps ! i) c = Verified ()"
      "\<not> c \<Longrightarrow> length ps = 5 \<and> table_write num ps = s"
    using assms by (rule table_parts [where n = 5]) simp_all
  moreover have "\<not> c \<Longrightarrow> table_write num [ps ! 0, ps ! 1, ps ! 2, ps ! 3, ps ! 4] = s"
    using ps(3) list_five [of ps] by simp
  ultimately show thesis
    using that [of "ps ! 0" "ps ! 1" "ps ! 2" "ps ! 3" "ps ! 4"] ps(2) [of 0] ps(2) [of 1] ps(2) [of 2] ps(2) [of 3] ps(2) [of 4]
    by simp
qed

lemma table_three:
  assumes "table_verify num name [V1, V2, V3] s c = Verified ()"
  obtains p q r where "table_field num 3 0 s = Verified p" "V1 p c = Verified ()"
    and "table_field num 3 1 s = Verified q" "V2 q c = Verified ()"
    and "table_field num 3 2 s = Verified r" "V3 r c = Verified ()"
  by (rule table_three_full [OF assms])

lemma table_five:
  assumes "table_verify num name [V1, V2, V3, V4, V5] s c = Verified ()"
  obtains p q r u v where "table_field num 5 0 s = Verified p" "V1 p c = Verified ()"
    and "table_field num 5 1 s = Verified q" "V2 q c = Verified ()"
    and "table_field num 5 2 s = Verified r" "V3 r c = Verified ()"
    and "table_field num 5 3 s = Verified u" "V4 u c = Verified ()"
    and "table_field num 5 4 s = Verified v" "V5 v c = Verified ()"
  by (rule table_five_full [OF assms])

text \<open>What verified bytes of a table hold, and in strict mode, that writing it gives them back.\<close>

lemma table3_read:
  assumes 1: "entity V1 D1 E1 W1" and 2: "entity V2 D2 E2 W2" and 3: "entity V3 D3 E3 W3"
    and v: "table_verify num name [V1, V2, V3] s c = Verified ()"
  obtains x y z where "table3_decode num D1 D2 D3 s = Verified (x, y, z)" and "W1 x \<and> W2 y \<and> W3 z"
    and "\<not> c \<Longrightarrow> table_write num [E1 x, E2 y, E3 z] = s"
proof -
  obtain p q r where f: "table_field num 3 0 s = Verified p" "V1 p c = Verified ()"
      "table_field num 3 1 s = Verified q" "V2 q c = Verified ()" "table_field num 3 2 s = Verified r" "V3 r c = Verified ()"
      "\<not> c \<Longrightarrow> table_write num [p, q, r] = s"
    by (rule table_three_full [OF v]) blast
  obtain x where x: "D1 p = Verified x" "W1 x" "\<not> c \<Longrightarrow> E1 x = p" by (rule entity_read [OF 1 f(2)]) blast
  obtain y where y: "D2 q = Verified y" "W2 y" "\<not> c \<Longrightarrow> E2 y = q" by (rule entity_read [OF 2 f(4)]) blast
  obtain z where z: "D3 r = Verified z" "W3 z" "\<not> c \<Longrightarrow> E3 z = r" by (rule entity_read [OF 3 f(6)]) blast
  show thesis
    using that [of x y z] f(1,3,5,7) x y z by (simp add: table3_decode_def)
qed

lemma table5_read:
  assumes 1: "entity V1 D1 E1 W1" and 2: "entity V2 D2 E2 W2" and 3: "entity V3 D3 E3 W3"
    and 4: "entity V4 D4 E4 W4" and 5: "entity V5 D5 E5 W5"
    and v: "table_verify num name [V1, V2, V3, V4, V5] s c = Verified ()"
  obtains x y z u w where "table5_decode num D1 D2 D3 D4 D5 s = Verified (x, y, z, u, w)"
    and "W1 x \<and> W2 y \<and> W3 z \<and> W4 u \<and> W5 w" and "\<not> c \<Longrightarrow> table_write num [E1 x, E2 y, E3 z, E4 u, E5 w] = s"
proof -
  obtain p q r t v where f: "table_field num 5 0 s = Verified p" "V1 p c = Verified ()"
      "table_field num 5 1 s = Verified q" "V2 q c = Verified ()" "table_field num 5 2 s = Verified r" "V3 r c = Verified ()"
      "table_field num 5 3 s = Verified t" "V4 t c = Verified ()" "table_field num 5 4 s = Verified v" "V5 v c = Verified ()"
      "\<not> c \<Longrightarrow> table_write num [p, q, r, t, v] = s"
    by (rule table_five_full [OF v]) blast
  obtain x where x: "D1 p = Verified x" "W1 x" "\<not> c \<Longrightarrow> E1 x = p" by (rule entity_read [OF 1 f(2)]) blast
  obtain y where y: "D2 q = Verified y" "W2 y" "\<not> c \<Longrightarrow> E2 y = q" by (rule entity_read [OF 2 f(4)]) blast
  obtain z where z: "D3 r = Verified z" "W3 z" "\<not> c \<Longrightarrow> E3 z = r" by (rule entity_read [OF 3 f(6)]) blast
  obtain u where u: "D4 t = Verified u" "W4 u" "\<not> c \<Longrightarrow> E4 u = t" by (rule entity_read [OF 4 f(8)]) blast
  obtain w where w: "D5 v = Verified w" "W5 w" "\<not> c \<Longrightarrow> E5 w = v" by (rule entity_read [OF 5 f(10)]) blast
  show thesis
    using that [of x y z u w] f(1,3,5,7,9,11) x y z u w by (simp add: table5_decode_def)
qed

text \<open>The other way round: what is written for a table is accepted and read back.\<close>

lemma entity_part:
  assumes "entity V D E W" and "W x" and "length (table_write num ps) < 2 ^ 32" and "E x \<in> set ps"
  shows "V (E x) c = Verified () \<and> D (E x) = Verified x"
  using entity.built [OF assms(1,2) part_bound [OF assms(3,4)]] .

lemma table3_built:
  assumes 1: "entity V1 D1 E1 W1" and 2: "entity V2 D2 E2 W2" and 3: "entity V3 D3 E3 W3"
    and W: "W1 x" "W2 y" "W3 z" and size: "length (table_write num [E1 x, E2 y, E3 z]) < 2 ^ 32"
  shows "table_verify num name [V1, V2, V3] (table_write num [E1 x, E2 y, E3 z]) c = Verified ()"
    and "table3_decode num D1 D2 D3 (table_write num [E1 x, E2 y, E3 z]) = Verified (x, y, z)"
proof -
  let ?ps = "[E1 x, E2 y, E3 z]"
  have b: "V1 (E1 x) c = Verified () \<and> D1 (E1 x) = Verified x" "V2 (E2 y) c = Verified () \<and> D2 (E2 y) = Verified y"
      "V3 (E3 z) c = Verified () \<and> D3 (E3 z) = Verified z"
    by (rule entity_part [OF 1 W(1) size] entity_part [OF 2 W(2) size] entity_part [OF 3 W(3) size]; simp)+
  have all: "([V1, V2, V3] ! i) (?ps ! i) c = Verified ()" if "i < length ?ps" for i
    using that less_three [of i] b by (auto simp: numeral_eq_Suc)
  note tb = table_built [OF size, of "[V1, V2, V3]" c, OF _ _ all]
  show "table_verify num name [V1, V2, V3] (table_write num ?ps) c = Verified ()"
    by (rule tb(1)) simp_all
  have "table_field num 3 i (table_write num ?ps) = Verified (?ps ! i)" if "i < 3" for i
    using tb(2) [of i] that by (simp add: numeral_eq_Suc)
  then show "table3_decode num D1 D2 D3 (table_write num ?ps) = Verified (x, y, z)"
    using b by (simp add: table3_decode_def)
qed

lemma table5_built:
  assumes 1: "entity V1 D1 E1 W1" and 2: "entity V2 D2 E2 W2" and 3: "entity V3 D3 E3 W3"
    and 4: "entity V4 D4 E4 W4" and 5: "entity V5 D5 E5 W5"
    and W: "W1 x" "W2 y" "W3 z" "W4 u" "W5 w" and size: "length (table_write num [E1 x, E2 y, E3 z, E4 u, E5 w]) < 2 ^ 32"
  shows "table_verify num name [V1, V2, V3, V4, V5] (table_write num [E1 x, E2 y, E3 z, E4 u, E5 w]) c = Verified ()"
    and "table5_decode num D1 D2 D3 D4 D5 (table_write num [E1 x, E2 y, E3 z, E4 u, E5 w]) = Verified (x, y, z, u, w)"
proof -
  let ?ps = "[E1 x, E2 y, E3 z, E4 u, E5 w]"
  have b: "V1 (E1 x) c = Verified () \<and> D1 (E1 x) = Verified x" "V2 (E2 y) c = Verified () \<and> D2 (E2 y) = Verified y"
      "V3 (E3 z) c = Verified () \<and> D3 (E3 z) = Verified z" "V4 (E4 u) c = Verified () \<and> D4 (E4 u) = Verified u"
      "V5 (E5 w) c = Verified () \<and> D5 (E5 w) = Verified w"
    by (rule entity_part [OF 1 W(1) size] entity_part [OF 2 W(2) size] entity_part [OF 3 W(3) size]
        entity_part [OF 4 W(4) size] entity_part [OF 5 W(5) size]; simp)+
  have all: "([V1, V2, V3, V4, V5] ! i) (?ps ! i) c = Verified ()" if "i < length ?ps" for i
    using that less_five [of i] b by (auto simp: numeral_eq_Suc)
  note tb = table_built [OF size, of "[V1, V2, V3, V4, V5]" c, OF _ _ all]
  show "table_verify num name [V1, V2, V3, V4, V5] (table_write num ?ps) c = Verified ()"
    by (rule tb(1)) simp_all
  have "table_field num 5 i (table_write num ?ps) = Verified (?ps ! i)" if "i < 5" for i
    using tb(2) [of i] that by (simp add: numeral_eq_Suc)
  then show "table5_decode num D1 D2 D3 D4 D5 (table_write num ?ps) = Verified (x, y, z, u, w)"
    using b by (simp add: table5_decode_def)
qed

lemma entity_table3:
  assumes 1: "entity V1 D1 E1 W1" and 2: "entity V2 D2 E2 W2" and 3: "entity V3 D3 E3 W3"
  shows "entity (table_verify num name [V1, V2, V3]) (table3_decode num D1 D2 D3)
    (\<lambda>(a, b, c). table_write num [E1 a, E2 b, E3 c]) (\<lambda>(a, b, c). W1 a \<and> W2 b \<and> W3 c)"
proof (unfold_locales, goal_cases)
  case (1 s c k)
  show ?case
    using entity.no_crash [OF assms(1)] entity.no_crash [OF assms(2)] entity.no_crash [OF assms(3)]
    by (intro table_verify_no_crash) auto
next
  case (2 s c)
  show ?case by (rule table3_read [OF assms 2]) simp
next
  case (3 s v)
  show ?case by (rule table3_read [OF assms 3(1)]) (use 3(2) in simp)
next
  case (4 v c)
  then show ?case
    using table3_built [OF assms, of "fst v" "fst (snd v)" "snd (snd v)"] by (simp add: split_beta)
qed

lemma entity_table5:
  assumes 1: "entity V1 D1 E1 W1" and 2: "entity V2 D2 E2 W2" and 3: "entity V3 D3 E3 W3"
    and 4: "entity V4 D4 E4 W4" and 5: "entity V5 D5 E5 W5"
  shows "entity (table_verify num name [V1, V2, V3, V4, V5]) (table5_decode num D1 D2 D3 D4 D5)
    (\<lambda>(a, b, c, d, e). table_write num [E1 a, E2 b, E3 c, E4 d, E5 e])
    (\<lambda>(a, b, c, d, e). W1 a \<and> W2 b \<and> W3 c \<and> W4 d \<and> W5 e)"
proof (unfold_locales, goal_cases)
  case (1 s c k)
  show ?case
    using entity.no_crash [OF assms(1)] entity.no_crash [OF assms(2)] entity.no_crash [OF assms(3)]
      entity.no_crash [OF assms(4)] entity.no_crash [OF assms(5)]
    by (intro table_verify_no_crash) auto
next
  case (2 s c)
  show ?case by (rule table5_read [OF assms 2]) simp
next
  case (3 s v)
  show ?case by (rule table5_read [OF assms 3(1)]) (use 3(2) in simp)
next
  case (4 v c)
  then show ?case
    using table5_built [OF assms, of "fst v" "fst (snd v)" "fst (snd (snd v))" "fst (snd (snd (snd v)))" "snd (snd (snd (snd v)))"]
    by (simp add: split_beta)
qed

end

end
