(* ===== verification/Dag_Types.thy ===== *)
theory Dag_Types
  imports Entity
begin

text \<open>
  The ten types of src/dev_utils/dag.rs: the description of a dataflow of VMs (who spawns whom
  with which pipes, which VM creates which pipes, who writes what to whom) that the test generator
  produces and the guest program reads.

  For each type: \<open>DEFAULT_VALUE\<close>, the getters, \<open>as_builder\<close>, \<open>verify\<close> of its reader, its builder and
  what it writes. The names are those of the source, \<open>Type_method\<close>. A reader and the owned type
  have the same getters on the same bytes, so each getter is here once.
\<close>

section \<open>The arrays \<open>VmIndex\<close> and \<open>PipeIndex\<close>\<close>

type_synonym VmIndex = byte_list

definition VmIndex_DEFAULT_VALUE :: VmIndex where
  "VmIndex_DEFAULT_VALUE = [0, 0, 0, 0, 0, 0, 0, 0]"

definition VmIndex_nth :: "VmIndex \<Rightarrow> nat \<Rightarrow> u8 vres" where
  "VmIndex_nth s i = array_nth s i"

definition VmIndex_as_builder :: "VmIndex \<Rightarrow> u8 list vres" where
  "VmIndex_as_builder s = vmap (VmIndex_nth s) [0, 1, 2, 3, 4, 5, 6, 7]"

definition VmIndexReader_verify :: verifier where
  "VmIndexReader_verify = array_verify ''VmIndexReader'' 8"

definition VmIndexBuilder_default :: "u8 list" where
  "VmIndexBuilder_default = [0, 0, 0, 0, 0, 0, 0, 0]"

definition VmIndexBuilder_nth :: "u8 list \<Rightarrow> nat \<Rightarrow> u8 \<Rightarrow> u8 list" where
  "VmIndexBuilder_nth b i v = b[i := v]"

definition VmIndexBuilder_build :: "u8 list \<Rightarrow> VmIndex" where
  "VmIndexBuilder_build b = array_write 8 b"

type_synonym PipeIndex = byte_list

definition PipeIndex_DEFAULT_VALUE :: PipeIndex where
  "PipeIndex_DEFAULT_VALUE = [0, 0, 0, 0, 0, 0, 0, 0]"

definition PipeIndex_nth :: "PipeIndex \<Rightarrow> nat \<Rightarrow> u8 vres" where
  "PipeIndex_nth s i = array_nth s i"

definition PipeIndex_as_builder :: "PipeIndex \<Rightarrow> u8 list vres" where
  "PipeIndex_as_builder s = vmap (PipeIndex_nth s) [0, 1, 2, 3, 4, 5, 6, 7]"

definition PipeIndexReader_verify :: verifier where
  "PipeIndexReader_verify = array_verify ''PipeIndexReader'' 8"

definition PipeIndexBuilder_default :: "u8 list" where
  "PipeIndexBuilder_default = [0, 0, 0, 0, 0, 0, 0, 0]"

definition PipeIndexBuilder_nth :: "u8 list \<Rightarrow> nat \<Rightarrow> u8 \<Rightarrow> u8 list" where
  "PipeIndexBuilder_nth b i v = b[i := v]"

definition PipeIndexBuilder_build :: "u8 list \<Rightarrow> PipeIndex" where
  "PipeIndexBuilder_build b = array_write 8 b"

section \<open>The fixed vectors \<open>PipeIndices\<close> and \<open>Bytes\<close>\<close>

type_synonym PipeIndices = byte_list

definition PipeIndices_DEFAULT_VALUE :: PipeIndices where
  "PipeIndices_DEFAULT_VALUE = [0, 0, 0, 0]"

definition PipeIndices_item_count :: "number_codec \<Rightarrow> PipeIndices \<Rightarrow> nat vres" where
  "PipeIndices_item_count num s = fixvec_item_count num s"

definition PipeIndices_get_unchecked :: "PipeIndices \<Rightarrow> nat \<Rightarrow> PipeIndex vres" where
  "PipeIndices_get_unchecked s idx = fixvec_get_unchecked 8 s idx"

definition PipeIndices_get :: "number_codec \<Rightarrow> PipeIndices \<Rightarrow> nat \<Rightarrow> PipeIndex option vres" where
  "PipeIndices_get num s idx = checked_get (PipeIndices_item_count num s) (PipeIndices_get_unchecked s) idx"

definition PipeIndices_iter_next :: "PipeIndices \<Rightarrow> nat \<times> nat \<Rightarrow> (PipeIndex option \<times> nat \<times> nat) vres" where
  "PipeIndices_iter_next s it = iter_next (PipeIndices_get_unchecked s) it"

definition PipeIndices_into_iter :: "number_codec \<Rightarrow> PipeIndices \<Rightarrow> PipeIndex list vres" where
  "PipeIndices_into_iter num s = into_items (PipeIndices_item_count num s) (PipeIndices_get_unchecked s)"

definition PipeIndicesReader_verify :: "number_codec \<Rightarrow> verifier" where
  "PipeIndicesReader_verify num = fixvec_verify num ''PipeIndicesReader'' 8"

definition PipeIndicesBuilder_extend :: "PipeIndex list \<Rightarrow> PipeIndex list \<Rightarrow> PipeIndex list" where
  "PipeIndicesBuilder_extend b items = fold (\<lambda>elem b. b @ [elem]) items b"

definition PipeIndices_as_builder :: "number_codec \<Rightarrow> PipeIndices \<Rightarrow> PipeIndex list vres" where
  "PipeIndices_as_builder num s = vbind (PipeIndices_into_iter num s) (\<lambda>items. Verified (PipeIndicesBuilder_extend [] items))"

definition PipeIndicesBuilder_replace :: "PipeIndex list \<Rightarrow> nat \<Rightarrow> PipeIndex \<Rightarrow> PipeIndex option \<times> PipeIndex list" where
  "PipeIndicesBuilder_replace b i v = builder_replace b i v"

definition PipeIndicesBuilder_expected_length :: "PipeIndex list \<Rightarrow> nat" where
  "PipeIndicesBuilder_expected_length b = NUMBER_SIZE + 8 * length b"

definition PipeIndicesBuilder_build :: "number_codec \<Rightarrow> PipeIndex list \<Rightarrow> PipeIndices" where
  "PipeIndicesBuilder_build num b = fixvec_write num b"

type_synonym Bytes = byte_list

definition Bytes_DEFAULT_VALUE :: Bytes where
  "Bytes_DEFAULT_VALUE = [0, 0, 0, 0]"

definition Bytes_item_count :: "number_codec \<Rightarrow> Bytes \<Rightarrow> nat vres" where
  "Bytes_item_count num s = fixvec_item_count num s"

definition Bytes_get_unchecked :: "Bytes \<Rightarrow> nat \<Rightarrow> u8 vres" where
  "Bytes_get_unchecked s idx = vbind (fixvec_get_unchecked 1 s idx) (\<lambda>p. Verified (p ! 0))"

definition Bytes_get :: "number_codec \<Rightarrow> Bytes \<Rightarrow> nat \<Rightarrow> u8 option vres" where
  "Bytes_get num s idx = checked_get (Bytes_item_count num s) (Bytes_get_unchecked s) idx"

definition Bytes_iter_next :: "Bytes \<Rightarrow> nat \<times> nat \<Rightarrow> (u8 option \<times> nat \<times> nat) vres" where
  "Bytes_iter_next s it = iter_next (Bytes_get_unchecked s) it"

definition Bytes_into_iter :: "number_codec \<Rightarrow> Bytes \<Rightarrow> u8 list vres" where
  "Bytes_into_iter num s = into_items (Bytes_item_count num s) (Bytes_get_unchecked s)"

definition Bytes_raw_data :: "Bytes \<Rightarrow> byte_list vres" where
  "Bytes_raw_data s = slice_from s NUMBER_SIZE"

definition BytesReader_verify :: "number_codec \<Rightarrow> verifier" where
  "BytesReader_verify num = fixvec_verify num ''BytesReader'' 1"

definition BytesBuilder_extend :: "u8 list \<Rightarrow> u8 list \<Rightarrow> u8 list" where
  "BytesBuilder_extend b items = fold (\<lambda>elem b. b @ [elem]) items b"

definition Bytes_as_builder :: "number_codec \<Rightarrow> Bytes \<Rightarrow> u8 list vres" where
  "Bytes_as_builder num s = vbind (Bytes_into_iter num s) (\<lambda>items. Verified (BytesBuilder_extend [] items))"

definition BytesBuilder_replace :: "u8 list \<Rightarrow> nat \<Rightarrow> u8 \<Rightarrow> u8 option \<times> u8 list" where
  "BytesBuilder_replace b i v = builder_replace b i v"

definition BytesBuilder_expected_length :: "u8 list \<Rightarrow> nat" where
  "BytesBuilder_expected_length b = NUMBER_SIZE + 1 * length b"

definition BytesBuilder_build :: "number_codec \<Rightarrow> u8 list \<Rightarrow> Bytes" where
  "BytesBuilder_build num b = fixvec_write num (map (\<lambda>x. [x]) b)"

section \<open>The table \<open>Pipe\<close>\<close>

type_synonym Pipe = byte_list

definition Pipe_DEFAULT_VALUE :: Pipe where
  "Pipe_DEFAULT_VALUE = [40, 0, 0, 0, 16, 0, 0, 0, 24, 0, 0, 0, 32, 0, 0, 0, 0, 0, 0, 0, 0, 0, 0, 0, 0, 0, 0, 0, 0, 0, 0, 0, 0, 0, 0, 0, 0, 0, 0, 0]"

definition Pipe_field_count :: "number_codec \<Rightarrow> Pipe \<Rightarrow> nat vres" where
  "Pipe_field_count num s = offset_count num s"

definition Pipe_count_extra_fields :: "number_codec \<Rightarrow> Pipe \<Rightarrow> nat vres" where
  "Pipe_count_extra_fields num s = vbind (Pipe_field_count num s) (\<lambda>count. usize_sub (checked_arith num) count 3)"

definition Pipe_has_extra_fields :: "number_codec \<Rightarrow> Pipe \<Rightarrow> bool vres" where
  "Pipe_has_extra_fields num s = vbind (Pipe_field_count num s) (\<lambda>count. Verified (3 \<noteq> count))"

definition Pipe_vm :: "number_codec \<Rightarrow> Pipe \<Rightarrow> VmIndex vres" where
  "Pipe_vm num s = table_field num 3 0 s"

definition Pipe_read_pipe :: "number_codec \<Rightarrow> Pipe \<Rightarrow> PipeIndex vres" where
  "Pipe_read_pipe num s = table_field num 3 1 s"

definition Pipe_write_pipe :: "number_codec \<Rightarrow> Pipe \<Rightarrow> PipeIndex vres" where
  "Pipe_write_pipe num s = table_field num 3 2 s"

definition PipeReader_verify :: "number_codec \<Rightarrow> verifier" where
  "PipeReader_verify num = table_verify num ''PipeReader'' [VmIndexReader_verify, PipeIndexReader_verify, PipeIndexReader_verify]"

record PipeBuilder =
  pipe_b_vm :: VmIndex
  pipe_b_read_pipe :: PipeIndex
  pipe_b_write_pipe :: PipeIndex

definition PipeBuilder_default :: PipeBuilder where
  "PipeBuilder_default = \<lparr>pipe_b_vm = VmIndex_DEFAULT_VALUE, pipe_b_read_pipe = PipeIndex_DEFAULT_VALUE, pipe_b_write_pipe = PipeIndex_DEFAULT_VALUE\<rparr>"

definition Pipe_as_builder :: "number_codec \<Rightarrow> Pipe \<Rightarrow> PipeBuilder vres" where
  "Pipe_as_builder num s =
     vbind (Pipe_vm num s) (\<lambda>vm_value.
     vbind (Pipe_read_pipe num s) (\<lambda>read_pipe_value.
     vbind (Pipe_write_pipe num s) (\<lambda>write_pipe_value.
     Verified (PipeBuilder_default\<lparr>pipe_b_vm := vm_value, pipe_b_read_pipe := read_pipe_value, pipe_b_write_pipe := write_pipe_value\<rparr>))))"

definition PipeBuilder_expected_length :: "PipeBuilder \<Rightarrow> nat" where
  "PipeBuilder_expected_length b = NUMBER_SIZE * (3 + 1) + length (pipe_b_vm b) + length (pipe_b_read_pipe b) + length (pipe_b_write_pipe b)"

definition PipeBuilder_build :: "number_codec \<Rightarrow> PipeBuilder \<Rightarrow> Pipe" where
  "PipeBuilder_build num b = table_write num [pipe_b_vm b, pipe_b_read_pipe b, pipe_b_write_pipe b]"

section \<open>The dynamic vector \<open>Pipes\<close>\<close>

type_synonym Pipes = byte_list

definition Pipes_DEFAULT_VALUE :: Pipes where
  "Pipes_DEFAULT_VALUE = [4, 0, 0, 0]"

definition Pipes_item_count :: "number_codec \<Rightarrow> Pipes \<Rightarrow> nat vres" where
  "Pipes_item_count num s = offset_count num s"

definition Pipes_get_unchecked :: "number_codec \<Rightarrow> Pipes \<Rightarrow> nat \<Rightarrow> Pipe vres" where
  "Pipes_get_unchecked num s idx = dynvec_get_unchecked num s idx"

definition Pipes_get :: "number_codec \<Rightarrow> Pipes \<Rightarrow> nat \<Rightarrow> Pipe option vres" where
  "Pipes_get num s idx = checked_get (Pipes_item_count num s) (Pipes_get_unchecked num s) idx"

definition Pipes_iter_next :: "number_codec \<Rightarrow> Pipes \<Rightarrow> nat \<times> nat \<Rightarrow> (Pipe option \<times> nat \<times> nat) vres" where
  "Pipes_iter_next num s it = iter_next (Pipes_get_unchecked num s) it"

definition Pipes_into_iter :: "number_codec \<Rightarrow> Pipes \<Rightarrow> Pipe list vres" where
  "Pipes_into_iter num s = into_items (Pipes_item_count num s) (Pipes_get_unchecked num s)"

definition PipesReader_verify :: "number_codec \<Rightarrow> verifier" where
  "PipesReader_verify num = dynvec_verify num ''PipesReader'' (PipeReader_verify num)"

definition PipesBuilder_extend :: "Pipe list \<Rightarrow> Pipe list \<Rightarrow> Pipe list" where
  "PipesBuilder_extend b items = fold (\<lambda>elem b. b @ [elem]) items b"

definition Pipes_as_builder :: "number_codec \<Rightarrow> Pipes \<Rightarrow> Pipe list vres" where
  "Pipes_as_builder num s = vbind (Pipes_into_iter num s) (\<lambda>items. Verified (PipesBuilder_extend [] items))"

definition PipesBuilder_replace :: "Pipe list \<Rightarrow> nat \<Rightarrow> Pipe \<Rightarrow> Pipe option \<times> Pipe list" where
  "PipesBuilder_replace b i v = builder_replace b i v"

definition PipesBuilder_expected_length :: "Pipe list \<Rightarrow> nat" where
  "PipesBuilder_expected_length b = NUMBER_SIZE * (length b + 1) + sum_list (map length b)"

definition PipesBuilder_build :: "number_codec \<Rightarrow> Pipe list \<Rightarrow> Pipes" where
  "PipesBuilder_build num b = dynvec_write num b"

section \<open>The table \<open>Write\<close>\<close>

type_synonym Write = byte_list

definition Write_DEFAULT_VALUE :: Write where
  "Write_DEFAULT_VALUE = [60, 0, 0, 0, 24, 0, 0, 0, 32, 0, 0, 0, 40, 0, 0, 0, 48, 0, 0, 0, 56, 0, 0, 0, 0, 0, 0, 0, 0, 0, 0, 0, 0, 0, 0, 0, 0, 0, 0, 0, 0, 0, 0, 0, 0, 0, 0, 0, 0, 0, 0, 0, 0, 0, 0, 0, 0, 0, 0, 0]"

definition Write_field_count :: "number_codec \<Rightarrow> Write \<Rightarrow> nat vres" where
  "Write_field_count num s = offset_count num s"

definition Write_count_extra_fields :: "number_codec \<Rightarrow> Write \<Rightarrow> nat vres" where
  "Write_count_extra_fields num s = vbind (Write_field_count num s) (\<lambda>count. usize_sub (checked_arith num) count 5)"

definition Write_has_extra_fields :: "number_codec \<Rightarrow> Write \<Rightarrow> bool vres" where
  "Write_has_extra_fields num s = vbind (Write_field_count num s) (\<lambda>count. Verified (5 \<noteq> count))"

definition Write_from :: "number_codec \<Rightarrow> Write \<Rightarrow> VmIndex vres" where
  "Write_from num s = table_field num 5 0 s"

definition Write_from_pipe :: "number_codec \<Rightarrow> Write \<Rightarrow> PipeIndex vres" where
  "Write_from_pipe num s = table_field num 5 1 s"

definition Write_to :: "number_codec \<Rightarrow> Write \<Rightarrow> VmIndex vres" where
  "Write_to num s = table_field num 5 2 s"

definition Write_to_pipe :: "number_codec \<Rightarrow> Write \<Rightarrow> PipeIndex vres" where
  "Write_to_pipe num s = table_field num 5 3 s"

definition Write_data :: "number_codec \<Rightarrow> Write \<Rightarrow> Bytes vres" where
  "Write_data num s = table_field num 5 4 s"

definition WriteReader_verify :: "number_codec \<Rightarrow> verifier" where
  "WriteReader_verify num = table_verify num ''WriteReader'' [VmIndexReader_verify, PipeIndexReader_verify, VmIndexReader_verify, PipeIndexReader_verify, BytesReader_verify num]"

record WriteBuilder =
  write_b_from :: VmIndex
  write_b_from_pipe :: PipeIndex
  write_b_to :: VmIndex
  write_b_to_pipe :: PipeIndex
  write_b_data :: Bytes

definition WriteBuilder_default :: WriteBuilder where
  "WriteBuilder_default = \<lparr>write_b_from = VmIndex_DEFAULT_VALUE, write_b_from_pipe = PipeIndex_DEFAULT_VALUE, write_b_to = VmIndex_DEFAULT_VALUE, write_b_to_pipe = PipeIndex_DEFAULT_VALUE, write_b_data = Bytes_DEFAULT_VALUE\<rparr>"

definition Write_as_builder :: "number_codec \<Rightarrow> Write \<Rightarrow> WriteBuilder vres" where
  "Write_as_builder num s =
     vbind (Write_from num s) (\<lambda>from_value.
     vbind (Write_from_pipe num s) (\<lambda>from_pipe_value.
     vbind (Write_to num s) (\<lambda>to_value.
     vbind (Write_to_pipe num s) (\<lambda>to_pipe_value.
     vbind (Write_data num s) (\<lambda>data_value.
     Verified (WriteBuilder_default\<lparr>write_b_from := from_value, write_b_from_pipe := from_pipe_value, write_b_to := to_value, write_b_to_pipe := to_pipe_value, write_b_data := data_value\<rparr>))))))"

definition WriteBuilder_expected_length :: "WriteBuilder \<Rightarrow> nat" where
  "WriteBuilder_expected_length b = NUMBER_SIZE * (5 + 1) + length (write_b_from b) + length (write_b_from_pipe b) + length (write_b_to b) + length (write_b_to_pipe b) + length (write_b_data b)"

definition WriteBuilder_build :: "number_codec \<Rightarrow> WriteBuilder \<Rightarrow> Write" where
  "WriteBuilder_build num b = table_write num [write_b_from b, write_b_from_pipe b, write_b_to b, write_b_to_pipe b, write_b_data b]"

section \<open>The dynamic vector \<open>Writes\<close>\<close>

type_synonym Writes = byte_list

definition Writes_DEFAULT_VALUE :: Writes where
  "Writes_DEFAULT_VALUE = [4, 0, 0, 0]"

definition Writes_item_count :: "number_codec \<Rightarrow> Writes \<Rightarrow> nat vres" where
  "Writes_item_count num s = offset_count num s"

definition Writes_get_unchecked :: "number_codec \<Rightarrow> Writes \<Rightarrow> nat \<Rightarrow> Write vres" where
  "Writes_get_unchecked num s idx = dynvec_get_unchecked num s idx"

definition Writes_get :: "number_codec \<Rightarrow> Writes \<Rightarrow> nat \<Rightarrow> Write option vres" where
  "Writes_get num s idx = checked_get (Writes_item_count num s) (Writes_get_unchecked num s) idx"

definition Writes_iter_next :: "number_codec \<Rightarrow> Writes \<Rightarrow> nat \<times> nat \<Rightarrow> (Write option \<times> nat \<times> nat) vres" where
  "Writes_iter_next num s it = iter_next (Writes_get_unchecked num s) it"

definition Writes_into_iter :: "number_codec \<Rightarrow> Writes \<Rightarrow> Write list vres" where
  "Writes_into_iter num s = into_items (Writes_item_count num s) (Writes_get_unchecked num s)"

definition WritesReader_verify :: "number_codec \<Rightarrow> verifier" where
  "WritesReader_verify num = dynvec_verify num ''WritesReader'' (WriteReader_verify num)"

definition WritesBuilder_extend :: "Write list \<Rightarrow> Write list \<Rightarrow> Write list" where
  "WritesBuilder_extend b items = fold (\<lambda>elem b. b @ [elem]) items b"

definition Writes_as_builder :: "number_codec \<Rightarrow> Writes \<Rightarrow> Write list vres" where
  "Writes_as_builder num s = vbind (Writes_into_iter num s) (\<lambda>items. Verified (WritesBuilder_extend [] items))"

definition WritesBuilder_replace :: "Write list \<Rightarrow> nat \<Rightarrow> Write \<Rightarrow> Write option \<times> Write list" where
  "WritesBuilder_replace b i v = builder_replace b i v"

definition WritesBuilder_expected_length :: "Write list \<Rightarrow> nat" where
  "WritesBuilder_expected_length b = NUMBER_SIZE * (length b + 1) + sum_list (map length b)"

definition WritesBuilder_build :: "number_codec \<Rightarrow> Write list \<Rightarrow> Writes" where
  "WritesBuilder_build num b = dynvec_write num b"

section \<open>The table \<open>Spawn\<close>\<close>

type_synonym Spawn = byte_list

definition Spawn_DEFAULT_VALUE :: Spawn where
  "Spawn_DEFAULT_VALUE = [36, 0, 0, 0, 16, 0, 0, 0, 24, 0, 0, 0, 32, 0, 0, 0, 0, 0, 0, 0, 0, 0, 0, 0, 0, 0, 0, 0, 0, 0, 0, 0, 0, 0, 0, 0]"

definition Spawn_field_count :: "number_codec \<Rightarrow> Spawn \<Rightarrow> nat vres" where
  "Spawn_field_count num s = offset_count num s"

definition Spawn_count_extra_fields :: "number_codec \<Rightarrow> Spawn \<Rightarrow> nat vres" where
  "Spawn_count_extra_fields num s = vbind (Spawn_field_count num s) (\<lambda>count. usize_sub (checked_arith num) count 3)"

definition Spawn_has_extra_fields :: "number_codec \<Rightarrow> Spawn \<Rightarrow> bool vres" where
  "Spawn_has_extra_fields num s = vbind (Spawn_field_count num s) (\<lambda>count. Verified (3 \<noteq> count))"

definition Spawn_from :: "number_codec \<Rightarrow> Spawn \<Rightarrow> VmIndex vres" where
  "Spawn_from num s = table_field num 3 0 s"

definition Spawn_child :: "number_codec \<Rightarrow> Spawn \<Rightarrow> VmIndex vres" where
  "Spawn_child num s = table_field num 3 1 s"

definition Spawn_pipes :: "number_codec \<Rightarrow> Spawn \<Rightarrow> PipeIndices vres" where
  "Spawn_pipes num s = table_field num 3 2 s"

definition SpawnReader_verify :: "number_codec \<Rightarrow> verifier" where
  "SpawnReader_verify num = table_verify num ''SpawnReader'' [VmIndexReader_verify, VmIndexReader_verify, PipeIndicesReader_verify num]"

record SpawnBuilder =
  spawn_b_from :: VmIndex
  spawn_b_child :: VmIndex
  spawn_b_pipes :: PipeIndices

definition SpawnBuilder_default :: SpawnBuilder where
  "SpawnBuilder_default = \<lparr>spawn_b_from = VmIndex_DEFAULT_VALUE, spawn_b_child = VmIndex_DEFAULT_VALUE, spawn_b_pipes = PipeIndices_DEFAULT_VALUE\<rparr>"

definition Spawn_as_builder :: "number_codec \<Rightarrow> Spawn \<Rightarrow> SpawnBuilder vres" where
  "Spawn_as_builder num s =
     vbind (Spawn_from num s) (\<lambda>from_value.
     vbind (Spawn_child num s) (\<lambda>child_value.
     vbind (Spawn_pipes num s) (\<lambda>pipes_value.
     Verified (SpawnBuilder_default\<lparr>spawn_b_from := from_value, spawn_b_child := child_value, spawn_b_pipes := pipes_value\<rparr>))))"

definition SpawnBuilder_expected_length :: "SpawnBuilder \<Rightarrow> nat" where
  "SpawnBuilder_expected_length b = NUMBER_SIZE * (3 + 1) + length (spawn_b_from b) + length (spawn_b_child b) + length (spawn_b_pipes b)"

definition SpawnBuilder_build :: "number_codec \<Rightarrow> SpawnBuilder \<Rightarrow> Spawn" where
  "SpawnBuilder_build num b = table_write num [spawn_b_from b, spawn_b_child b, spawn_b_pipes b]"

section \<open>The dynamic vector \<open>Spawns\<close>\<close>

type_synonym Spawns = byte_list

definition Spawns_DEFAULT_VALUE :: Spawns where
  "Spawns_DEFAULT_VALUE = [4, 0, 0, 0]"

definition Spawns_item_count :: "number_codec \<Rightarrow> Spawns \<Rightarrow> nat vres" where
  "Spawns_item_count num s = offset_count num s"

definition Spawns_get_unchecked :: "number_codec \<Rightarrow> Spawns \<Rightarrow> nat \<Rightarrow> Spawn vres" where
  "Spawns_get_unchecked num s idx = dynvec_get_unchecked num s idx"

definition Spawns_get :: "number_codec \<Rightarrow> Spawns \<Rightarrow> nat \<Rightarrow> Spawn option vres" where
  "Spawns_get num s idx = checked_get (Spawns_item_count num s) (Spawns_get_unchecked num s) idx"

definition Spawns_iter_next :: "number_codec \<Rightarrow> Spawns \<Rightarrow> nat \<times> nat \<Rightarrow> (Spawn option \<times> nat \<times> nat) vres" where
  "Spawns_iter_next num s it = iter_next (Spawns_get_unchecked num s) it"

definition Spawns_into_iter :: "number_codec \<Rightarrow> Spawns \<Rightarrow> Spawn list vres" where
  "Spawns_into_iter num s = into_items (Spawns_item_count num s) (Spawns_get_unchecked num s)"

definition SpawnsReader_verify :: "number_codec \<Rightarrow> verifier" where
  "SpawnsReader_verify num = dynvec_verify num ''SpawnsReader'' (SpawnReader_verify num)"

definition SpawnsBuilder_extend :: "Spawn list \<Rightarrow> Spawn list \<Rightarrow> Spawn list" where
  "SpawnsBuilder_extend b items = fold (\<lambda>elem b. b @ [elem]) items b"

definition Spawns_as_builder :: "number_codec \<Rightarrow> Spawns \<Rightarrow> Spawn list vres" where
  "Spawns_as_builder num s = vbind (Spawns_into_iter num s) (\<lambda>items. Verified (SpawnsBuilder_extend [] items))"

definition SpawnsBuilder_replace :: "Spawn list \<Rightarrow> nat \<Rightarrow> Spawn \<Rightarrow> Spawn option \<times> Spawn list" where
  "SpawnsBuilder_replace b i v = builder_replace b i v"

definition SpawnsBuilder_expected_length :: "Spawn list \<Rightarrow> nat" where
  "SpawnsBuilder_expected_length b = NUMBER_SIZE * (length b + 1) + sum_list (map length b)"

definition SpawnsBuilder_build :: "number_codec \<Rightarrow> Spawn list \<Rightarrow> Spawns" where
  "SpawnsBuilder_build num b = dynvec_write num b"

section \<open>The table \<open>Data\<close>\<close>

type_synonym Data = byte_list

definition Data_DEFAULT_VALUE :: Data where
  "Data_DEFAULT_VALUE = [28, 0, 0, 0, 16, 0, 0, 0, 20, 0, 0, 0, 24, 0, 0, 0, 4, 0, 0, 0, 4, 0, 0, 0, 4, 0, 0, 0]"

definition Data_field_count :: "number_codec \<Rightarrow> Data \<Rightarrow> nat vres" where
  "Data_field_count num s = offset_count num s"

definition Data_count_extra_fields :: "number_codec \<Rightarrow> Data \<Rightarrow> nat vres" where
  "Data_count_extra_fields num s = vbind (Data_field_count num s) (\<lambda>count. usize_sub (checked_arith num) count 3)"

definition Data_has_extra_fields :: "number_codec \<Rightarrow> Data \<Rightarrow> bool vres" where
  "Data_has_extra_fields num s = vbind (Data_field_count num s) (\<lambda>count. Verified (3 \<noteq> count))"

definition Data_spawns :: "number_codec \<Rightarrow> Data \<Rightarrow> Spawns vres" where
  "Data_spawns num s = table_field num 3 0 s"

definition Data_pipes :: "number_codec \<Rightarrow> Data \<Rightarrow> Pipes vres" where
  "Data_pipes num s = table_field num 3 1 s"

definition Data_writes :: "number_codec \<Rightarrow> Data \<Rightarrow> Writes vres" where
  "Data_writes num s = table_field num 3 2 s"

definition DataReader_verify :: "number_codec \<Rightarrow> verifier" where
  "DataReader_verify num = table_verify num ''DataReader'' [SpawnsReader_verify num, PipesReader_verify num, WritesReader_verify num]"

record DataBuilder =
  data_b_spawns :: Spawns
  data_b_pipes :: Pipes
  data_b_writes :: Writes

definition DataBuilder_default :: DataBuilder where
  "DataBuilder_default = \<lparr>data_b_spawns = Spawns_DEFAULT_VALUE, data_b_pipes = Pipes_DEFAULT_VALUE, data_b_writes = Writes_DEFAULT_VALUE\<rparr>"

definition Data_as_builder :: "number_codec \<Rightarrow> Data \<Rightarrow> DataBuilder vres" where
  "Data_as_builder num s =
     vbind (Data_spawns num s) (\<lambda>spawns_value.
     vbind (Data_pipes num s) (\<lambda>pipes_value.
     vbind (Data_writes num s) (\<lambda>writes_value.
     Verified (DataBuilder_default\<lparr>data_b_spawns := spawns_value, data_b_pipes := pipes_value, data_b_writes := writes_value\<rparr>))))"

definition DataBuilder_expected_length :: "DataBuilder \<Rightarrow> nat" where
  "DataBuilder_expected_length b = NUMBER_SIZE * (3 + 1) + length (data_b_spawns b) + length (data_b_pipes b) + length (data_b_writes b)"

definition DataBuilder_build :: "number_codec \<Rightarrow> DataBuilder \<Rightarrow> Data" where
  "DataBuilder_build num b = table_write num [data_b_spawns b, data_b_pipes b, data_b_writes b]"

end
