(* ===== verification/Dag_Correct.thy ===== *)
theory Dag_Correct
  imports Dag_Types
begin

text \<open>
  What a serialised dataflow holds, read through the getters and iterators of Dag_Types
  (\<open>Data_decode\<close>) and written through its builders (\<open>Data_encode\<close>), and the contract of Entity for
  every type of the schema, up to the whole \<open>Data\<close>.
\<close>

section \<open>The content of each type\<close>

type_synonym pipe_entry = "VmIndex \<times> PipeIndex \<times> PipeIndex"
type_synonym write_entry = "VmIndex \<times> PipeIndex \<times> VmIndex \<times> PipeIndex \<times> u8 list"
type_synonym spawn_entry = "VmIndex \<times> VmIndex \<times> PipeIndex list"
type_synonym dag = "spawn_entry list \<times> pipe_entry list \<times> write_entry list"

definition Pipe_decode :: "number_codec \<Rightarrow> Pipe \<Rightarrow> pipe_entry vres" where
  "Pipe_decode num s =
     vbind (Pipe_vm num s) (\<lambda>vm. vbind (Pipe_read_pipe num s) (\<lambda>r. vbind (Pipe_write_pipe num s) (\<lambda>w.
     Verified (vm, r, w))))"

definition Write_decode :: "number_codec \<Rightarrow> Write \<Rightarrow> write_entry vres" where
  "Write_decode num s =
     vbind (Write_from num s) (\<lambda>from. vbind (Write_from_pipe num s) (\<lambda>from_pipe.
     vbind (Write_to num s) (\<lambda>to'. vbind (Write_to_pipe num s) (\<lambda>to_pipe.
     vbind (vbind (Write_data num s) (Bytes_into_iter num)) (\<lambda>data.
     Verified (from, from_pipe, to', to_pipe, data))))))"

definition Spawn_decode :: "number_codec \<Rightarrow> Spawn \<Rightarrow> spawn_entry vres" where
  "Spawn_decode num s =
     vbind (Spawn_from num s) (\<lambda>from. vbind (Spawn_child num s) (\<lambda>child.
     vbind (vbind (Spawn_pipes num s) (PipeIndices_into_iter num)) (\<lambda>ends.
     Verified (from, child, ends))))"

definition Data_decode :: "number_codec \<Rightarrow> Data \<Rightarrow> dag vres" where
  "Data_decode num s =
     vbind (vbind (vbind (Data_spawns num s) (Spawns_into_iter num)) (vmap (Spawn_decode num))) (\<lambda>ss.
     vbind (vbind (vbind (Data_pipes num s) (Pipes_into_iter num)) (vmap (Pipe_decode num))) (\<lambda>ps.
     vbind (vbind (vbind (Data_writes num s) (Writes_into_iter num)) (vmap (Write_decode num))) (\<lambda>ws.
     Verified (ss, ps, ws))))"

fun Pipe_encode :: "number_codec \<Rightarrow> pipe_entry \<Rightarrow> Pipe" where
  "Pipe_encode num (vm, r, w) =
     PipeBuilder_build num \<lparr>pipe_b_vm = vm, pipe_b_read_pipe = r, pipe_b_write_pipe = w\<rparr>"

fun Write_encode :: "number_codec \<Rightarrow> write_entry \<Rightarrow> Write" where
  "Write_encode num (from, from_pipe, to', to_pipe, data) =
     WriteBuilder_build num \<lparr>write_b_from = from, write_b_from_pipe = from_pipe, write_b_to = to',
       write_b_to_pipe = to_pipe, write_b_data = BytesBuilder_build num data\<rparr>"

fun Spawn_encode :: "number_codec \<Rightarrow> spawn_entry \<Rightarrow> Spawn" where
  "Spawn_encode num (from, child, ends) =
     SpawnBuilder_build num \<lparr>spawn_b_from = from, spawn_b_child = child,
       spawn_b_pipes = PipeIndicesBuilder_build num ends\<rparr>"

fun Data_encode :: "number_codec \<Rightarrow> dag \<Rightarrow> Data" where
  "Data_encode num (ss, ps, ws) =
     DataBuilder_build num \<lparr>data_b_spawns = SpawnsBuilder_build num (map (Spawn_encode num) ss),
       data_b_pipes = PipesBuilder_build num (map (Pipe_encode num) ps),
       data_b_writes = WritesBuilder_build num (map (Write_encode num) ws)\<rparr>"

definition index_wf :: "byte_list \<Rightarrow> bool" where
  "index_wf i \<longleftrightarrow> length i = 8"

fun dag_wf :: "dag \<Rightarrow> bool" where
  "dag_wf (ss, ps, ws) \<longleftrightarrow>
     list_all (\<lambda>(from, child, ends). index_wf from \<and> index_wf child \<and> list_all index_wf ends) ss
   \<and> list_all (\<lambda>(vm, r, w). index_wf vm \<and> index_wf r \<and> index_wf w) ps
   \<and> list_all (\<lambda>(from, fp, to', tp, data). index_wf from \<and> index_wf fp \<and> index_wf to' \<and> index_wf tp) ws"

section \<open>The contract of every type\<close>

lemma vbind_Verified [simp]: "vbind r Verified = r"
  by (cases r) auto

lemma iter_items_step:
  "iter_items g (i, n) = (if n \<le> i then Verified [] else
     vbind (g i) (\<lambda>x. vbind (iter_items g (i + 1, n)) (\<lambda>xs. Verified (x # xs))))"
  by (cases "g i") (subst iter_items.simps, simp add: iter_next_def)+

lemma iter_items_map:
  "iter_items (\<lambda>i. vbind (g i) (\<lambda>p. Verified (f p))) (i, n) = vbind (iter_items g (i, n)) (\<lambda>ps. Verified (map f ps))"
proof (induction "n - i" arbitrary: i)
  case 0
  then show ?case by (simp add: iter_items_step)
next
  case (Suc k)
  then have "k = n - (i + 1)" by simp
  note IH = Suc.hyps(1) [OF this, simplified]
  show ?case
    using Suc.hyps(2) by (subst (1 2) iter_items_step) (cases "g i"; cases "iter_items g (i + 1, n)"; simp add: IH)
qed

lemma Bytes_into_iter_fixvec: "Bytes_into_iter num = fixvec_decode num 1 (\<lambda>p. p ! 0)"
proof
  fix s
  have "into_items n (\<lambda>i. vbind (g i) (\<lambda>p. Verified (f p))) = vbind (into_items n g) (\<lambda>ps. Verified (map f ps))"
    for n and g :: "nat \<Rightarrow> byte_list vres" and f :: "byte_list \<Rightarrow> u8"
    by (cases n) (simp_all add: into_items_def iter_items_map)
  then show "Bytes_into_iter num s = fixvec_decode num 1 (\<lambda>p. p ! 0) s"
    by (simp add: Bytes_into_iter_def fixvec_decode_def Bytes_item_count_def Bytes_get_unchecked_def [abs_def])
qed

lemma PipeIndices_into_iter_fixvec: "PipeIndices_into_iter num = fixvec_decode num 8 (\<lambda>p. p)"
  by (rule ext) (simp add: PipeIndices_into_iter_def fixvec_decode_def PipeIndices_item_count_def
      PipeIndices_get_unchecked_def [abs_def])

text \<open>Reading a table by its getters is \<open>table3_decode\<close> or \<open>table5_decode\<close> of its fields.\<close>

lemma Pipe_decode_table: "Pipe_decode num = table3_decode num Verified Verified Verified"
  by (rule ext) (simp add: Pipe_decode_def table3_decode_def Pipe_vm_def Pipe_read_pipe_def Pipe_write_pipe_def)

lemma Write_decode_table: "Write_decode num = table5_decode num Verified Verified Verified Verified (Bytes_into_iter num)"
  by (rule ext) (simp add: Write_decode_def table5_decode_def Write_from_def Write_from_pipe_def Write_to_def
      Write_to_pipe_def Write_data_def)

lemma Spawn_decode_table: "Spawn_decode num = table3_decode num Verified Verified (PipeIndices_into_iter num)"
  by (rule ext) (simp add: Spawn_decode_def table3_decode_def Spawn_from_def Spawn_child_def Spawn_pipes_def)

lemma items_of_vectors:
  "Spawns_into_iter num s = into_items (offset_count num s) (dynvec_get_unchecked num s)"
  "Pipes_into_iter num s = into_items (offset_count num s) (dynvec_get_unchecked num s)"
  "Writes_into_iter num s = into_items (offset_count num s) (dynvec_get_unchecked num s)"
  by (simp_all add: Spawns_into_iter_def Spawns_item_count_def Spawns_get_unchecked_def [abs_def]
      Pipes_into_iter_def Pipes_item_count_def Pipes_get_unchecked_def [abs_def]
      Writes_into_iter_def Writes_item_count_def Writes_get_unchecked_def [abs_def])

lemma Data_decode_table:
  "Data_decode num = table3_decode num (dynvec_decode num (Spawn_decode num))
     (dynvec_decode num (Pipe_decode num)) (dynvec_decode num (Write_decode num))"
  by (rule ext, unfold Data_decode_def table3_decode_def Data_spawns_def Data_pipes_def Data_writes_def
      items_of_vectors [abs_def], rename_tac s,
      case_tac "table_field num 3 0 s"; case_tac "table_field num 3 1 s"; case_tac "table_field num 3 2 s")
    (simp_all add: dynvec_decode_def [abs_def])

interpretation vm_index: entity VmIndexReader_verify Verified "\<lambda>v. v" index_wf
  unfolding VmIndexReader_verify_def index_wf_def by (rule entity_array)

interpretation pipe_index: entity PipeIndexReader_verify Verified "\<lambda>v. v" index_wf
  unfolding PipeIndexReader_verify_def index_wf_def by (rule entity_array)

lemma PipeIndices_entity:
  assumes "number_format num"
  shows "entity (PipeIndicesReader_verify num) (PipeIndices_into_iter num) (PipeIndicesBuilder_build num) (list_all index_wf)"
  using number_format.entity_fixvec [OF assms, where k = 8 and get = "\<lambda>p. p" and put = "\<lambda>p. p" and W = index_wf
      and name = "''PipeIndicesReader''"]
  by (simp add: PipeIndicesReader_verify_def PipeIndices_into_iter_fixvec PipeIndicesBuilder_build_def [abs_def] index_wf_def)

lemma Bytes_entity:
  assumes "number_format num"
  shows "entity (BytesReader_verify num) (Bytes_into_iter num) (BytesBuilder_build num) (\<lambda>_. True)"
proof -
  have "entity (fixvec_verify num ''BytesReader'' 1) (fixvec_decode num 1 (\<lambda>p. p ! 0))
      (\<lambda>vs. fixvec_write num (map (\<lambda>x. [x]) vs)) (list_all (\<lambda>_. True))"
    by (rule number_format.entity_fixvec [OF assms]) (auto simp: length_Suc_conv)
  moreover have "list_all (\<lambda>_ :: u8. True) = (\<lambda>_. True)" by (simp add: fun_eq_iff list_all_iff)
  ultimately show ?thesis
    by (simp add: BytesReader_verify_def Bytes_into_iter_fixvec BytesBuilder_build_def [abs_def])
qed

lemma Pipe_entity:
  assumes "number_format num"
  shows "entity (PipeReader_verify num) (Pipe_decode num) (Pipe_encode num)
    (\<lambda>(vm, r, w). index_wf vm \<and> index_wf r \<and> index_wf w)"
proof -
  have "Pipe_encode num = (\<lambda>(a, b, c). table_write num [a, b, c])"
    by (auto simp: fun_eq_iff PipeBuilder_build_def)
  then show ?thesis
    using number_format.entity_table3 [OF assms vm_index.entity_axioms pipe_index.entity_axioms pipe_index.entity_axioms]
    by (simp add: PipeReader_verify_def Pipe_decode_table)
qed

lemma Write_entity:
  assumes "number_format num"
  shows "entity (WriteReader_verify num) (Write_decode num) (Write_encode num)
    (\<lambda>(from, fp, to', tp, data). index_wf from \<and> index_wf fp \<and> index_wf to' \<and> index_wf tp)"
proof -
  have "Write_encode num = (\<lambda>(a, b, c, d, e). table_write num [a, b, c, d, BytesBuilder_build num e])"
    by (auto simp: fun_eq_iff WriteBuilder_build_def)
  then show ?thesis
    using number_format.entity_table5 [OF assms vm_index.entity_axioms pipe_index.entity_axioms
        vm_index.entity_axioms pipe_index.entity_axioms Bytes_entity [OF assms]]
    by (simp add: WriteReader_verify_def Write_decode_table)
qed

lemma Spawn_entity:
  assumes "number_format num"
  shows "entity (SpawnReader_verify num) (Spawn_decode num) (Spawn_encode num)
    (\<lambda>(from, child, ends). index_wf from \<and> index_wf child \<and> list_all index_wf ends)"
proof -
  have "Spawn_encode num = (\<lambda>(a, b, c). table_write num [a, b, PipeIndicesBuilder_build num c])"
    by (auto simp: fun_eq_iff SpawnBuilder_build_def)
  then show ?thesis
    using number_format.entity_table3 [OF assms vm_index.entity_axioms vm_index.entity_axioms PipeIndices_entity [OF assms]]
    by (simp add: SpawnReader_verify_def Spawn_decode_table)
qed

lemma Data_entity:
  assumes "number_format num"
  shows "entity (DataReader_verify num) (Data_decode num) (Data_encode num) dag_wf"
proof -
  note vec = number_format.entity_dynvec [OF assms]
  have S: "entity (SpawnsReader_verify num) (dynvec_decode num (Spawn_decode num))
      (\<lambda>vs. dynvec_write num (map (Spawn_encode num) vs)) (list_all (\<lambda>(from, child, ends).
        index_wf from \<and> index_wf child \<and> list_all index_wf ends))"
    unfolding SpawnsReader_verify_def by (rule vec [OF Spawn_entity [OF assms]])
  have P: "entity (PipesReader_verify num) (dynvec_decode num (Pipe_decode num))
      (\<lambda>vs. dynvec_write num (map (Pipe_encode num) vs))
      (list_all (\<lambda>(vm, r, w). index_wf vm \<and> index_wf r \<and> index_wf w))"
    unfolding PipesReader_verify_def by (rule vec [OF Pipe_entity [OF assms]])
  have W: "entity (WritesReader_verify num) (dynvec_decode num (Write_decode num))
      (\<lambda>vs. dynvec_write num (map (Write_encode num) vs))
      (list_all (\<lambda>(from, fp, to', tp, data). index_wf from \<and> index_wf fp \<and> index_wf to' \<and> index_wf tp))"
    unfolding WritesReader_verify_def by (rule vec [OF Write_entity [OF assms]])
  have "Data_encode num = (\<lambda>(a, b, c). table_write num [dynvec_write num (map (Spawn_encode num) a),
      dynvec_write num (map (Pipe_encode num) b), dynvec_write num (map (Write_encode num) c)])"
    by (auto simp: fun_eq_iff DataBuilder_build_def SpawnsBuilder_build_def PipesBuilder_build_def WritesBuilder_build_def)
  moreover have "dag_wf = (\<lambda>(a, b, c).
      list_all (\<lambda>(from, child, ends). index_wf from \<and> index_wf child \<and> list_all index_wf ends) a
      \<and> list_all (\<lambda>(vm, r, w). index_wf vm \<and> index_wf r \<and> index_wf w) b
      \<and> list_all (\<lambda>(from, fp, to', tp, data). index_wf from \<and> index_wf fp \<and> index_wf to' \<and> index_wf tp) c)"
    by (auto simp: fun_eq_iff)
  ultimately show ?thesis
    using number_format.entity_table3 [OF assms S P W] by (simp add: DataReader_verify_def Data_decode_table)
qed

interpretation data: entity "DataReader_verify (le_codec chk)" "Data_decode (le_codec chk)" "Data_encode (le_codec chk)" dag_wf
  for chk by (rule Data_entity) (rule le.number_format_axioms)

section \<open>A dataflow to read\<close>

text \<open>VM 0 creates the pipes 0 and 1 and spawns VM 1 with pipe 0, to which VM 0 writes three bytes.\<close>

definition demo_index :: "u8 \<Rightarrow> byte_list" where
  "demo_index n = [n, 0, 0, 0, 0, 0, 0, 0]"

definition demo_dag :: dag where
  "demo_dag = ([(demo_index 0, demo_index 1, [demo_index 0])],
     [(demo_index 0, demo_index 0, demo_index 1)],
     [(demo_index 0, demo_index 1, demo_index 1, demo_index 0, [7, 8, 9])])"

definition demo_data :: Data where
  "demo_data = Data_encode (le_codec True) demo_dag"

lemma demo_dag_wf: "dag_wf demo_dag"
  by (simp add: demo_dag_def demo_index_def index_wf_def)

lemma demo_data_length: "length demo_data < 2 ^ 32"
  by (simp add: demo_data_def demo_dag_def demo_index_def DataBuilder_build_def SpawnsBuilder_build_def
      PipesBuilder_build_def WritesBuilder_build_def PipeBuilder_build_def WriteBuilder_build_def
      SpawnBuilder_build_def PipeIndicesBuilder_build_def BytesBuilder_build_def
      le.length_table_write le.length_dynvec_write le.length_fixvec_write)

lemma demo_data_ok: "DataReader_verify (le_codec True) demo_data c = Verified ()"
  "Data_decode (le_codec True) demo_data = Verified demo_dag"
  using data.built [OF demo_dag_wf] demo_data_length by (simp_all add: demo_data_def)

section \<open>Properties of the serialised dataflow\<close>

text \<open>
  C38: verifying any bytes whatsoever, in either mode, never panics: no slice is out of range, no
  subtraction goes below zero and no number is read past the end of the buffer. So the
  verification is safe to run on untrusted witnesses.
\<close>

theorem data_verify_never_panics:
  assumes "number_format num"
  shows "DataReader_verify num s compatible \<noteq> Crashed k"
  by (rule entity.no_crash [OF Data_entity [OF assms]])

theorem data_verify_never_panics_witness:
  "\<forall>k. DataReader_verify (le_codec True) [255, 255, 255, 255, 0] False \<noteq> Crashed k"
  by (rule allI) (rule data_verify_never_panics [OF le.number_format_axioms])

text \<open>
  C37: what \<open>verify\<close> accepts, strictly or in compatible mode, can be read completely: every getter and
  every iterator, down to the bytes of each write, returns without a panic, and every index has its
  eight bytes. So \<open>new_unchecked\<close> on the parts of verified data is justified.
\<close>

theorem verified_data_readable:
  assumes "number_format num" and "DataReader_verify num s compatible = Verified ()"
  shows "\<exists>d. Data_decode num s = Verified d \<and> dag_wf d"
  by (rule entity.readable [OF Data_entity [OF assms(1)] assms(2)])

theorem verified_data_readable_witness: "\<exists>d. Data_decode (le_codec True) demo_data = Verified d \<and> dag_wf d"
  by (rule verified_data_readable [OF le.number_format_axioms demo_data_ok(1)])

text \<open>
  The encoding is canonical: bytes accepted in strict mode are exactly what the builders write
  for the dataflow read from them. There is no padding, no gap between the fields and no second
  encoding of the same dataflow.
\<close>

lemma strict_data_canonical:
  assumes "number_format num" and "DataReader_verify num s False = Verified ()"
    and "Data_decode num s = Verified d"
  shows "Data_encode num d = s"
  by (rule entity.canonical [OF Data_entity [OF assms(1)] assms(2,3)])

lemma strict_data_canonical_witness: "Data_encode (le_codec True) demo_dag = demo_data"
  by (rule strict_data_canonical [OF le.number_format_axioms demo_data_ok])

text \<open>
  C36: round trip: what the builders write for a dataflow, as long as its size fits the 32-bit size
  field, is accepted in both modes, and reading it gives the dataflow back.
\<close>

theorem data_round_trip:
  assumes "number_format num" and "dag_wf d" and "length (Data_encode num d) < 2 ^ 32"
  shows "DataReader_verify num (Data_encode num d) compatible = Verified ()
    \<and> Data_decode num (Data_encode num d) = Verified d"
  by (rule entity.built [OF Data_entity [OF assms(1)] assms(2,3)])

theorem data_round_trip_witness:
  "DataReader_verify (le_codec True) demo_data False = Verified () \<and> Data_decode (le_codec True) demo_data = Verified demo_dag"
  using data_round_trip [OF le.number_format_axioms demo_dag_wf] demo_data_length by (simp add: demo_data_def)

text \<open>
  The constants \<open>DEFAULT_VALUE\<close> of all ten types are the bytes their default builders write.
\<close>

lemma default_values_are_built:
  "VmIndexBuilder_build VmIndexBuilder_default = VmIndex_DEFAULT_VALUE
   \<and> PipeIndexBuilder_build PipeIndexBuilder_default = PipeIndex_DEFAULT_VALUE
   \<and> PipeIndicesBuilder_build (le_codec chk) [] = PipeIndices_DEFAULT_VALUE
   \<and> BytesBuilder_build (le_codec chk) [] = Bytes_DEFAULT_VALUE
   \<and> PipeBuilder_build (le_codec chk) PipeBuilder_default = Pipe_DEFAULT_VALUE
   \<and> PipesBuilder_build (le_codec chk) [] = Pipes_DEFAULT_VALUE
   \<and> WriteBuilder_build (le_codec chk) WriteBuilder_default = Write_DEFAULT_VALUE
   \<and> WritesBuilder_build (le_codec chk) [] = Writes_DEFAULT_VALUE
   \<and> SpawnBuilder_build (le_codec chk) SpawnBuilder_default = Spawn_DEFAULT_VALUE
   \<and> SpawnsBuilder_build (le_codec chk) [] = Spawns_DEFAULT_VALUE
   \<and> DataBuilder_build (le_codec chk) DataBuilder_default = Data_DEFAULT_VALUE"
proof -
  note defs = VmIndexBuilder_build_def VmIndexBuilder_default_def VmIndex_DEFAULT_VALUE_def
    PipeIndexBuilder_build_def PipeIndexBuilder_default_def PipeIndex_DEFAULT_VALUE_def
    PipeIndicesBuilder_build_def PipeIndices_DEFAULT_VALUE_def BytesBuilder_build_def Bytes_DEFAULT_VALUE_def
    array_write_def fixvec_write_def dynvec_write_def table_write_def packed_def le_codec_def le_number_def
  show ?thesis
    by (simp add: defs upt_rec PipeBuilder_build_def PipeBuilder_default_def Pipe_DEFAULT_VALUE_def
        PipesBuilder_build_def Pipes_DEFAULT_VALUE_def WriteBuilder_build_def WriteBuilder_default_def
        Write_DEFAULT_VALUE_def WritesBuilder_build_def Writes_DEFAULT_VALUE_def SpawnBuilder_build_def
        SpawnBuilder_default_def Spawn_DEFAULT_VALUE_def SpawnsBuilder_build_def Spawns_DEFAULT_VALUE_def
        DataBuilder_build_def DataBuilder_default_def Data_DEFAULT_VALUE_def)
qed

text \<open>
  Every builder writes exactly as many bytes as its \<open>expected_length\<close>, for which the buffer is
  allocated.
\<close>

lemma builders_write_expected_length:
  assumes "number_format num"
  shows "length (PipeBuilder_build num p) = PipeBuilder_expected_length p
    \<and> length (WriteBuilder_build num w) = WriteBuilder_expected_length w
    \<and> length (SpawnBuilder_build num sp) = SpawnBuilder_expected_length sp
    \<and> length (DataBuilder_build num d) = DataBuilder_expected_length d
    \<and> length (PipesBuilder_build num items) = PipesBuilder_expected_length items
    \<and> length (WritesBuilder_build num items) = WritesBuilder_expected_length items
    \<and> length (SpawnsBuilder_build num items) = SpawnsBuilder_expected_length items
    \<and> length (BytesBuilder_build num bs) = BytesBuilder_expected_length bs"
proof -
  have bytes: "length (concat (map (\<lambda>x. [x]) bs)) = length bs" for bs :: "u8 list" by (induction bs) auto
  note len = number_format.length_table_write [OF assms] number_format.length_dynvec_write [OF assms]
    number_format.length_fixvec_write [OF assms]
  show ?thesis
    by (simp add: len bytes length_concat PipeBuilder_build_def PipeBuilder_expected_length_def
        WriteBuilder_build_def WriteBuilder_expected_length_def SpawnBuilder_build_def
        SpawnBuilder_expected_length_def DataBuilder_build_def DataBuilder_expected_length_def
        PipesBuilder_build_def PipesBuilder_expected_length_def WritesBuilder_build_def
        WritesBuilder_expected_length_def SpawnsBuilder_build_def SpawnsBuilder_expected_length_def
        BytesBuilder_build_def BytesBuilder_expected_length_def)
qed

lemma builders_write_expected_length_witness:
  "length (BytesBuilder_build (le_codec True) [1, 2, 3]) = 7"
  using builders_write_expected_length [OF le.number_format_axioms, where bs = "[1, 2, 3]"]
  by (simp add: BytesBuilder_expected_length_def)

lemma vector_get:
  assumes "number_format num" and "dynvec_verify num name V s c = Verified ()"
  obtains ps where "into_items (offset_count num s) (dynvec_get_unchecked num s) = Verified ps"
    and "offset_count num s = Verified (length ps)" and "dynvec_write num ps = s"
    and "\<And>i. checked_get (offset_count num s) (dynvec_get_unchecked num s) i
      = Verified (if i < length ps then Some (ps ! i) else None)"
proof -
  from number_format.dynvec_items [OF assms] obtain ps where ps:
      "into_items (offset_count num s) (dynvec_get_unchecked num s) = Verified ps"
      "dynvec_write num ps = s" "offset_count num s = Verified (length ps)"
      "\<And>i. i < length ps \<Longrightarrow> dynvec_get_unchecked num s i = Verified (ps ! i)"
    by blast
  then show thesis using that [of ps] by (auto simp: checked_get_def)
qed

lemma vector_rebuild:
  assumes "number_format num" and "dynvec_verify num name V s c = Verified ()"
  shows "\<exists>ps. into_items (offset_count num s) (dynvec_get_unchecked num s) = Verified ps \<and> dynvec_write num ps = s"
  using vector_get [OF assms] by metis

text \<open>
  On verified pipes, \<open>get\<close> agrees with the iterator: it is the item at every index below \<open>len\<close>
  and \<open>None\<close> at every other index, and never panics.
\<close>

lemma pipes_get_agrees_with_iterator:
  assumes "number_format num" and "PipesReader_verify num s compatible = Verified ()"
  shows "\<exists>items. Pipes_into_iter num s = Verified items \<and> Pipes_item_count num s = Verified (length items)
    \<and> (\<forall>i. Pipes_get num s i = Verified (if i < length items then Some (items ! i) else None))"
proof -
  from vector_get [OF assms(1), of "''PipesReader''" "PipeReader_verify num" s compatible] assms(2)
  obtain ps where "into_items (offset_count num s) (dynvec_get_unchecked num s) = Verified ps"
      "offset_count num s = Verified (length ps)"
      "\<And>i. checked_get (offset_count num s) (dynvec_get_unchecked num s) i
        = Verified (if i < length ps then Some (ps ! i) else None)"
    unfolding PipesReader_verify_def by blast
  then show ?thesis
    by (simp add: Pipes_into_iter_def Pipes_get_def Pipes_item_count_def Pipes_get_unchecked_def [abs_def])
qed

lemma empty_vector_ok: "dynvec_verify (le_codec chk) name V [4, 0, 0, 0] c = Verified ()"
  by (subst le.dynvec_verify_ok) (simp add: packed_def le_codec_def le_number_def)

lemma default_pipes_ok: "PipesReader_verify (le_codec True) Pipes_DEFAULT_VALUE c = Verified ()"
  by (simp add: PipesReader_verify_def empty_vector_ok Pipes_DEFAULT_VALUE_def)

lemma pipes_get_agrees_with_iterator_witness:
  "\<exists>items. Pipes_into_iter (le_codec True) Pipes_DEFAULT_VALUE = Verified items"
  using pipes_get_agrees_with_iterator [OF le.number_format_axioms default_pipes_ok] by blast

text \<open>
  C40: \<open>as_builder\<close> followed by \<open>build\<close> gives strictly verified data back, byte by byte; the same holds
  for its spawns, pipes and writes, whose builders collect the items of the iterator.
\<close>

theorem as_builder_rebuilds:
  assumes "number_format num" and "DataReader_verify num s False = Verified ()"
  shows "\<exists>b. Data_as_builder num s = Verified b \<and> DataBuilder_build num b = s
    \<and> (\<exists>items. Spawns_as_builder num (data_b_spawns b) = Verified items \<and> SpawnsBuilder_build num items = data_b_spawns b)
    \<and> (\<exists>items. Pipes_as_builder num (data_b_pipes b) = Verified items \<and> PipesBuilder_build num items = data_b_pipes b)
    \<and> (\<exists>items. Writes_as_builder num (data_b_writes b) = Verified items \<and> WritesBuilder_build num items = data_b_writes b)"
proof -
  have "table_verify num ''DataReader'' [SpawnsReader_verify num, PipesReader_verify num, WritesReader_verify num] s False
      = Verified ()" using assms(2) by (simp add: DataReader_verify_def)
  from number_format.table_parts [OF assms(1) this, of 3] obtain ps where
      field: "\<And>i. i < 3 \<Longrightarrow> table_field num 3 i s = Verified (ps ! i)"
      and ok: "\<And>i. i < 3 \<Longrightarrow> ([SpawnsReader_verify num, PipesReader_verify num, WritesReader_verify num] ! i)
        (ps ! i) False = Verified ()"
      and len: "length ps = 3" and s: "table_write num ps = s"
    by auto
  let ?b = "\<lparr>data_b_spawns = ps ! 0, data_b_pipes = ps ! 1, data_b_writes = ps ! 2\<rparr>"
  have b: "Data_as_builder num s = Verified ?b"
    by (simp add: Data_as_builder_def Data_spawns_def Data_pipes_def Data_writes_def field DataBuilder_default_def)
  have "DataBuilder_build num ?b = s" using s list_three [OF len] by (simp add: DataBuilder_build_def)
  moreover have v: "SpawnsReader_verify num (ps ! 0) False = Verified ()"
      "PipesReader_verify num (ps ! 1) False = Verified ()" "WritesReader_verify num (ps ! 2) False = Verified ()"
    using ok [of 0] ok [of 1] ok [of 2] by simp_all
  have app: "fold (\<lambda>elem b. b @ [elem]) items b = b @ items" for items b :: "byte_list list"
    by (induction items arbitrary: b) auto
  have "\<exists>items. Spawns_as_builder num (ps ! 0) = Verified items \<and> SpawnsBuilder_build num items = ps ! 0"
    using vector_rebuild [OF assms(1) v(1) [unfolded SpawnsReader_verify_def]]
    by (auto simp: Spawns_as_builder_def Spawns_into_iter_def Spawns_item_count_def Spawns_get_unchecked_def [abs_def]
        SpawnsBuilder_extend_def SpawnsBuilder_build_def app)
  moreover have "\<exists>items. Pipes_as_builder num (ps ! 1) = Verified items \<and> PipesBuilder_build num items = ps ! 1"
    using vector_rebuild [OF assms(1) v(2) [unfolded PipesReader_verify_def]]
    by (auto simp: Pipes_as_builder_def Pipes_into_iter_def Pipes_item_count_def Pipes_get_unchecked_def [abs_def]
        PipesBuilder_extend_def PipesBuilder_build_def app)
  moreover have "\<exists>items. Writes_as_builder num (ps ! 2) = Verified items \<and> WritesBuilder_build num items = ps ! 2"
    using vector_rebuild [OF assms(1) v(3) [unfolded WritesReader_verify_def]]
    by (auto simp: Writes_as_builder_def Writes_into_iter_def Writes_item_count_def Writes_get_unchecked_def [abs_def]
        WritesBuilder_extend_def WritesBuilder_build_def app)
  ultimately show ?thesis using b by auto
qed

theorem as_builder_rebuilds_witness:
  "\<exists>b. Data_as_builder (le_codec True) demo_data = Verified b \<and> DataBuilder_build (le_codec True) b = demo_data"
  using as_builder_rebuilds [OF le.number_format_axioms demo_data_ok(1)] by blast

text \<open>
  C39: forward compatibility: a table with one more field than the reader knows is accepted in
  compatible mode, rejected in strict mode with the two field counts, and its known fields are read
  as they are.
\<close>

theorem extra_field_compatible:
  assumes "number_format num" and "length (table_write num [ss, ps, ws, extra]) < 2 ^ 32"
    and "SpawnsReader_verify num ss True = Verified ()" and "PipesReader_verify num ps True = Verified ()"
    and "WritesReader_verify num ws True = Verified ()" and "s = table_write num [ss, ps, ws, extra]"
  shows "DataReader_verify num s True = Verified ()
    \<and> DataReader_verify num s False = Rejected (FieldCountNotMatch ''DataReader'' 3 4)
    \<and> Data_spawns num s = Verified ss \<and> Data_pipes num s = Verified ps \<and> Data_writes num s = Verified ws
    \<and> Data_count_extra_fields num s = Verified 1"
proof -
  let ?ps = "[ss, ps, ws, extra]" and ?vs = "[SpawnsReader_verify num, PipesReader_verify num, WritesReader_verify num]"
  obtain os where os: "framed num s os" "framed_parts s os = ?ps"
    using number_format.framed_write [OF assms(1) _ assms(2)] assms(6) by blast
  have len: "length os = 4" using os(2) length_parts [of s "os @ [length s]"] by simp
  have field: "table_field num 3 i s = Verified (?ps ! i)" if "i < 3" for i
    using number_format.framed_field [OF assms(1) os(1) that] len os(2) by simp
  have v: "DataReader_verify num s True = Verified ()"
    unfolding DataReader_verify_def number_format.table_verify_ok [OF assms(1), of ?vs, OF list.simps(3)]
    using os len assms(3-5) by (intro exI [of _ os]) (auto simp: less_Suc_eq numeral_eq_Suc)
  note b = number_format.framed_bounds [OF assms(1) os(1)] and h = number_format.framed_header [OF assms(1) os(1)]
  have "hd os = 20" using os(1) len by (simp add: framed_def)
  then have "DataReader_verify num s False = Rejected (FieldCountNotMatch ''DataReader'' 3 4)"
    using h(1,2) b(1,2) by (simp add: DataReader_verify_def table_verify_def Let_def)
  moreover have "Data_count_extra_fields num s = Verified 1"
    using h(5) len by (simp add: Data_count_extra_fields_def Data_field_count_def usize_sub_def)
  ultimately show ?thesis
    using v field [of 0] field [of 1] field [of 2] by (simp add: Data_spawns_def Data_pipes_def Data_writes_def)
qed

lemma default_vectors_ok:
  "SpawnsReader_verify (le_codec True) [4, 0, 0, 0] True = Verified ()"
  "PipesReader_verify (le_codec True) [4, 0, 0, 0] True = Verified ()"
  "WritesReader_verify (le_codec True) [4, 0, 0, 0] True = Verified ()"
  by (simp_all add: SpawnsReader_verify_def PipesReader_verify_def WritesReader_verify_def empty_vector_ok)

theorem extra_field_compatible_witness:
  "DataReader_verify (le_codec True) (table_write (le_codec True) [[4, 0, 0, 0], [4, 0, 0, 0], [4, 0, 0, 0], [1, 2]]) True
    = Verified ()"
  using extra_field_compatible [OF le.number_format_axioms _ default_vectors_ok refl, of "[1, 2]"]
  by (simp add: le.length_table_write)

text \<open>
  The encoding is self-delimiting: no bytes can be appended to accepted data, in either mode. So
  no accepted data is a proper prefix of other accepted data.
\<close>

lemma verified_data_not_extended:
  assumes "number_format num" and "DataReader_verify num s c = Verified ()" and "t \<noteq> []"
  shows "DataReader_verify num (s @ t) c' \<noteq> Verified ()"
proof
  assume st: "DataReader_verify num (s @ t) c' = Verified ()"
  note ok = number_format.table_verify_ok [OF assms(1) list.simps(3)]
  obtain os os' where "framed num s os" "framed num (s @ t) os'"
    using assms(2) st unfolding DataReader_verify_def ok by blast
  note h = number_format.framed_header(1) [OF assms(1) this(1)] number_format.framed_header(1) [OF assms(1) this(2)]
    and f = this
  have "packed num (length s) = take 4 s" "packed num (length (s @ t)) = take 4 (s @ t)"
    using f number_format.length_packed [OF assms(1)] by (metis append_eq_conv_conj framed_def)+
  moreover have "4 \<le> length s" using number_format.framed_bounds(1,2) [OF assms(1) f(1)] by simp
  ultimately have "packed num (length s) = packed num (length (s @ t))" by simp
  moreover have "number_at num (packed num n @ []) 0 = Verified n" if "n < 2 ^ 32" for n
    using number_format.number_at_packed [OF assms(1) that, of 0 "[]" "[]"] by simp
  ultimately have "length s = length (s @ t)" using f by (metis framed_def vres.inject(1))
  then show False using assms(3) by simp
qed

lemma verified_data_not_extended_witness: "DataReader_verify (le_codec True) (demo_data @ [0]) True \<noteq> Verified ()"
  by (rule verified_data_not_extended [OF le.number_format_axioms demo_data_ok(1)]) simp

end
