(* ===== verification/Dag_Library.thy ===== *)
theory Dag_Library
  imports Rust_Base
begin

text \<open>
  What the generator uses of the crates daggy and rand, which are not in the repository.

  \<open>dag_library\<close> holds the operations of \<open>daggy::Dag\<close>: a node or an edge is its index, a walker over
  children or parents is the list of the pairs it yields. \<open>dag_laws\<close> is their documented behaviour,
  over the number of nodes and the list of edges of a graph: indices are given out in order below the
  largest \<open>u32\<close>, \<open>add_edge\<close> refuses exactly the edges that close a cycle, and the order in which a
  walker yields is not specified. \<open>list_dag\<close>, a list of edges with a search for cycles, obeys them.

  \<open>rng_library\<close> holds the operations of a seeded generator, and \<open>rng_contract\<close> what is relied on: a
  number drawn lies in the range asked for, a buffer keeps its length, and drawing repeatedly from a
  range of two or more does not give the same number for ever.
\<close>

section \<open>Directed acyclic graphs\<close>

record 'g dag_library =
  dag_new :: 'g
  dag_add_node :: "'g \<Rightarrow> (nat \<times> 'g) res"
  dag_add_child :: "'g \<Rightarrow> nat \<Rightarrow> ((nat \<times> nat) \<times> 'g) res"
  dag_add_edge :: "'g \<Rightarrow> nat \<Rightarrow> nat \<Rightarrow> (nat \<times> 'g) option res"
  dag_children :: "'g \<Rightarrow> nat \<Rightarrow> (nat \<times> nat) list"
  dag_parents :: "'g \<Rightarrow> nat \<Rightarrow> (nat \<times> nat) list"
  dag_edge_endpoints :: "'g \<Rightarrow> nat \<Rightarrow> (nat \<times> nat) option"

text \<open>\<open>u32::MAX\<close>, the index that no node and no edge has.\<close>

definition index_end :: nat where
  "index_end = 2 ^ 32 - 1"

lemma distinct_singleton:
  assumes "distinct xs" and "set xs = {x}"
  shows "xs = [x]"
proof -
  have "length xs = 1"
    using assms distinct_card by fastforce
  then show ?thesis
    using assms(2) by (cases xs) auto
qed

locale dag_laws =
  fixes lib :: "'g dag_library"
    and nodes :: "'g \<Rightarrow> nat"
    and edges :: "'g \<Rightarrow> (nat \<times> nat) list"
  assumes new_nodes: "nodes (dag_new lib) = 0"
    and new_edges: "edges (dag_new lib) = []"
    and add_node: "nodes g < index_end \<Longrightarrow>
          \<exists>g'. dag_add_node lib g = Ok (nodes g, g') \<and> nodes g' = Suc (nodes g) \<and> edges g' = edges g"
    and add_child: "nodes g < index_end \<Longrightarrow> length (edges g) < index_end \<Longrightarrow> p < nodes g \<Longrightarrow>
          \<exists>g'. dag_add_child lib g p = Ok ((length (edges g), nodes g), g') \<and> nodes g' = Suc (nodes g) \<and>
               edges g' = edges g @ [(p, nodes g)]"
    and add_edge: "length (edges g) < index_end \<Longrightarrow> a < nodes g \<Longrightarrow> b < nodes g \<Longrightarrow> (b, a) \<notin> (set (edges g))\<^sup>* \<Longrightarrow>
          \<exists>g'. dag_add_edge lib g a b = Ok (Some (length (edges g), g')) \<and> nodes g' = nodes g \<and>
               edges g' = edges g @ [(a, b)]"
    and add_edge_cycle: "length (edges g) < index_end \<Longrightarrow> a < nodes g \<Longrightarrow> b < nodes g \<Longrightarrow>
          (b, a) \<in> (set (edges g))\<^sup>* \<Longrightarrow> dag_add_edge lib g a b = Ok None"
    and distinct_children: "distinct (dag_children lib g n)"
    and children: "(e, c) \<in> set (dag_children lib g n) \<longleftrightarrow> e < length (edges g) \<and> edges g ! e = (n, c)"
    and distinct_parents: "distinct (dag_parents lib g n)"
    and parents: "(e, p) \<in> set (dag_parents lib g n) \<longleftrightarrow> e < length (edges g) \<and> edges g ! e = (p, n)"
    and edge_endpoints: "dag_edge_endpoints lib g e = (if e < length (edges g) then Some (edges g ! e) else None)"
begin

lemma no_parents: "n \<notin> snd ` set (edges g) \<Longrightarrow> dag_parents lib g n = []"
proof (rule ccontr)
  assume n: "n \<notin> snd ` set (edges g)" and "dag_parents lib g n \<noteq> []"
  then obtain e p where "(e, p) \<in> set (dag_parents lib g n)"
    by (metis list.set_intros(1) neq_Nil_conv surj_pair)
  then have "(p, n) \<in> set (edges g)"
    by (metis nth_mem parents)
  then show False using n by force
qed

lemma one_parent:
  assumes "e < length (edges g)" and "edges g ! e = (p, n)" and "\<And>e' p'. e' < length (edges g) \<Longrightarrow>
    edges g ! e' = (p', n) \<Longrightarrow> e' = e"
  shows "dag_parents lib g n = [(e, p)]"
proof (rule distinct_singleton [OF distinct_parents])
  show "set (dag_parents lib g n) = {(e, p)}"
  proof (intro set_eqI iffI)
    fix x assume x: "x \<in> set (dag_parents lib g n)"
    obtain e' p' where e': "x = (e', p')" by (cases x)
    then have "e' < length (edges g)" "edges g ! e' = (p', n)"
      using x by (simp_all add: parents)
    then show "x \<in> {(e, p)}"
      using assms(2,3) e' by auto
  next
    fix x assume "x \<in> {(e, p)}"
    then show "x \<in> set (dag_parents lib g n)"
      using assms(1,2) by (simp add: parents)
  qed
qed

end

section \<open>A reference implementation\<close>

type_synonym list_graph = "nat \<times> (nat \<times> nat) list"

definition reaches :: "(nat \<times> nat) list \<Rightarrow> nat \<Rightarrow> nat \<Rightarrow> bool" where
  "reaches es b a = (b = a \<or> (b, a) \<in> ntrancl (card (set es) - 1) (set es))"

lemma reaches_iff: "reaches es b a \<longleftrightarrow> (b, a) \<in> (set es)\<^sup>*"
  unfolding reaches_def finite_trancl_ntranl [OF finite_set, symmetric] by (auto simp: rtrancl_eq_or_trancl)

definition list_dag :: "list_graph dag_library" where
  "list_dag =
     \<lparr>dag_new = (0, []),
      dag_add_node = (\<lambda>(n, es). if n < index_end then Ok (n, Suc n, es) else Panic AssertFailed),
      dag_add_child = (\<lambda>(n, es) p. if n < index_end \<and> length es < index_end \<and> p < n
        then Ok ((length es, n), Suc n, es @ [(p, n)]) else Panic AssertFailed),
      dag_add_edge = (\<lambda>(n, es) a b. if length es < index_end \<and> a < n \<and> b < n
        then Ok (if reaches es b a then None else Some (length es, n, es @ [(a, b)])) else Panic AssertFailed),
      dag_children = (\<lambda>(n, es) a. rev (concat (map (\<lambda>(e, p, c). if p = a then [(e, c)] else []) (enumerate 0 es)))),
      dag_parents = (\<lambda>(n, es) a. rev (concat (map (\<lambda>(e, p, c). if c = a then [(e, p)] else []) (enumerate 0 es)))),
      dag_edge_endpoints = (\<lambda>(n, es) e. if e < length es then Some (es ! e) else None)\<rparr>"

lemma distinct_by_index:
  "distinct (concat (map (\<lambda>(e, p, c). if P p c then [(e, f p c)] else []) (enumerate k es))) \<and>
   (\<forall>(e, x) \<in> set (concat (map (\<lambda>(e, p, c). if P p c then [(e, f p c)] else []) (enumerate k es))). k \<le> e)"
  by (induction es arbitrary: k) (fastforce split: prod.splits)+

interpretation list_dag: dag_laws list_dag fst snd
proof (unfold_locales, goal_cases)
  case (7 g n)
  then show ?case
    using distinct_by_index [of "\<lambda>p c. p = n" "\<lambda>p c. c" 0 "snd g"] by (cases g) (simp add: list_dag_def)
next
  case (9 g n)
  then show ?case
    using distinct_by_index [of "\<lambda>p c. c = n" "\<lambda>p c. p" 0 "snd g"] by (cases g) (simp add: list_dag_def)
qed (auto simp: list_dag_def reaches_iff in_set_enumerate_eq split: if_splits; force simp: in_set_enumerate_eq)+

section \<open>Random numbers\<close>

record 'r rng_library =
  rng_seed :: "u64 \<Rightarrow> 'r"
  gen_range :: "nat \<Rightarrow> nat \<Rightarrow> 'r \<Rightarrow> nat \<times> 'r"
  fill_bytes :: "nat \<Rightarrow> 'r \<Rightarrow> u8 list \<times> 'r"

definition rng_contract :: "'r rng_library \<Rightarrow> bool" where
  "rng_contract rnd \<longleftrightarrow>
     (\<forall>lo hi r. lo < hi \<longrightarrow> lo \<le> fst (gen_range rnd lo hi r) \<and> fst (gen_range rnd lo hi r) < hi) \<and>
     (\<forall>n r. length (fst (fill_bytes rnd n r)) = n) \<and>
     (\<forall>n i r. 2 \<le> n \<longrightarrow> (\<exists>k. fst (gen_range rnd 0 n (((\<lambda>r. snd (gen_range rnd 0 n r)) ^^ k) r)) \<noteq> i))"

text \<open>A generator that counts.\<close>

definition counter_rng :: "nat rng_library" where
  "counter_rng =
     \<lparr>rng_seed = unat, gen_range = (\<lambda>lo hi r. (lo + r mod (hi - lo), Suc r)),
      fill_bytes = (\<lambda>n r. (map of_nat [r..<r + n], r + n))\<rparr>"

lemma counter_rng_contract: "rng_contract counter_rng"
proof -
  have draws: "((\<lambda>r. snd (gen_range counter_rng 0 n r)) ^^ k) r = r + k" for n k r :: nat
    by (induction k) (simp_all add: counter_rng_def)
  have redraw: "\<exists>k. (r + k) mod n \<noteq> i" if "2 \<le> n" for n i r :: nat
  proof -
    have "(r + 0) mod n \<noteq> (r + 1) mod n"
      using that by (metis One_nat_def Suc_eq_plus1 add.right_neutral add_Suc_right lessI less_le_trans mod_Suc
          mod_less_divisor n_not_Suc_n nat_neq_iff numeral_2_eq_2 zero_less_Suc not_less_eq_eq Suc_inject)
    then show ?thesis by metis
  qed
  show ?thesis
    unfolding rng_contract_def draws
    using redraw by (simp add: counter_rng_def) (metis add.commute less_diff_conv mod_less_divisor zero_less_diff)
qed

lemma other_draw:
  assumes "rng_contract rnd" and "2 \<le> n"
  obtains k where "fst (gen_range rnd 0 n (((\<lambda>r. snd (gen_range rnd 0 n r)) ^^ k) r)) \<noteq> i"
  using assms unfolding rng_contract_def by blast

end
