(* ===== verification/Dag_Generator.thy ===== *)
theory Dag_Generator
  imports Dag_Correct Rust_Maps Dag_Library
begin

text \<open>
  \<open>generate_data_graph\<close> of src/dev_utils/mod.rs: a random dataflow for the test programs. A random
  tree says which VM spawns which, random edges between VMs say who writes to whom; for every edge
  a pair of pipes is created at the lowest common ancestor of writer and reader and passed down the
  tree to both.

  The crates daggy (graphs) and rand are the parameters of \<open>Dag_Library\<close>. Redrawing a random number until it
  differs from another need not end, so the outcome is an option, \<open>None\<close> where the code does not
  return. The builders take the indices of the entries through \<open>build_vm_index\<close> and
  \<open>build_pipe_index\<close>; the entries themselves are kept as tuples of numbers until then.
\<close>

section \<open>Outcomes\<close>

text \<open>Outcomes: \<open>None\<close> does not return.\<close>

type_synonym 'a outcome = "'a res option"

definition obind :: "'a outcome \<Rightarrow> ('a \<Rightarrow> 'b outcome) \<Rightarrow> 'b outcome" where
  "obind x f = (case x of
     None \<Rightarrow> None | Some (Ok a) \<Rightarrow> f a | Some (Err e) \<Rightarrow> Some (Err e) | Some (Panic k) \<Rightarrow> Some (Panic k))"

definition returned :: "'a \<Rightarrow> 'a outcome" where
  "returned a = Some (Ok a)"

definition asserted :: "bool \<Rightarrow> unit outcome" where
  "asserted b = Some (if b then Ok () else Panic AssertFailed)"

definition unwrapped :: "panic \<Rightarrow> 'a option \<Rightarrow> 'a outcome" where
  "unwrapped k x = Some (case x of None \<Rightarrow> Panic k | Some a \<Rightarrow> Ok a)"

section \<open>The random tree and the random edges\<close>

text \<open>The variables of the first two loops.\<close>

record ('g, 'r) graphs =
  gr_rng :: 'r
  gr_spawn_dag :: 'g
  gr_write_dag :: 'g
  gr_spawn_nodes :: "nat list"
  gr_write_nodes :: "nat list"

text \<open>\<open>nodes[rng.gen_range(0..nodes.len())]\<close>: the index is a panic when it is out of range.\<close>

definition pick_node :: "nat list \<Rightarrow> nat \<Rightarrow> nat outcome" where
  "pick_node nodes i = unwrapped MissingKey (if i < length nodes then Some (nodes ! i) else None)"

fun grow_tree :: "'g dag_library \<Rightarrow> 'r rng_library \<Rightarrow> nat \<Rightarrow> ('g, 'r) graphs \<Rightarrow> ('g, 'r) graphs outcome" where
  "grow_tree lib rnd 0 v = returned v"
| "grow_tree lib rnd (Suc n) v =
     obind (Some (dag_add_node lib (gr_write_dag v))) (\<lambda>(write_node, write_dag).
     case gen_range rnd 0 (length (gr_spawn_nodes v)) (gr_rng v) of (i, rng) \<Rightarrow>
     obind (pick_node (gr_spawn_nodes v) i) (\<lambda>previous_node.
     obind (Some (dag_add_child lib (gr_spawn_dag v) previous_node)) (\<lambda>((_, spawn_node), spawn_dag).
     grow_tree lib rnd n \<lparr>gr_rng = rng, gr_spawn_dag = spawn_dag, gr_write_dag = write_dag,
       gr_spawn_nodes = gr_spawn_nodes v @ [spawn_node], gr_write_nodes = gr_write_nodes v @ [write_node]\<rparr>)))"

text \<open>The \<open>while\<close> loop that draws until the index differs from the first.\<close>

partial_function (option) other_index :: "'r rng_library \<Rightarrow> nat \<Rightarrow> nat \<Rightarrow> nat \<Rightarrow> 'r \<Rightarrow> (nat \<times> 'r) option" where
  "other_index rnd n first i rng =
     (if i \<noteq> first then Some (i, rng)
      else other_index rnd n first (fst (gen_range rnd 0 n rng)) (snd (gen_range rnd 0 n rng)))"

declare other_index.simps [code]

text \<open>At most \<open>converging_threshold\<close> attempts to add one edge.\<close>

fun try_edge :: "'g dag_library \<Rightarrow> 'r rng_library \<Rightarrow> nat list \<Rightarrow> nat \<Rightarrow> 'g \<Rightarrow> 'r \<Rightarrow>
    (nat option \<times> 'g \<times> 'r) outcome" where
  "try_edge lib rnd nodes 0 g rng = returned (None, g, rng)"
| "try_edge lib rnd nodes (Suc n) g rng =
     (case gen_range rnd 0 (length nodes) rng of (first_index, rng1) \<Rightarrow>
      case other_index rnd (length nodes) first_index first_index rng1 of
        None \<Rightarrow> None
      | Some (second_index, rng2) \<Rightarrow>
          obind (pick_node nodes first_index) (\<lambda>first_node.
          obind (pick_node nodes second_index) (\<lambda>second_node.
          obind (Some (dag_add_edge lib g first_node second_node)) (\<lambda>added.
          case added of
            Some (e, g') \<Rightarrow> returned (Some e, g', rng2)
          | None \<Rightarrow> try_edge lib rnd nodes n g rng2))))"

fun add_writes :: "'g dag_library \<Rightarrow> 'r rng_library \<Rightarrow> nat list \<Rightarrow> nat \<Rightarrow> nat \<Rightarrow> 'g \<Rightarrow> 'r \<Rightarrow> nat list \<Rightarrow>
    (nat list \<times> 'g \<times> 'r) outcome" where
  "add_writes lib rnd nodes threshold 0 g rng edges = returned (edges, g, rng)"
| "add_writes lib rnd nodes threshold (Suc n) g rng edges =
     obind (try_edge lib rnd nodes threshold g rng) (\<lambda>(added, g', rng').
     case added of
       None \<Rightarrow> returned (edges, g', rng')
     | Some e \<Rightarrow> add_writes lib rnd nodes threshold n g' rng' (edges @ [e]))"

section \<open>Spawn operations and created pipes\<close>

text \<open>
  \<open>spawn_ops\<close> (edge to pipes passed), \<open>pipes_ops\<close> (node to pipes created) and \<open>spawn_edges\<close>, filled by
  walking the tree in breadth first order.
\<close>

record plan =
  pl_spawn_ops :: "(nat, nat list) hashmap"
  pl_pipes_ops :: "(nat, (nat \<times> nat) list) btree"
  pl_spawn_edges :: "nat list"

definition visit_node :: "'g dag_library \<Rightarrow> 'g \<Rightarrow> nat \<Rightarrow> plan \<Rightarrow> plan" where
  "visit_node lib g node p =
     (let children = rev (dag_children lib g node)
      in p\<lparr>pl_pipes_ops := bt_insert node [] (pl_pipes_ops p),
           pl_spawn_ops := fold (\<lambda>(e, _). hm_insert e []) children (pl_spawn_ops p),
           pl_spawn_edges := pl_spawn_edges p @ map fst children\<rparr>)"

partial_function (option) walk_tree :: "'g dag_library \<Rightarrow> 'g \<Rightarrow> nat list \<Rightarrow> plan \<Rightarrow> plan option" where
  "walk_tree lib g processing p =
     (if processing = [] then Some p
      else walk_tree lib g
        (tl processing @ map snd (rev (dag_children lib g (hd processing))))
        (visit_node lib g (hd processing) p))"

declare walk_tree.simps [code]

section \<open>The lowest common ancestor and the path to it\<close>

text \<open>
  One round of the \<open>loop\<close>: climb one step from both nodes (a node without parent stays), then test
  whether either new node is known to the other side.
\<close>

partial_function (option) find_ancestor :: "'g dag_library \<Rightarrow> 'g \<Rightarrow> nat \<Rightarrow> nat \<Rightarrow> nat set \<Rightarrow> nat set \<Rightarrow>
    nat outcome" where
  "find_ancestor lib g a b set_a set_b =
     (let parents_a = dag_parents lib g a; parents_b = dag_parents lib g b
      in if \<not> (length parents_a = 1 \<and> length parents_b = 1 \<or> parents_a = [] \<and> length parents_b = 1
                \<or> length parents_a = 1 \<and> parents_b = [])
         then Some (Panic AssertFailed)
         else
           let a' = (if length parents_a = 1 then snd (hd parents_a) else a);
               set_a' = (if length parents_a = 1 then insert a' set_a else set_a);
               b' = (if length parents_b = 1 then snd (hd parents_b) else b);
               set_b' = (if length parents_b = 1 then insert b' set_b else set_b)
           in if length parents_a = 1 \<and> a' \<in> set_b' then Some (Ok a')
              else if length parents_b = 1 \<and> b' \<in> set_a' then Some (Ok b')
              else find_ancestor lib g a' b' set_a' set_b')"

declare find_ancestor.simps [code]

text \<open>One of the two \<open>while\<close> loops that pass a pipe down the path from the ancestor.\<close>

partial_function (option) pass_down :: "'g dag_library \<Rightarrow> 'g \<Rightarrow> nat \<Rightarrow> nat \<Rightarrow> nat \<Rightarrow> (nat, nat list) hashmap \<Rightarrow>
    (nat, nat list) hashmap outcome" where
  "pass_down lib g ancestor pipe_index a ops =
     (if a = ancestor then Some (Ok ops)
      else let parents_a = dag_parents lib g a
        in if length parents_a \<noteq> 1 then Some (Panic AssertFailed)
           else (case hm_get ops (fst (hd parents_a)) of
               None \<Rightarrow> Some (Panic UnwrapNone)
             | Some passed \<Rightarrow>
                 pass_down lib g ancestor pipe_index (snd (hd parents_a))
                   (hm_insert (fst (hd parents_a)) (passed @ [pipe_index]) ops)))"

declare pass_down.simps [code]

type_synonym write_op = "nat \<times> nat \<times> nat \<times> nat \<times> u8 list"

definition place_write :: "'g dag_library \<Rightarrow> 'r rng_library \<Rightarrow> 'g \<Rightarrow> 'g \<Rightarrow> nat \<Rightarrow> plan \<times> 'r \<times> write_op list \<Rightarrow>
    (plan \<times> 'r \<times> write_op list) outcome" where
  "place_write lib rnd spawn_dag write_dag e st = (case st of (p, rng, ops) \<Rightarrow>
     obind (unwrapped UnwrapNone (dag_edge_endpoints lib write_dag e)) (\<lambda>(writer, reader).
     obind (asserted (writer \<noteq> reader)) (\<lambda>_.
     let writer_pipe_index = e * 2 + 1; reader_pipe_index = e * 2
     in case gen_range rnd 1 1025 rng of (data_len, rng1) \<Rightarrow>
        case fill_bytes rnd data_len rng1 of (data, rng2) \<Rightarrow>
        obind (find_ancestor lib spawn_dag writer reader {writer} {reader}) (\<lambda>ancestor.
        obind (pass_down lib spawn_dag ancestor writer_pipe_index writer (pl_spawn_ops p)) (\<lambda>ops1.
        obind (pass_down lib spawn_dag ancestor reader_pipe_index reader ops1) (\<lambda>ops2.
        obind (unwrapped UnwrapNone (bt_get (pl_pipes_ops p) ancestor)) (\<lambda>created.
        returned (p\<lparr>pl_spawn_ops := ops2,
            pl_pipes_ops := bt_insert ancestor (created @ [(reader_pipe_index, writer_pipe_index)]) (pl_pipes_ops p)\<rparr>,
          rng2, ops @ [(writer, writer_pipe_index, reader, reader_pipe_index, data)]))))))))"

fun place_writes :: "'g dag_library \<Rightarrow> 'r rng_library \<Rightarrow> 'g \<Rightarrow> 'g \<Rightarrow> nat list \<Rightarrow> plan \<times> 'r \<times> write_op list \<Rightarrow>
    (plan \<times> 'r \<times> write_op list) outcome" where
  "place_writes lib rnd spawn_dag write_dag [] st = returned st"
| "place_writes lib rnd spawn_dag write_dag (e # es) st =
     obind (place_write lib rnd spawn_dag write_dag e st) (place_writes lib rnd spawn_dag write_dag es)"

section \<open>The result\<close>

type_synonym dataflow = "(nat \<times> nat \<times> nat list) list \<times> (nat \<times> nat \<times> nat) list \<times> write_op list"

fun spawn_list :: "'g dag_library \<Rightarrow> 'g \<Rightarrow> (nat, nat list) hashmap \<Rightarrow> nat list \<Rightarrow>
    (nat \<times> nat \<times> nat list) list outcome" where
  "spawn_list lib g ops [] = returned []"
| "spawn_list lib g ops (e # es) =
     obind (unwrapped UnwrapNone (dag_edge_endpoints lib g e)) (\<lambda>(parent, child).
     obind (unwrapped MissingKey (hm_get ops e)) (\<lambda>passed.
     obind (spawn_list lib g ops es) (\<lambda>rest. returned ((parent, child, passed) # rest))))"

definition pipe_list :: "(nat, (nat \<times> nat) list) btree \<Rightarrow> (nat \<times> nat \<times> nat) list" where
  "pipe_list ops = concat (map (\<lambda>(vm_index, pairs). map (\<lambda>(r, w). (vm_index, r, w)) pairs) ops)"

definition generate_dataflow :: "'g dag_library \<Rightarrow> 'r rng_library \<Rightarrow> u64 \<Rightarrow> u32 \<Rightarrow> u32 \<Rightarrow> u32 \<Rightarrow> dataflow outcome" where
  "generate_dataflow lib rnd seed spawns writes converging_threshold =
     obind (Some (dag_add_node lib (dag_new lib))) (\<lambda>(spawn_root, spawn_dag).
     obind (Some (dag_add_node lib (dag_new lib))) (\<lambda>(write_root, write_dag).
     obind (asserted (spawn_root = 0)) (\<lambda>_.
     obind (asserted (write_root = 0)) (\<lambda>_.
     obind (grow_tree lib rnd (unat spawns) \<lparr>gr_rng = rng_seed rnd seed, gr_spawn_dag = spawn_dag,
         gr_write_dag = write_dag, gr_spawn_nodes = [spawn_root], gr_write_nodes = [write_root]\<rparr>) (\<lambda>v.
     obind (if spawns > 0
         then add_writes lib rnd (gr_write_nodes v) (unat converging_threshold) (unat writes)
           (gr_write_dag v) (gr_rng v) []
         else returned ([], gr_write_dag v, gr_rng v)) (\<lambda>(write_edges, write_dag', rng).
     case walk_tree lib (gr_spawn_dag v) [spawn_root]
         \<lparr>pl_spawn_ops = [], pl_pipes_ops = [], pl_spawn_edges = []\<rparr> of
       None \<Rightarrow> None
     | Some p \<Rightarrow>
         obind (place_writes lib rnd (gr_spawn_dag v) write_dag' write_edges (p, rng, [])) (\<lambda>(p', _, ops).
         obind (spawn_list lib (gr_spawn_dag v) (pl_spawn_ops p') (pl_spawn_edges p')) (\<lambda>spawn_entries.
         returned (spawn_entries, pipe_list (pl_pipes_ops p'), ops)))))))))"

text \<open>\<open>u64::to_le_bytes\<close>.\<close>

definition to_le_bytes :: "u64 \<Rightarrow> u8 list" where
  "to_le_bytes x = map (\<lambda>i. ucast (drop_bit (8 * i) x)) [0, 1, 2, 3, 4, 5, 6, 7]"

definition build_vm_index :: "u64 \<Rightarrow> VmIndex" where
  "build_vm_index val = VmIndexBuilder_build (to_le_bytes val)"

definition build_pipe_index :: "u64 \<Rightarrow> PipeIndex" where
  "build_pipe_index val = PipeIndexBuilder_build (to_le_bytes val)"

fun dag_of_dataflow :: "dataflow \<Rightarrow> dag" where
  "dag_of_dataflow (ss, ps, ws) =
     (map (\<lambda>(parent, child, passed). (build_vm_index (of_nat parent), build_vm_index (of_nat child),
        map (\<lambda>p. build_pipe_index (of_nat p)) passed)) ss,
      map (\<lambda>(vm, r, w). (build_vm_index (of_nat vm), build_pipe_index (of_nat r), build_pipe_index (of_nat w))) ps,
      map (\<lambda>(w, wp, r, rp, data). (build_vm_index (of_nat w), build_pipe_index (of_nat wp),
        build_vm_index (of_nat r), build_pipe_index (of_nat rp), data)) ws)"

definition generate_data_graph :: "number_codec \<Rightarrow> 'g dag_library \<Rightarrow> 'r rng_library \<Rightarrow>
    u64 \<Rightarrow> u32 \<Rightarrow> u32 \<Rightarrow> u32 \<Rightarrow> Data outcome" where
  "generate_data_graph num lib rnd seed spawns writes converging_threshold =
     obind (generate_dataflow lib rnd seed spawns writes converging_threshold)
       (\<lambda>flow. returned (Data_encode num (dag_of_dataflow flow)))"

end
