(* ===== verification/Spawn_Tree.thy ===== *)
theory Spawn_Tree
  imports Dag_Generator
begin

text \<open>
  The random tree of the generator, abstractly: node 0 is the entry point, node \<open>i + 1\<close> has the parent
  \<open>ps ! i\<close>, an earlier node, and is reached by edge \<open>i\<close>. \<open>above ps n\<close> lists \<open>n\<close> and its ancestors,
  and the search for the lowest common ancestor and the two loops that pass a pipe down are proved
  against it.
\<close>

section \<open>Ancestors\<close>

definition is_tree :: "nat list \<Rightarrow> bool" where
  "is_tree ps \<longleftrightarrow> (\<forall>i < length ps. ps ! i \<le> i)"

function above :: "nat list \<Rightarrow> nat \<Rightarrow> nat list" where
  "above ps 0 = [0]"
| "above ps (Suc i) = Suc i # above ps (min (ps ! i) i)"
  by pat_completeness auto
termination by (relation "measure snd") auto

lemma above_Suc: "is_tree ps \<Longrightarrow> i < length ps \<Longrightarrow> above ps (Suc i) = Suc i # above ps (ps ! i)"
  by (simp add: is_tree_def min_absorb1)

declare above.simps(2) [simp del]

lemma above_self [simp, intro]: "n \<in> set (above ps n)"
  by (cases n) (simp_all add: above.simps)

lemma above_le: "m \<in> set (above ps n) \<Longrightarrow> m \<le> n"
  by (induction ps n rule: above.induct) (auto simp: above.simps)

lemma above_root [simp, intro]: "0 \<in> set (above ps n)"
  by (induction ps n rule: above.induct) (auto simp: above.simps)

lemma above_trans: "m \<in> set (above ps n) \<Longrightarrow> k \<in> set (above ps m) \<Longrightarrow> k \<in> set (above ps n)"
  by (induction ps n rule: above.induct) (auto simp: above.simps)

lemma above_linear: "m \<in> set (above ps n) \<Longrightarrow> k \<in> set (above ps n) \<Longrightarrow> k \<le> m \<Longrightarrow> k \<in> set (above ps m)"
proof (induction ps n rule: above.induct)
  case (2 ps i)
  then show ?case
    by (auto simp: above.simps dest: above_le)
qed auto

lemma above_step:
  assumes "is_tree ps" and "i < length ps" and "Suc i \<in> set (above ps n)"
  shows "ps ! i \<in> set (above ps n)"
  using above_trans [OF assms(3), of "ps ! i"] assms(1,2) by (simp add: above_Suc)

text \<open>Between a node and its parent there is nothing.\<close>

lemma above_gap:
  assumes "is_tree ps" and "i < length ps" and "Suc i \<in> set (above ps n)" and "m \<in> set (above ps n)"
  shows "m \<le> ps ! i \<or> Suc i \<le> m"
proof (rule ccontr)
  assume c: "\<not> (m \<le> ps ! i \<or> Suc i \<le> m)"
  then have "m \<in> set (above ps (Suc i))"
    using above_linear [OF assms(3,4)] by simp
  then show False
    using c assms(1,2) by (auto simp: above_Suc dest: above_le)
qed

text \<open>One step up, at the root none.\<close>

definition parent :: "nat list \<Rightarrow> nat \<Rightarrow> nat" where
  "parent ps n = (if n = 0 then 0 else ps ! (n - 1))"

lemma parent_root [simp]: "parent ps 0 = 0"
  by (simp add: parent_def)

lemma parent_less: "is_tree ps \<Longrightarrow> n \<le> length ps \<Longrightarrow> n \<noteq> 0 \<Longrightarrow> parent ps n < n"
  by (cases n) (auto simp: parent_def is_tree_def less_Suc_eq_le)

lemma parent_le: "is_tree ps \<Longrightarrow> n \<le> length ps \<Longrightarrow> parent ps n \<le> n"
  by (cases "n = 0") (auto dest: parent_less)

lemma above_parent: "is_tree ps \<Longrightarrow> n \<le> length ps \<Longrightarrow> n \<in> set (above ps m) \<Longrightarrow> parent ps n \<in> set (above ps m)"
  by (cases n) (auto simp: parent_def above_step)

lemma above_parent_gap:
  "is_tree ps \<Longrightarrow> n \<le> length ps \<Longrightarrow> n \<in> set (above ps m) \<Longrightarrow> k \<in> set (above ps m) \<Longrightarrow> k \<le> parent ps n \<or> n \<le> k"
  using above_gap [of ps "n - 1" m k] by (cases n) (auto simp: parent_def)

lemma above_from_parent:
  assumes "is_tree ps" and "n \<le> length ps" and "n \<in> set (above ps m)"
  shows "insert (parent ps n) {x \<in> set (above ps m). n \<le> x} = {x \<in> set (above ps m). parent ps n \<le> x}"
proof (intro set_eqI iffI)
  fix x assume "x \<in> insert (parent ps n) {x \<in> set (above ps m). n \<le> x}"
  then show "x \<in> {x \<in> set (above ps m). parent ps n \<le> x}"
    using above_parent [OF assms] parent_le [OF assms(1,2)] by auto
next
  fix x assume "x \<in> {x \<in> set (above ps m). parent ps n \<le> x}"
  then show "x \<in> insert (parent ps n) {x \<in> set (above ps m). n \<le> x}"
    using above_parent_gap [OF assms, of x] by auto
qed

section \<open>A graph that is a tree\<close>

definition tree_shape :: "nat list \<Rightarrow> nat \<Rightarrow> (nat \<times> nat) list \<Rightarrow> bool" where
  "tree_shape ps n es \<longleftrightarrow> is_tree ps \<and> n = Suc (length ps) \<and> es = map (\<lambda>i. (ps ! i, Suc i)) [0..<length ps]"

context dag_laws
begin

lemma tree_graph_parents:
  assumes "tree_shape ps (nodes g) (edges g)"
  shows "dag_parents lib g 0 = []"
    and "i < length ps \<Longrightarrow> dag_parents lib g (Suc i) = [(i, ps ! i)]"
  using assms by (auto simp: tree_shape_def intro!: no_parents one_parent)

lemma tree_graph_children:
  assumes "tree_shape ps (nodes g) (edges g)"
  shows "(e, c) \<in> set (dag_children lib g n) \<longleftrightarrow> e < length ps \<and> c = Suc e \<and> ps ! e = n"
  using assms by (auto simp: tree_shape_def children)

section \<open>The lowest common ancestor\<close>

lemma tree_graph_parent:
  "tree_shape ps (nodes g) (edges g) \<Longrightarrow> n \<le> length ps \<Longrightarrow> dag_parents lib g n = (if n = 0 then [] else [(n - 1, parent ps n)])"
  by (cases n) (auto simp: parent_def tree_graph_parents)

lemma find_ancestor_step:
  assumes g: "tree_shape ps (nodes g) (edges g)" and a: "a \<le> length ps" and b: "b \<le> length ps" and "a \<noteq> 0 \<or> b \<noteq> 0"
    and sa: "a \<in> set_a" and sb: "b \<in> set_b"
  shows "find_ancestor lib g a b set_a set_b =
     (let a' = parent ps a; b' = parent ps b; set_a' = insert a' set_a; set_b' = insert b' set_b
      in if a \<noteq> 0 \<and> a' \<in> set_b' then Some (Ok a')
         else if b \<noteq> 0 \<and> b' \<in> set_a' then Some (Ok b')
         else find_ancestor lib g a' b' set_a' set_b')"
proof -
  have here: "insert a set_a = set_a" "insert b set_b = set_b"
    using sa sb by (simp_all add: insert_absorb)
  note unfolded = find_ancestor.simps [of lib g a b set_a set_b]
  show ?thesis
  proof (cases "a = 0")
    case True
    then have "b \<noteq> 0" using assms(4) by simp
    then show ?thesis
      using True here sa tree_graph_parent [OF g a] tree_graph_parent [OF g b] unfolded by (simp add: Let_def)
  next
    case a0: False
    show ?thesis
    proof (cases "b = 0")
      case True
      then show ?thesis
        using a0 here sb tree_graph_parent [OF g a] tree_graph_parent [OF g b] unfolded by (simp add: Let_def)
    next
      case False
      then show ?thesis
        using a0 tree_graph_parent [OF g a] tree_graph_parent [OF g b] unfolded by (simp add: Let_def)
    qed
  qed
qed

text \<open>
  The search keeps the parts of the two paths it has climbed disjoint; the common ancestors are below
  it on at most one side, so the first one met is the lowest.
\<close>

lemma find_ancestor_from:
  assumes g: "tree_shape ps (nodes g) (edges g)" and w: "w \<le> length ps" and r: "r \<le> length ps"
  shows "a \<in> set (above ps w) \<Longrightarrow> b \<in> set (above ps r) \<Longrightarrow>
    set_a = {x \<in> set (above ps w). a \<le> x} \<Longrightarrow> set_b = {x \<in> set (above ps r). b \<le> x} \<Longrightarrow> set_a \<inter> set_b = {} \<Longrightarrow>
    \<exists>x. find_ancestor lib g a b set_a set_b = Some (Ok x) \<and> x \<in> set (above ps w) \<inter> set (above ps r) \<and>
        (\<forall>y \<in> set (above ps w) \<inter> set (above ps r). y \<le> x)"
proof (induction "a + b" arbitrary: a b set_a set_b rule: less_induct)
  case less
  have t: "is_tree ps" using g by (simp add: tree_shape_def)
  have a: "a \<le> length ps" and b: "b \<le> length ps"
    using less.prems(1,2) w r by (auto dest: above_le)
  have nz: "a \<noteq> 0 \<or> b \<noteq> 0"
    using less.prems by auto
  let ?a = "parent ps a" and ?b = "parent ps b"
  note in_a = above_parent [OF t a less.prems(1)] and in_b = above_parent [OF t b less.prems(2)]
  have sa: "insert ?a set_a = {x \<in> set (above ps w). ?a \<le> x}"
    unfolding less.prems(3) by (rule above_from_parent [OF t a less.prems(1)])
  have sb: "insert ?b set_b = {x \<in> set (above ps r). ?b \<le> x}"
    unfolding less.prems(4) by (rule above_from_parent [OF t b less.prems(2)])
  have below: "y \<le> ?a \<or> y \<le> ?b" if "y \<in> set (above ps w) \<inter> set (above ps r)" for y
    using above_parent_gap [OF t a less.prems(1), of y] above_parent_gap [OF t b less.prems(2), of y]
      that less.prems(3,4,5) by auto
  have step: "find_ancestor lib g a b set_a set_b =
     (if a \<noteq> 0 \<and> ?a \<in> insert ?b set_b then Some (Ok ?a)
      else if b \<noteq> 0 \<and> ?b \<in> insert ?a set_a then Some (Ok ?b)
      else find_ancestor lib g ?a ?b (insert ?a set_a) (insert ?b set_b))"
    using find_ancestor_step [OF g a b nz] less.prems(1-4) by (simp add: Let_def)
  show ?case
  proof (cases "?a \<in> insert ?b set_b \<or> ?b \<in> insert ?a set_a")
    case False
    moreover have "?a + ?b < a + b"
      using nz parent_less [OF t a] parent_less [OF t b] parent_le [OF t a] parent_le [OF t b] by fastforce
    moreover have "insert ?a set_a \<inter> insert ?b set_b = {}"
      using False less.prems(5) by auto
    ultimately show ?thesis
      using less.hyps [OF _ in_a in_b sa sb] step by simp
  next
    case True
    have "?a \<in> insert ?b set_b \<Longrightarrow> a = 0 \<Longrightarrow> ?b \<in> insert ?a set_a"
      using less.prems by auto
    moreover have "?b \<in> insert ?a set_a \<Longrightarrow> b = 0 \<Longrightarrow> ?a \<in> insert ?b set_b"
      using less.prems by auto
    ultimately consider "a \<noteq> 0" "?a \<in> insert ?b set_b" | "\<not> (a \<noteq> 0 \<and> ?a \<in> insert ?b set_b)" "b \<noteq> 0" "?b \<in> insert ?a set_a"
      using True nz by metis
    then show ?thesis
    proof cases
      case 1
      then have "\<forall>y \<in> set (above ps w) \<inter> set (above ps r). y \<le> ?a"
        using below unfolding sb by (metis (no_types, lifting) le_trans mem_Collect_eq)
      then show ?thesis
        using 1 step in_a unfolding sb by auto
    next
      case 2
      then have "\<forall>y \<in> set (above ps w) \<inter> set (above ps r). y \<le> ?b"
        using below unfolding sa by (metis (no_types, lifting) le_trans mem_Collect_eq)
      then show ?thesis
        using 2 step in_b unfolding sa sb by auto
    qed
  qed
qed

section \<open>Passing a pipe down\<close>

lemma pass_down_adds:
  assumes g: "tree_shape ps (nodes g) (edges g)"
  shows "a \<le> length ps \<Longrightarrow> anc \<in> set (above ps a) \<Longrightarrow> \<forall>e < length ps. hm_get ops e \<noteq> None \<Longrightarrow>
    \<exists>ops'. pass_down lib g anc p a ops = Some (Ok ops') \<and>
      (\<forall>e. hm_get ops' e = (if e < length ps \<and> Suc e \<in> set (above ps a) \<and> anc \<le> e
         then map_option (\<lambda>l. l @ [p]) (hm_get ops e) else hm_get ops e))"
proof (induction a arbitrary: ops rule: less_induct)
  case (less a)
  have t: "is_tree ps" using g by (simp add: tree_shape_def)
  show ?case
  proof (cases "a = anc")
    case True
    then show ?thesis
      by (subst pass_down.simps) (auto dest: above_le)
  next
    case False
    then obtain i where i: "a = Suc i"
      using less.prems(2) by (cases a) auto
    then have il: "i < length ps" and up: "above ps a = Suc i # above ps (ps ! i)"
      using less.prems(1) above_Suc [OF t] by auto
    have anc: "anc \<in> set (above ps (ps ! i))" and pi: "ps ! i \<le> i"
      using less.prems(2) up False i t il by (auto simp: is_tree_def)
    obtain l where l: "hm_get ops i = Some l"
      using less.prems(3) il by auto
    let ?ops = "hm_insert i (l @ [p]) ops"
    have entries: "\<forall>e < length ps. hm_get ?ops e \<noteq> None"
      using less.prems(3) by (simp add: hash.lookup_upd)
    have lt: "ps ! i < a" and le: "ps ! i \<le> length ps"
      using i pi il by simp_all
    have "pass_down lib g anc p a ops = pass_down lib g anc p (ps ! i) ?ops"
      using False i l tree_graph_parents(2) [OF g il] by (subst pass_down.simps) simp
    moreover obtain ops' where "pass_down lib g anc p (ps ! i) ?ops = Some (Ok ops')"
      and ops': "\<forall>e. hm_get ops' e = (if e < length ps \<and> Suc e \<in> set (above ps (ps ! i)) \<and> anc \<le> e
         then map_option (\<lambda>l. l @ [p]) (hm_get ?ops e) else hm_get ?ops e)"
      using less.IH [OF lt le anc entries] by blast
    moreover have "Suc i \<notin> set (above ps (ps ! i))" and "anc \<le> i"
      using pi anc by (auto dest: above_le)
    ultimately show ?thesis
      using il l by (auto simp: up hash.lookup_upd intro!: exI [of _ ops'])
  qed
qed

end

end
