(* ===== verification/Generator_Correct.thy ===== *)
theory Generator_Correct
  imports Spawn_Tree
begin

text \<open>
  The loops of the generator, one after the other: the tree grows (\<open>grown\<close>), the write edges stay
  acyclic (\<open>writes_ok\<close>), the walk reaches every node, parents first (\<open>walked\<close>), and every write edge
  adds its pipe at the ancestor and on both ways down (\<open>placed\<close>). None of them panics or goes on for
  ever, and together they make a dataflow described by \<open>made_from\<close>.
\<close>

section \<open>The walk over the tree\<close>

text \<open>The spawns come in an order in which the parent has been spawned before.\<close>

definition parents_first :: "nat list \<Rightarrow> nat list \<Rightarrow> bool" where
  "parents_first ps es \<longleftrightarrow> (\<forall>k < length es. ps ! (es ! k) \<in> insert 0 (Suc ` set (take k es)))"

lemma parents_first_append:
  assumes "parents_first ps es" and "\<forall>e \<in> set fs. ps ! e \<in> insert 0 (Suc ` set es)"
  shows "parents_first ps (es @ fs)"
  unfolding parents_first_def
proof (intro allI impI)
  fix k assume k: "k < length (es @ fs)"
  show "ps ! ((es @ fs) ! k) \<in> insert 0 (Suc ` set (take k (es @ fs)))"
  proof (cases "k < length es")
    case True
    then show ?thesis
      using assms(1) by (simp add: parents_first_def nth_append)
  next
    case False
    then have "fs ! (k - length es) \<in> set fs"
      using k by (intro nth_mem) simp
    then show ?thesis
      using False assms(2) by (auto simp: nth_append)
  qed
qed

text \<open>\<open>D\<close> are the nodes visited, \<open>Q\<close> those still in the queue.\<close>

definition walked :: "nat list \<Rightarrow> nat list \<Rightarrow> nat list \<Rightarrow> plan \<Rightarrow> bool" where
  "walked ps D Q p \<longleftrightarrow>
     D @ Q = 0 # map Suc (pl_spawn_edges p) \<and> distinct (pl_spawn_edges p) \<and>
     set (pl_spawn_edges p) = {e. e < length ps \<and> ps ! e \<in> set D} \<and>
     parents_first ps (pl_spawn_edges p) \<and> bt_wf (pl_pipes_ops p) \<and>
     (\<forall>e. hm_get (pl_spawn_ops p) e = (if e \<in> set (pl_spawn_edges p) then Some [] else None)) \<and>
     (\<forall>n. bt_get (pl_pipes_ops p) n = (if n \<in> set D then Some [] else None))"

lemma insert_all_empty:
  "hm_get (fold (\<lambda>(e, _). hm_insert e []) xs m) e = (if e \<in> fst ` set xs then Some [] else hm_get m e)"
  by (induction xs arbitrary: m) (auto simp: hash.lookup_upd)

context dag_laws
begin

lemma visited_children:
  assumes g: "tree_shape ps (nodes g) (edges g)"
  shows "map snd (rev (dag_children lib g n)) = map Suc (map fst (rev (dag_children lib g n)))"
    and "set (map fst (rev (dag_children lib g n))) = {e. e < length ps \<and> ps ! e = n}"
    and "distinct (map fst (rev (dag_children lib g n)))"
proof -
  have child: "snd x = Suc (fst x) \<and> fst x < length ps \<and> ps ! fst x = n" if "x \<in> set (dag_children lib g n)" for x
    using that tree_graph_children [OF g] by (cases x rule: prod.exhaust) simp
  show "map snd (rev (dag_children lib g n)) = map Suc (map fst (rev (dag_children lib g n)))"
    using child by simp
  have "(e, Suc e) \<in> set (dag_children lib g n)" if "e < length ps" "ps ! e = n" for e
    using that tree_graph_children [OF g] by simp
  then show "set (map fst (rev (dag_children lib g n))) = {e. e < length ps \<and> ps ! e = n}"
    using child by (auto simp: image_iff) (metis fst_conv)
  have "inj_on fst (set (dag_children lib g n))"
    using child by (metis inj_onI prod_eqI)
  then show "distinct (map fst (rev (dag_children lib g n)))"
    using distinct_children by (simp add: distinct_map)
qed

lemma walked_step:
  assumes g: "tree_shape ps (nodes g) (edges g)" and w: "walked ps D (n # Q) p"
  shows "walked ps (D @ [n]) (Q @ map snd (rev (dag_children lib g n))) (visit_node lib g n p)"
proof -
  let ?es = "pl_spawn_edges p" and ?cs = "rev (dag_children lib g n)"
  have seq: "D @ n # Q = 0 # map Suc ?es" and d0: "distinct ?es"
    and es: "set ?es = {e. e < length ps \<and> ps ! e \<in> set D}" and pf: "parents_first ps ?es"
    and ops: "\<And>e. hm_get (pl_spawn_ops p) e = (if e \<in> set ?es then Some [] else None)"
    and pipes: "\<And>n. bt_get (pl_pipes_ops p) n = (if n \<in> set D then Some [] else None)"
    and wf: "bt_wf (pl_pipes_ops p)"
    using w unfolding walked_def by blast+
  have d: "distinct (D @ n # Q)"
    unfolding seq using d0 by (simp add: distinct_map)
  note kids = visited_children [OF g, of n]
  have seq': "(D @ [n]) @ Q @ map snd ?cs = 0 # map Suc (?es @ map fst ?cs)"
    unfolding kids(1) using seq by simp
  have new: "set ?es \<inter> set (map fst ?cs) = {}"
    unfolding es kids(2) using d by auto
  have d': "distinct (?es @ map fst ?cs)"
    using new kids(3) d0 by simp
  have "n \<in> insert 0 (Suc ` set ?es)"
    using seq by (metis in_set_conv_decomp list.set_map list.simps(15))
  then have pf': "parents_first ps (?es @ map fst ?cs)"
    using pf kids(2) by (intro parents_first_append) auto
  have "set (?es @ map fst ?cs) = {e. e < length ps \<and> ps ! e \<in> set (D @ [n])}"
    unfolding set_append es kids(2) by auto
  then show ?thesis
    using seq' d' pf' wf unfolding walked_def visit_node_def
    by (auto simp: Let_def insert_all_empty btree.lookup_upd btree.inv_upd ops pipes)
qed

lemma walk_tree_returns:
  assumes g: "tree_shape ps (nodes g) (edges g)"
  shows "walked ps D Q p \<Longrightarrow> \<exists>D' p'. walk_tree lib g Q p = Some p' \<and> walked ps D' [] p'"
proof (induction "Suc (length ps) - length D" arbitrary: D Q p rule: less_induct)
  case less
  show ?case
  proof (cases Q)
    case Nil
    then show ?thesis
      using less.prems by (subst walk_tree.simps) auto
  next
    case (Cons n Q')
    have w: "walked ps (D @ [n]) (Q' @ map snd (rev (dag_children lib g n))) (visit_node lib g n p)"
      using walked_step [OF g] less.prems Cons by simp
    have "set (pl_spawn_edges p) \<subseteq> {..<length ps}" and "distinct (pl_spawn_edges p)"
      and "length (D @ Q) = Suc (length (pl_spawn_edges p))"
    proof -
      show "set (pl_spawn_edges p) \<subseteq> {..<length ps}" "distinct (pl_spawn_edges p)"
        using less.prems unfolding walked_def by auto
      have "D @ Q = 0 # map Suc (pl_spawn_edges p)"
        using less.prems unfolding walked_def by blast
      from arg_cong [OF this, of length] show "length (D @ Q) = Suc (length (pl_spawn_edges p))" by simp
    qed
    then have "length D < Suc (length ps)"
      using Cons card_mono [of "{..<length ps}" "set (pl_spawn_edges p)"] by (simp add: distinct_card)
    then have "Suc (length ps) - length (D @ [n]) < Suc (length ps) - length D"
      by simp
    then obtain D' p' where "walk_tree lib g (Q' @ map snd (rev (dag_children lib g n))) (visit_node lib g n p) = Some p'"
      and "walked ps D' [] p'"
      using less.hyps [OF _ w] by blast
    then show ?thesis
      using Cons by (subst walk_tree.simps) auto
  qed
qed

end

lemma walked_all:
  assumes t: "is_tree ps" and w: "walked ps D [] p"
  shows "set (pl_spawn_edges p) = {..<length ps}" and "set D = {..length ps}"
proof -
  have D: "D = 0 # map Suc (pl_spawn_edges p)"
    and es: "set (pl_spawn_edges p) = {e. e < length ps \<and> ps ! e \<in> set D}"
    using w unfolding walked_def append_Nil2 by blast+
  have all: "n \<le> length ps \<Longrightarrow> n \<in> set D" for n
  proof (induction n rule: less_induct)
    case (less n)
    show ?case
    proof (cases n)
      case 0
      then show ?thesis using D by simp
    next
      case (Suc i)
      then have "ps ! i \<in> set D"
        using t less by (auto simp: is_tree_def less_Suc_eq_le)
      then have "i \<in> set (pl_spawn_edges p)"
        using es Suc less.prems by auto
      then show ?thesis
        using D Suc by simp
    qed
  qed
  have "ps ! e \<in> set D" if "e < length ps" for e
    using that t all [of "ps ! e"] by (auto simp: is_tree_def)
  then show edges: "set (pl_spawn_edges p) = {..<length ps}"
    unfolding es by auto
  show "set D = {..length ps}"
    unfolding D by (simp add: edges lessThan_Suc_eq_insert_0 [symmetric] lessThan_Suc_atMost)
qed

section \<open>The tree grows\<close>

lemma obind_simps [simp]:
  "obind (Some (Ok a)) f = f a" "obind (returned a) f = f a"
  by (simp_all add: obind_def returned_def)

lemma asserted_True [simp]: "asserted True = returned ()"
  by (simp add: asserted_def returned_def)

lemma unwrapped_Some [simp]: "unwrapped k (Some a) = returned a"
  by (simp add: unwrapped_def returned_def)

lemma pick_node_upt [simp]: "i < n \<Longrightarrow> pick_node [0..<n] i = returned i"
  by (simp add: pick_node_def)

lemma range_draw: "rng_contract rnd \<Longrightarrow> lo < hi \<Longrightarrow> gen_range rnd lo hi r = (i, r') \<Longrightarrow> lo \<le> i \<and> i < hi"
  unfolding rng_contract_def by (metis fst_conv)

lemma is_tree_snoc: "is_tree ps \<Longrightarrow> p \<le> length ps \<Longrightarrow> is_tree (ps @ [p])"
  by (auto simp: is_tree_def nth_append less_Suc_eq)

context dag_laws
begin

definition grown :: "nat list \<Rightarrow> ('g, 'r) graphs \<Rightarrow> bool" where
  "grown ps v \<longleftrightarrow> tree_shape ps (nodes (gr_spawn_dag v)) (edges (gr_spawn_dag v)) \<and>
     nodes (gr_write_dag v) = Suc (length ps) \<and> edges (gr_write_dag v) = [] \<and>
     gr_spawn_nodes v = [0..<Suc (length ps)] \<and> gr_write_nodes v = [0..<Suc (length ps)]"

lemma grow_tree_grown:
  assumes rnd: "rng_contract rnd"
  shows "grown ps v \<Longrightarrow> length ps + n < index_end \<Longrightarrow>
    \<exists>ps' v'. grow_tree lib rnd n v = Some (Ok v') \<and> grown ps' v' \<and> length ps' = length ps + n"
proof (induction n arbitrary: ps v)
  case 0
  then show ?case by (auto simp: returned_def)
next
  case (Suc n)
  let ?N = "Suc (length ps)"
  have v: "is_tree ps" "nodes (gr_spawn_dag v) = ?N" "edges (gr_spawn_dag v) = map (\<lambda>i. (ps ! i, Suc i)) [0..<length ps]"
    "nodes (gr_write_dag v) = ?N" "edges (gr_write_dag v) = []"
    "gr_spawn_nodes v = [0..<?N]" "gr_write_nodes v = [0..<?N]"
    using Suc.prems(1) by (simp_all add: grown_def tree_shape_def del: upt_Suc)
  obtain wd where wd: "dag_add_node lib (gr_write_dag v) = Ok (?N, wd)" "nodes wd = Suc ?N" "edges wd = []"
    using add_node [of "gr_write_dag v"] v Suc.prems(2) by auto
  obtain i r where i: "gen_range rnd 0 ?N (gr_rng v) = (i, r)" by (cases "gen_range rnd 0 ?N (gr_rng v)")
  then have il: "i < ?N" using range_draw [OF rnd _ i] by simp
  obtain sd where sd: "dag_add_child lib (gr_spawn_dag v) i = Ok ((length ps, ?N), sd)" "nodes sd = Suc ?N"
      "edges sd = map (\<lambda>i. (ps ! i, Suc i)) [0..<length ps] @ [(i, ?N)]"
    using add_child [of "gr_spawn_dag v" i] v il Suc.prems(2) by auto
  let ?v = "\<lparr>gr_rng = r, gr_spawn_dag = sd, gr_write_dag = wd,
       gr_spawn_nodes = [0..<?N] @ [?N], gr_write_nodes = [0..<?N] @ [?N]\<rparr>"
  have "map (\<lambda>j. ((ps @ [i]) ! j, Suc j)) [0..<length ps] = map (\<lambda>j. (ps ! j, Suc j)) [0..<length ps]"
    by (auto simp: nth_append)
  then have "grown (ps @ [i]) ?v"
    using v(1) il wd sd is_tree_snoc [OF v(1), of i] by (simp add: grown_def tree_shape_def)
  moreover have "grow_tree lib rnd (Suc n) v = grow_tree lib rnd n ?v"
    using i il by (simp add: v wd sd del: upt_Suc)
  ultimately show ?case
    using Suc.IH [of "ps @ [i]" ?v] Suc.prems(2) by (simp add: add.commute add.left_commute)
qed

end

section \<open>The edges between writers and readers\<close>

lemma other_index_returns:
  assumes rnd: "rng_contract rnd" and n: "2 \<le> n" and i: "i < n"
  obtains j r' where "other_index rnd n k i r = Some (j, r')" and "j \<noteq> k" and "j < n"
proof -
  let ?step = "\<lambda>r. snd (gen_range rnd 0 n r)"
  have "i < n \<Longrightarrow> fst (gen_range rnd 0 n ((?step ^^ m) r)) \<noteq> k \<Longrightarrow>
      \<exists>j r'. other_index rnd n k i r = Some (j, r') \<and> j \<noteq> k \<and> j < n" for m
  proof (induction m arbitrary: i r)
    case 0
    then show ?case
      using range_draw [OF rnd, of 0 n r "fst (gen_range rnd 0 n r)" "snd (gen_range rnd 0 n r)"]
      by (subst other_index.simps, subst other_index.simps)
        (auto intro!: exI [of _ "fst (gen_range rnd 0 n r)"] exI [of _ "snd (gen_range rnd 0 n r)"])
  next
    case (Suc m)
    let ?i = "fst (gen_range rnd 0 n r)"
    have "?i < n"
      using range_draw [OF rnd, of 0 n r ?i "?step r"] Suc.prems(1) by simp
    then show ?case
      using Suc.IH [of ?i "?step r"] Suc.prems(1) Suc.prems(2) [unfolded funpow_Suc_right o_apply]
      by (subst other_index.simps) auto
  qed
  moreover obtain m where "fst (gen_range rnd 0 n ((?step ^^ m) r)) \<noteq> k"
    using other_draw [OF rnd n] by metis
  ultimately show thesis
    using that i by blast
qed

definition writes_ok :: "nat \<Rightarrow> (nat \<times> nat) list \<Rightarrow> bool" where
  "writes_ok n W \<longleftrightarrow> acyclic (set W) \<and> (\<forall>(w, r) \<in> set W. w < n \<and> r < n)"

lemma writes_ok_snoc:
  "writes_ok n W \<Longrightarrow> a < n \<Longrightarrow> b < n \<Longrightarrow> (b, a) \<notin> (set W)\<^sup>* \<Longrightarrow> writes_ok n (W @ [(a, b)])"
  by (simp add: writes_ok_def acyclic_insert)

context dag_laws
begin

lemma try_edge_returns:
  assumes rnd: "rng_contract rnd" and n: "2 \<le> n"
  shows "nodes g = n \<Longrightarrow> writes_ok n (edges g) \<Longrightarrow> length (edges g) < index_end \<Longrightarrow>
    \<exists>added g' r'. try_edge lib rnd [0..<n] m g r = Some (Ok (added, g', r')) \<and>
      (added = None \<and> g' = g \<or> added = Some (length (edges g)) \<and> nodes g' = n \<and> writes_ok n (edges g') \<and>
         length (edges g') = Suc (length (edges g)))"
proof (induction m arbitrary: r)
  case 0
  then show ?case by (simp add: returned_def)
next
  case (Suc m)
  obtain i r1 where i: "gen_range rnd 0 n r = (i, r1)" by (cases "gen_range rnd 0 n r")
  then have il: "i < n" using range_draw [OF rnd _ i] n by simp
  obtain j r2 where j: "other_index rnd n i i r1 = Some (j, r2)" and jl: "j < n"
    using other_index_returns [OF rnd n il] by blast
  show ?case
  proof (cases "(j, i) \<in> (set (edges g))\<^sup>*")
    case True
    then have "try_edge lib rnd [0..<n] (Suc m) g r = try_edge lib rnd [0..<n] m g r2"
      using add_edge_cycle [of g i j] Suc.prems il jl by (simp add: i j)
    then show ?thesis
      using Suc.IH Suc.prems by metis
  next
    case False
    then obtain g' where "dag_add_edge lib g i j = Ok (Some (length (edges g), g'))" "nodes g' = nodes g"
        "edges g' = edges g @ [(i, j)]"
      using add_edge [of g i j] Suc.prems il jl by auto
    then show ?thesis
      using False Suc.prems il jl writes_ok_snoc [of n "edges g" i j] by (simp add: i j returned_def)
  qed
qed

lemma add_writes_returns:
  assumes rnd: "rng_contract rnd" and n: "2 \<le> n"
  shows "nodes g = n \<Longrightarrow> writes_ok n (edges g) \<Longrightarrow> length (edges g) + m \<le> index_end \<Longrightarrow> es = [0..<length (edges g)] \<Longrightarrow>
    \<exists>g' r'. add_writes lib rnd [0..<n] threshold m g r es = Some (Ok ([0..<length (edges g')], g', r')) \<and>
      nodes g' = n \<and> writes_ok n (edges g') \<and> length (edges g') \<le> length (edges g) + m"
proof (induction m arbitrary: g r es)
  case 0
  then show ?case by (auto simp: returned_def)
next
  case (Suc m)
  obtain added g' r' where step: "try_edge lib rnd [0..<n] threshold g r = Some (Ok (added, g', r'))"
      "added = None \<and> g' = g \<or> added = Some (length (edges g)) \<and> nodes g' = n \<and> writes_ok n (edges g') \<and>
         length (edges g') = Suc (length (edges g))"
    using try_edge_returns [OF rnd n, of g threshold r] Suc.prems by auto
  show ?case
  proof (cases added)
    case None
    then show ?thesis
      using step Suc.prems by (auto simp: returned_def)
  next
    case (Some e)
    then have g': "e = length (edges g)" "nodes g' = n" "writes_ok n (edges g')" "length (edges g') = Suc (length (edges g))"
      using step(2) by auto
    then have "es @ [e] = [0..<length (edges g')]"
      using Suc.prems(4) by simp
    from Suc.IH [OF g'(2,3) _ this, of r'] show ?thesis
      using step(1) Some g'(4) Suc.prems(3) by auto
  qed
qed

end

section \<open>Pipes and writes\<close>

text \<open>
  Write edge \<open>e\<close> owns the pipe ends \<open>2 e\<close> (read) and \<open>2 e + 1\<close> (written): who uses an end, who creates
  the pair, and which ends the spawn along tree edge \<open>e\<close> carries.
\<close>

definition user :: "(nat \<times> nat) list \<Rightarrow> nat \<Rightarrow> nat" where
  "user W q = (if odd q then fst (W ! (q div 2)) else snd (W ! (q div 2)))"

definition common :: "nat list \<Rightarrow> nat \<Rightarrow> nat \<Rightarrow> nat" where
  "common ps w r = Max (set (above ps w) \<inter> set (above ps r))"

definition creator :: "nat list \<Rightarrow> (nat \<times> nat) list \<Rightarrow> nat \<Rightarrow> nat" where
  "creator ps W e = common ps (fst (W ! e)) (snd (W ! e))"

definition carried :: "nat list \<Rightarrow> (nat \<times> nat) list \<Rightarrow> nat list \<Rightarrow> nat \<Rightarrow> nat set" where
  "carried ps W es e = {q. q div 2 \<in> set es \<and> Suc e \<in> set (above ps (user W q)) \<and> creator ps W (q div 2) \<le> e}"

lemma common_eqI:
  "x \<in> set (above ps w) \<inter> set (above ps r) \<Longrightarrow> \<forall>y \<in> set (above ps w) \<inter> set (above ps r). y \<le> x \<Longrightarrow> common ps w r = x"
  unfolding common_def by (rule Max_eqI) auto

lemma common_in: "common ps w r \<in> set (above ps w) \<inter> set (above ps r)"
  unfolding common_def using above_root by (intro Max_in) auto

lemma creator_above: "creator ps W (q div 2) \<in> set (above ps (user W q))"
  using common_in [of ps "fst (W ! (q div 2))" "snd (W ! (q div 2))"] by (simp add: creator_def user_def)

lemma carried_snoc:
  "carried ps W (es @ [e]) k = carried ps W es k \<union>
     (if Suc k \<in> set (above ps (fst (W ! e))) \<and> creator ps W e \<le> k then {e * 2 + 1} else {}) \<union>
     (if Suc k \<in> set (above ps (snd (W ! e))) \<and> creator ps W e \<le> k then {e * 2} else {})"
proof -
  have half: "q div 2 = e \<longleftrightarrow> q = e * 2 + 1 \<or> q = e * 2" for q by presburger
  show ?thesis
    unfolding carried_def by (auto simp: half user_def)
qed

lemma fresh_pipe: "e \<notin> set es \<Longrightarrow> e * 2 + 1 \<notin> carried ps W es k \<and> e * 2 \<notin> carried ps W es k"
  by (simp add: carried_def)

definition placed :: "nat list \<Rightarrow> (nat \<times> nat) list \<Rightarrow> nat list \<Rightarrow> plan \<Rightarrow> write_op list \<Rightarrow> bool" where
  "placed ps W es p ops \<longleftrightarrow>
     (\<forall>k < length ps. \<exists>l. hm_get (pl_spawn_ops p) k = Some l \<and> distinct l \<and> set l = carried ps W es k) \<and>
     (\<forall>n. bt_get (pl_pipes_ops p) n =
        (if n \<le> length ps then Some (map (\<lambda>e. (e * 2, e * 2 + 1)) (filter (\<lambda>e. creator ps W e = n) es)) else None)) \<and>
     bt_wf (pl_pipes_ops p) \<and>
     list_all2 (\<lambda>e (w, wend, r, rend, d). (w, r) = W ! e \<and> wend = e * 2 + 1 \<and> rend = e * 2 \<and> 1 \<le> length d \<and> length d \<le> 1024) es ops"

context dag_laws
begin

lemma find_ancestor_common:
  assumes "tree_shape ps (nodes g) (edges g)" and "w \<le> length ps" and "r \<le> length ps" and "w \<noteq> r"
  shows "find_ancestor lib g w r {w} {r} = Some (Ok (common ps w r))"
proof -
  have "{w} = {x \<in> set (above ps w). w \<le> x}" and "{r} = {x \<in> set (above ps r). r \<le> x}"
    by (auto dest: above_le)
  then show ?thesis
    using find_ancestor_from [OF assms(1-3), of w r "{w}" "{r}"] assms(4) common_eqI by fastforce
qed

lemma drawn_data:
  assumes "rng_contract rnd" and "gen_range rnd 1 1025 r = (n, r1)" and "fill_bytes rnd n r1 = (d, r2)"
  shows "1 \<le> length d \<and> length d \<le> 1024"
proof -
  have "length d = n"
    using assms(1,3) unfolding rng_contract_def by (metis fst_conv)
  then show ?thesis
    using range_draw [OF assms(1) _ assms(2)] by simp
qed

text \<open>Both loops, for the edge from \<open>w\<close> to \<open>x\<close>.\<close>

lemma pass_both_down:
  assumes g: "tree_shape ps (nodes g) (edges g)" and We: "W ! e = (w, x)" and le: "w \<le> length ps" "x \<le> length ps"
    and e: "e \<notin> set es" and ops: "\<forall>k < length ps. \<exists>l. hm_get ops k = Some l \<and> distinct l \<and> set l = carried ps W es k"
  shows "\<exists>ops1 ops2. pass_down lib g (creator ps W e) (e * 2 + 1) w ops = Some (Ok ops1) \<and>
    pass_down lib g (creator ps W e) (e * 2) x ops1 = Some (Ok ops2) \<and>
    (\<forall>k < length ps. \<exists>l. hm_get ops2 k = Some l \<and> distinct l \<and> set l = carried ps W (es @ [e]) k)"
proof -
  let ?anc = "creator ps W e"
  have in_w: "?anc \<in> set (above ps w)" and in_x: "?anc \<in> set (above ps x)"
    using common_in [of ps w x] by (simp_all add: creator_def We)
  have "\<forall>k < length ps. hm_get ops k \<noteq> None"
    using ops by (metis option.distinct(1))
  then obtain ops1 where ops1: "pass_down lib g ?anc (e * 2 + 1) w ops = Some (Ok ops1)"
      "\<forall>k. hm_get ops1 k = (if k < length ps \<and> Suc k \<in> set (above ps w) \<and> ?anc \<le> k
         then map_option (\<lambda>l. l @ [e * 2 + 1]) (hm_get ops k) else hm_get ops k)"
    using pass_down_adds [OF g le(1) in_w] by blast
  have "\<forall>k < length ps. hm_get ops1 k \<noteq> None"
    using ops by (auto simp: ops1(2))
  then obtain ops2 where ops2: "pass_down lib g ?anc (e * 2) x ops1 = Some (Ok ops2)"
      "\<forall>k. hm_get ops2 k = (if k < length ps \<and> Suc k \<in> set (above ps x) \<and> ?anc \<le> k
         then map_option (\<lambda>l. l @ [e * 2]) (hm_get ops1 k) else hm_get ops1 k)"
    using pass_down_adds [OF g le(2) in_x] by blast
  have "\<exists>l. hm_get ops2 k = Some l \<and> distinct l \<and> set l = carried ps W (es @ [e]) k" if k: "k < length ps" for k
  proof -
    obtain l where l: "hm_get ops k = Some l" "distinct l" "set l = carried ps W es k"
      using ops k by blast
    then show ?thesis
      using k fresh_pipe [OF e, of ps W k] by (simp add: ops1(2) ops2(2) carried_snoc We insert_commute)
  qed
  then show ?thesis
    using ops1(1) ops2(1) by blast
qed

lemma place_write_placed:
  assumes rnd: "rng_contract rnd" and g: "tree_shape ps (nodes g) (edges g)"
    and W: "W = edges wg" "e < length W" "fst (W ! e) \<le> length ps" "snd (W ! e) \<le> length ps" "fst (W ! e) \<noteq> snd (W ! e)"
    and e: "e \<notin> set es" and p: "placed ps W es p ops"
  shows "\<exists>p' r' ops'. place_write lib rnd g wg e (p, r, ops) = Some (Ok (p', r', ops')) \<and> placed ps W (es @ [e]) p' ops' \<and>
    pl_spawn_edges p' = pl_spawn_edges p"
proof -
  obtain w x where We: "W ! e = (w, x)" by (cases "W ! e")
  then have le: "w \<le> length ps" "x \<le> length ps" and "w \<noteq> x" using W by auto
  let ?anc = "creator ps W e"
  obtain n r1 where n: "gen_range rnd 1 1025 r = (n, r1)" by (cases "gen_range rnd 1 1025 r")
  obtain d r2 where d: "fill_bytes rnd n r1 = (d, r2)" by (cases "fill_bytes rnd n r1")
  obtain ops1 ops2 where pass: "pass_down lib g ?anc (e * 2 + 1) w (pl_spawn_ops p) = Some (Ok ops1)"
      "pass_down lib g ?anc (e * 2) x ops1 = Some (Ok ops2)"
    and ops2: "\<forall>k < length ps. \<exists>l. hm_get ops2 k = Some l \<and> distinct l \<and> set l = carried ps W (es @ [e]) k"
    using pass_both_down [OF g We le e, of "pl_spawn_ops p"] p unfolding placed_def by blast
  have "?anc \<le> length ps"
    using creator_above [of ps W "e * 2"] le by (auto simp: user_def We dest!: above_le)
  then obtain created where created: "bt_get (pl_pipes_ops p) ?anc = Some created"
      "created = map (\<lambda>e. (e * 2, e * 2 + 1)) (filter (\<lambda>e. creator ps W e = ?anc) es)"
    using p unfolding placed_def by simp
  let ?p = "p\<lparr>pl_spawn_ops := ops2, pl_pipes_ops := bt_insert ?anc (created @ [(e * 2, e * 2 + 1)]) (pl_pipes_ops p)\<rparr>"
  let ?ops = "ops @ [(w, e * 2 + 1, x, e * 2, d)]"
  have "dag_edge_endpoints lib wg e = Some (w, x)"
    using W We by (simp add: edge_endpoints)
  moreover have "find_ancestor lib g w x {w} {x} = Some (Ok ?anc)"
    unfolding creator_def using find_ancestor_common [OF g le \<open>w \<noteq> x\<close>] We by simp
  ultimately have "place_write lib rnd g wg e (p, r, ops) = Some (Ok (?p, r2, ?ops))"
    using \<open>w \<noteq> x\<close> n d pass created(1) by (simp add: place_write_def Let_def returned_def)
  moreover have "placed ps W (es @ [e]) ?p ?ops"
    using p We ops2 drawn_data [OF rnd n d] \<open>?anc \<le> length ps\<close> unfolding placed_def
    by (simp add: btree.lookup_upd btree.inv_upd created(2) list_all2_appendI)
  ultimately show ?thesis by auto
qed

lemma place_writes_placed:
  assumes rnd: "rng_contract rnd" and g: "tree_shape ps (nodes g) (edges g)" and W: "W = edges wg"
    and ends: "\<forall>e < length W. fst (W ! e) \<le> length ps \<and> snd (W ! e) \<le> length ps \<and> fst (W ! e) \<noteq> snd (W ! e)"
  shows "placed ps W es p ops \<Longrightarrow> distinct (es @ fs) \<Longrightarrow> \<forall>e \<in> set fs. e < length W \<Longrightarrow>
    \<exists>p' r' ops'. place_writes lib rnd g wg fs (p, r, ops) = Some (Ok (p', r', ops')) \<and> placed ps W (es @ fs) p' ops' \<and>
      pl_spawn_edges p' = pl_spawn_edges p"
proof (induction fs arbitrary: es p r ops)
  case Nil
  then show ?case by (simp add: returned_def)
next
  case (Cons e fs)
  obtain p1 r1 ops1 where 1: "place_write lib rnd g wg e (p, r, ops) = Some (Ok (p1, r1, ops1))"
      "placed ps W (es @ [e]) p1 ops1" "pl_spawn_edges p1 = pl_spawn_edges p"
    using place_write_placed [OF rnd g W, of e es p ops r] ends Cons.prems by auto
  then show ?case
    using Cons.IH [OF 1(2), of r1] Cons.prems by (simp add: 1)
qed

lemma spawn_list_reads:
  assumes g: "tree_shape ps (nodes g) (edges g)"
  shows "\<forall>e \<in> set es. e < length ps \<and> hm_get ops e = Some (l e) \<Longrightarrow>
    spawn_list lib g ops es = Some (Ok (map (\<lambda>e. (ps ! e, Suc e, l e)) es))"
  using g by (induction es) (auto simp: returned_def edge_endpoints tree_shape_def)

end

lemma pipe_list_members:
  assumes "bt_wf ops"
  shows "(n, r, w) \<in> set (pipe_list ops) \<longleftrightarrow> (\<exists>pairs. bt_get ops n = Some pairs \<and> (r, w) \<in> set pairs)"
proof -
  have "(n, r, w) \<in> set (pipe_list ops) \<longleftrightarrow> (\<exists>pairs. (n, pairs) \<in> set ops \<and> (r, w) \<in> set pairs)"
    by (force simp: pipe_list_def)
  then show ?thesis
    using btree.lookup_entries [OF assms] by simp
qed

section \<open>What is generated\<close>

text \<open>The tree \<open>ps\<close>, the write edges \<open>W\<close> and the order of the spawns \<open>es\<close> behind a dataflow.\<close>

definition made_from :: "nat list \<Rightarrow> (nat \<times> nat) list \<Rightarrow> nat list \<Rightarrow> dataflow \<Rightarrow> bool" where
  "made_from ps W es flow \<longleftrightarrow> (case flow of (ss, pl, ws) \<Rightarrow>
     is_tree ps \<and> distinct es \<and> set es = {..<length ps} \<and> parents_first ps es \<and>
     writes_ok (Suc (length ps)) W \<and>
     list_all2 (\<lambda>e (parent, child, passed). parent = ps ! e \<and> child = Suc e \<and> distinct passed \<and>
       set passed = carried ps W [0..<length W] e) es ss \<and>
     (\<forall>n r w. (n, r, w) \<in> set pl \<longleftrightarrow> (\<exists>e < length W. n = creator ps W e \<and> r = e * 2 \<and> w = e * 2 + 1)) \<and>
     list_all2 (\<lambda>e (w, wend, r, rend, d). (w, r) = W ! e \<and> wend = e * 2 + 1 \<and> rend = e * 2 \<and> 1 \<le> length d \<and> length d \<le> 1024)
       [0..<length W] ws)"

lemma writes_ok_ends:
  assumes "writes_ok (Suc n) W" and "e < length W"
  shows "fst (W ! e) \<le> n \<and> snd (W ! e) \<le> n \<and> fst (W ! e) \<noteq> snd (W ! e)"
proof -
  obtain w r where e: "W ! e = (w, r)" by (cases "W ! e")
  then have "(w, r) \<in> set W"
    using assms(2) by (metis nth_mem)
  then show ?thesis
    using assms(1) e unfolding writes_ok_def acyclic_def by fastforce
qed

text \<open>After the walk nothing is placed.\<close>

lemma walked_placed:
  assumes "is_tree ps" and "walked ps D [] p"
  shows "placed ps W [] p []"
proof -
  note all = walked_all [OF assms]
  have ops: "\<forall>e. hm_get (pl_spawn_ops p) e = (if e \<in> set (pl_spawn_edges p) then Some [] else None)"
    and pipes: "\<forall>n. bt_get (pl_pipes_ops p) n = (if n \<in> set D then Some [] else None)"
    and wf: "bt_wf (pl_pipes_ops p)"
    using assms(2) unfolding walked_def by blast+
  show ?thesis
    unfolding placed_def using wf by (simp add: ops pipes all carried_def)
qed

lemma placed_made:
  assumes t: "is_tree ps" and w: "walked ps D [] p" and W: "writes_ok (Suc (length ps)) W"
    and p': "placed ps W [0..<length W] p' ws" "pl_spawn_edges p' = pl_spawn_edges p"
  shows "made_from ps W (pl_spawn_edges p')
    (map (\<lambda>e. (ps ! e, Suc e, the (hm_get (pl_spawn_ops p') e))) (pl_spawn_edges p'), pipe_list (pl_pipes_ops p'), ws)"
proof -
  note all = walked_all [OF t w]
  have ops: "\<forall>k < length ps. \<exists>l. hm_get (pl_spawn_ops p') k = Some l \<and> distinct l \<and> set l = carried ps W [0..<length W] k"
    and pipes: "\<forall>n. bt_get (pl_pipes_ops p') n = (if n \<le> length ps
      then Some (map (\<lambda>e. (e * 2, e * 2 + 1)) (filter (\<lambda>e. creator ps W e = n) [0..<length W])) else None)"
    and wf: "bt_wf (pl_pipes_ops p')"
    and ws: "list_all2 (\<lambda>e (w, wend, r, rend, d). (w, r) = W ! e \<and> wend = e * 2 + 1 \<and> rend = e * 2 \<and> 1 \<le> length d \<and> length d \<le> 1024)
       [0..<length W] ws"
    using p'(1) unfolding placed_def by blast+
  have order: "distinct (pl_spawn_edges p)" "parents_first ps (pl_spawn_edges p)"
    using w unfolding walked_def by blast+
  have "creator ps W e \<le> length ps" if "e < length W" for e
    using creator_above [of ps W "e * 2"] writes_ok_ends [OF W that] by (auto simp: user_def dest!: above_le)
  then have "(n, r, x) \<in> set (pipe_list (pl_pipes_ops p')) \<longleftrightarrow> (\<exists>e < length W. n = creator ps W e \<and> r = e * 2 \<and> x = e * 2 + 1)"
    for n r x
    unfolding pipe_list_members [OF wf] pipes [rule_format] by auto
  moreover have "list_all2 (\<lambda>e (parent, child, passed). parent = ps ! e \<and> child = Suc e \<and> distinct passed \<and>
       set passed = carried ps W [0..<length W] e) (pl_spawn_edges p')
     (map (\<lambda>e. (ps ! e, Suc e, the (hm_get (pl_spawn_ops p') e))) (pl_spawn_edges p'))"
    using ops all(1) unfolding p'(2) list_all2_map2 by (fastforce intro!: list.rel_refl_strong)
  ultimately show ?thesis
    using t W order all(1) ws unfolding made_from_def p'(2) by simp
qed

context dag_laws
begin

text \<open>Without spawned VMs nothing is written.\<close>

lemma write_edges_made:
  assumes rnd: "rng_contract rnd" and g: "nodes g = Suc n" "edges g = []" and n: "n = unat (spawns :: u32)"
  obtains wg r' where "(if spawns > 0 then add_writes lib rnd [0..<Suc n] threshold (unat (writes :: u32)) g r []
      else returned ([], g, r)) = Some (Ok ([0..<length (edges wg)], wg, r'))"
    and "writes_ok (Suc n) (edges wg)" and "length (edges wg) \<le> unat writes"
proof (cases "spawns > 0")
  case False
  then show thesis
    using that [of g r] g by (simp add: returned_def writes_ok_def acyclic_def)
next
  case True
  then have "2 \<le> Suc n"
    using n by (simp add: word_less_nat_alt)
  moreover have "unat writes \<le> index_end"
    using unsigned_less [of writes, where ?'a = nat] by (simp add: index_end_def)
  ultimately show thesis
    using that add_writes_returns [OF rnd, of "Suc n" g "unat writes" "[]" threshold r] g True
    by (auto simp: writes_ok_def acyclic_def)
qed

lemma generate_dataflow_made:
  assumes rnd: "rng_contract rnd" and n: "unat (spawns :: u32) < index_end"
  shows "\<exists>ps W es flow. generate_dataflow lib rnd seed spawns writes threshold = Some (Ok flow) \<and>
    made_from ps W es flow \<and> length ps = unat spawns \<and> length W \<le> unat writes"
proof -
  obtain g0 where g0: "dag_add_node lib (dag_new lib) = Ok (0, g0)" "nodes g0 = 1" "edges g0 = []"
    using add_node [of "dag_new lib"] by (auto simp: new_nodes new_edges index_end_def)
  let ?v = "\<lparr>gr_rng = rng_seed rnd seed, gr_spawn_dag = g0, gr_write_dag = g0, gr_spawn_nodes = [0], gr_write_nodes = [0]\<rparr>"
  have "grown [] ?v"
    using g0 by (simp add: grown_def tree_shape_def is_tree_def)
  then obtain ps v where v: "grow_tree lib rnd (unat spawns) ?v = Some (Ok v)" "grown ps v" "length ps = unat spawns"
    using grow_tree_grown [OF rnd, of "[]" ?v "unat spawns"] n by auto
  let ?N = "Suc (length ps)" and ?sg = "gr_spawn_dag v"
  have g: "tree_shape ps (nodes ?sg) (edges ?sg)" and wg0: "nodes (gr_write_dag v) = ?N" "edges (gr_write_dag v) = []"
    and wn: "gr_write_nodes v = [0..<?N]" and t: "is_tree ps"
    using v(2) by (simp_all add: grown_def tree_shape_def)
  obtain wg r where wg: "(if spawns > 0
         then add_writes lib rnd (gr_write_nodes v) (unat threshold) (unat writes) (gr_write_dag v) (gr_rng v) []
         else returned ([], gr_write_dag v, gr_rng v)) = Some (Ok ([0..<length (edges wg)], wg, r))"
      "writes_ok ?N (edges wg)" "length (edges wg) \<le> unat writes"
    unfolding wn by (rule write_edges_made [OF rnd wg0 v(3)])
  let ?W = "edges wg"
  have "walked ps [] [0] \<lparr>pl_spawn_ops = [], pl_pipes_ops = [], pl_spawn_edges = []\<rparr>"
    by (simp add: walked_def parents_first_def hash.lookup_empty btree.lookup_empty btree.inv_empty)
  then obtain D p where p: "walk_tree lib ?sg [0] \<lparr>pl_spawn_ops = [], pl_pipes_ops = [], pl_spawn_edges = []\<rparr> = Some p"
      "walked ps D [] p"
    using walk_tree_returns [OF g] by blast
  have ends: "\<forall>e < length ?W. fst (?W ! e) \<le> length ps \<and> snd (?W ! e) \<le> length ps \<and> fst (?W ! e) \<noteq> snd (?W ! e)"
    using writes_ok_ends [OF wg(2)] by blast
  obtain p' r' ws where p': "place_writes lib rnd ?sg wg [0..<length ?W] (p, r, []) = Some (Ok (p', r', ws))"
      "placed ps ?W [0..<length ?W] p' ws" "pl_spawn_edges p' = pl_spawn_edges p"
    using place_writes_placed [OF rnd g refl ends walked_placed [OF t p(2)], of "[0..<length ?W]" r] by auto
  have "\<forall>e \<in> set (pl_spawn_edges p'). e < length ps \<and>
      hm_get (pl_spawn_ops p') e = Some (the (hm_get (pl_spawn_ops p') e))"
    using p'(2) walked_all(1) [OF t p(2)] unfolding placed_def p'(3) by fastforce
  note sl = spawn_list_reads [OF g this]
  have "generate_dataflow lib rnd seed spawns writes threshold =
    Some (Ok (map (\<lambda>e. (ps ! e, Suc e, the (hm_get (pl_spawn_ops p') e))) (pl_spawn_edges p'), pipe_list (pl_pipes_ops p'), ws))"
    using v(1) wg(1) p(1) p'(1) sl by (simp add: generate_dataflow_def g0 returned_def)
  then show ?thesis
    using placed_made [OF t p(2) wg(2) p'(2,3)] v(3) wg(3) by blast
qed

end

end
