(* ===== verification/Dataflow_Correct.thy ===== *)
theory Dataflow_Correct
  imports Generator_Correct
begin

text \<open>
  What the generated dataflow promises to the programs that run it. \<open>hand_over\<close> executes the spawns one
  after the other and moves the pipe ends they name; \<open>held\<close> is its invariant, that every end is with
  the lowest running VM on the way from the creator of the pipe to the user of the end. At the end of
  the theory stand the properties of the generator, with the bytes of \<open>Dag_Types\<close> it writes.
\<close>

section \<open>Executing the spawns\<close>

text \<open>
  The VMs that run and the holder of each pipe end. A spawn needs a running parent and a new child, and
  moves the ends it names from parent to child; the parent must hold every one of them.
\<close>

fun hand_over :: "(nat \<times> nat \<times> nat list) list \<Rightarrow> nat set \<times> (nat \<Rightarrow> nat option) \<Rightarrow> (nat set \<times> (nat \<Rightarrow> nat option)) option" where
  "hand_over [] st = Some st"
| "hand_over ((spawner, child, passed) # ss) (live, holds) =
     (if spawner \<in> live \<and> child \<notin> live \<and> distinct passed \<and> (\<forall>p \<in> set passed. holds p = Some spawner)
      then hand_over ss (insert child live, \<lambda>p. if p \<in> set passed then Some child else holds p)
      else None)"

text \<open>At first every end is with the VM that creates it.\<close>

definition creators :: "(nat \<times> nat \<times> nat) list \<Rightarrow> nat \<Rightarrow> nat option" where
  "creators pl = map_of (concat (map (\<lambda>(vm, r, w). [(r, vm), (w, vm)]) pl))"

definition running :: "nat list \<Rightarrow> nat set" where
  "running es = insert 0 (Suc ` set es)"

text \<open>Between the spawns an end is with the lowest running VM on the way to its user.\<close>

definition held :: "nat list \<Rightarrow> (nat \<times> nat) list \<Rightarrow> nat list \<Rightarrow> (nat \<Rightarrow> nat option) \<Rightarrow> bool" where
  "held ps W es holds \<longleftrightarrow> (\<forall>q. q div 2 < length W \<longrightarrow>
     (\<exists>h \<in> set (above ps (user W q)). holds q = Some h \<and> creator ps W (q div 2) \<le> h \<and>
        (h \<in> running es \<or> h = creator ps W (q div 2)) \<and> (\<forall>n \<in> running es \<inter> set (above ps (user W q)). n \<le> h)))"

lemma running_closed:
  assumes "is_tree ps" and "\<forall>e \<in> set es. e < length ps \<and> ps ! e \<in> running es"
  shows "n \<in> running es \<Longrightarrow> m \<in> set (above ps n) \<Longrightarrow> m \<in> running es"
proof (induction n rule: less_induct)
  case (less n)
  show ?case
  proof (cases "n = 0")
    case True
    then show ?thesis using less.prems by simp
  next
    case False
    then obtain e where e: "n = Suc e" "e \<in> set es"
      using less.prems(1) by (auto simp: running_def)
    then have "e < length ps" "ps ! e \<in> running es" "ps ! e < n"
      using assms by (auto simp: is_tree_def less_Suc_eq_le)
    then show ?thesis
      using less.IH [of "ps ! e"] less.prems e assms(1) by (auto simp: above_Suc)
  qed
qed

lemma held_by_parent:
  assumes t: "is_tree ps" and es: "\<forall>e \<in> set es. e < length ps \<and> ps ! e \<in> running es"
    and e: "e < length ps" "ps ! e \<in> running es" "Suc e \<notin> running es"
    and h: "held ps W es holds" and q: "q \<in> carried ps W [0..<length W] e"
  shows "holds q = Some (ps ! e)"
proof -
  have q': "q div 2 < length W" "Suc e \<in> set (above ps (user W q))" "creator ps W (q div 2) \<le> e"
    using q by (auto simp: carried_def)
  then obtain h where h: "h \<in> set (above ps (user W q))" "holds q = Some h" "creator ps W (q div 2) \<le> h"
      "h \<in> running es \<or> h = creator ps W (q div 2)" "\<forall>n \<in> running es \<inter> set (above ps (user W q)). n \<le> h"
    using h unfolding held_def by blast
  have "ps ! e \<le> h"
    using h(5) e(2) above_step [OF t e(1) q'(2)] by blast
  moreover have "\<not> Suc e \<le> h"
  proof
    assume "Suc e \<le> h"
    then have "Suc e \<in> set (above ps h)" and "h \<in> running es"
      using above_linear [OF h(1) q'(2)] h(4) q'(3) by auto
    then show False
      using running_closed [OF t es] e(3) by blast
  qed
  ultimately have "h = ps ! e"
    using above_gap [OF t e(1) q'(2) h(1)] by simp
  then show ?thesis using h(2) by simp
qed

lemma held_after_spawn:
  assumes t: "is_tree ps" and es: "\<forall>e \<in> set es. e < length ps \<and> ps ! e \<in> running es"
    and e: "e < length ps" "ps ! e \<in> running es" "Suc e \<notin> running es"
    and h: "held ps W es holds"
  shows "held ps W (es @ [e]) (\<lambda>q. if q \<in> carried ps W [0..<length W] e then Some (Suc e) else holds q)"
  unfolding held_def
proof (intro allI impI)
  fix q assume q: "q div 2 < length W"
  then obtain h where h': "h \<in> set (above ps (user W q))" "holds q = Some h" "creator ps W (q div 2) \<le> h"
      "h \<in> running es \<or> h = creator ps W (q div 2)" "\<forall>n \<in> running es \<inter> set (above ps (user W q)). n \<le> h"
    using h unfolding held_def by blast
  have r: "running (es @ [e]) = insert (Suc e) (running es)"
    by (auto simp: running_def)
  show "\<exists>h \<in> set (above ps (user W q)). (if q \<in> carried ps W [0..<length W] e then Some (Suc e) else holds q) = Some h \<and>
      creator ps W (q div 2) \<le> h \<and> (h \<in> running (es @ [e]) \<or> h = creator ps W (q div 2)) \<and>
      (\<forall>n \<in> running (es @ [e]) \<inter> set (above ps (user W q)). n \<le> h)"
  proof (cases "q \<in> carried ps W [0..<length W] e")
    case True
    then have "holds q = Some (ps ! e)"
      by (rule held_by_parent [OF t es e h])
    then have "h \<le> e"
      using h'(2) t e(1) by (auto simp: is_tree_def)
    then have "\<forall>n \<in> running es \<inter> set (above ps (user W q)). n \<le> Suc e"
      using h'(5) by (meson le_SucI le_trans)
    then show ?thesis
      using True unfolding r by (intro bexI [of _ "Suc e"]) (auto simp: carried_def)
  next
    case False
    then have "Suc e \<in> set (above ps (user W q)) \<Longrightarrow> Suc e \<le> h"
      using q h'(3) by (auto simp: carried_def)
    then show ?thesis
      using False h' unfolding r by (intro bexI [of _ h]) auto
  qed
qed

lemma hand_over_runs:
  assumes t: "is_tree ps"
  shows "list_all2 (\<lambda>e (parent, child, passed). parent = ps ! e \<and> child = Suc e \<and> distinct passed \<and>
       set passed = carried ps W [0..<length W] e) fs ss \<Longrightarrow>
    parents_first ps (es @ fs) \<Longrightarrow> distinct (es @ fs) \<Longrightarrow> \<forall>e \<in> set (es @ fs). e < length ps \<Longrightarrow>
    held ps W es holds \<Longrightarrow>
    \<exists>holds'. hand_over ss (running es, holds) = Some (running (es @ fs), holds') \<and> held ps W (es @ fs) holds'"
proof (induction fs arbitrary: ss es holds)
  case Nil
  then show ?case by auto
next
  case (Cons e fs)
  then obtain passed ss' where ss: "ss = (ps ! e, Suc e, passed) # ss'" "distinct passed"
      "set passed = carried ps W [0..<length W] e"
    and rest: "list_all2 (\<lambda>e (parent, child, passed). parent = ps ! e \<and> child = Suc e \<and> distinct passed \<and>
       set passed = carried ps W [0..<length W] e) fs ss'"
    by (auto simp: list_all2_Cons1)
  have first: "ps ! ((es @ e # fs) ! k) \<in> insert 0 (Suc ` set (take k (es @ e # fs)))" if "k \<le> length es" for k
  proof -
    have "k < length (es @ e # fs)" using that by simp
    then show ?thesis
      using Cons.prems(2) unfolding parents_first_def by blast
  qed
  have parent: "ps ! e \<in> running es"
    using first [of "length es"] by (simp add: running_def)
  have es: "\<forall>e \<in> set es. e < length ps \<and> ps ! e \<in> running es"
  proof
    fix x assume x: "x \<in> set es"
    then obtain k where k: "k < length es" "es ! k = x" by (metis in_set_conv_nth)
    then have "ps ! x \<in> insert 0 (Suc ` set (take k es))"
      using first [of k] by (simp add: nth_append)
    then show "x < length ps \<and> ps ! x \<in> running es"
      using Cons.prems(4) x by (auto simp: running_def dest: in_set_takeD)
  qed
  have child: "Suc e \<notin> running es"
    using Cons.prems(3) by (auto simp: running_def)
  have e: "e < length ps"
    using Cons.prems(4) by simp
  have r: "insert (Suc e) (running es) = running (es @ [e])"
    by (auto simp: running_def)
  have "hand_over ss (running es, holds) =
    hand_over ss' (running (es @ [e]), \<lambda>q. if q \<in> carried ps W [0..<length W] e then Some (Suc e) else holds q)"
    using parent child ss held_by_parent [OF t es e parent child Cons.prems(5)] r by simp
  then show ?case
    using Cons.IH [OF rest _ _ _ held_after_spawn [OF t es e parent child Cons.prems(5)]] Cons.prems(2-4) by simp
qed

lemma creators_entries:
  "(q, n) \<in> set (concat (map (\<lambda>(vm, r, w). [(r, vm), (w, vm)]) pl)) \<longleftrightarrow> (\<exists>r w. (n, r, w) \<in> set pl \<and> (q = r \<or> q = w))"
  by (induction pl) auto

lemma creators_made:
  assumes "\<forall>n r w. (n, r, w) \<in> set pl \<longleftrightarrow> (\<exists>e < length W. n = creator ps W e \<and> r = e * 2 \<and> w = e * 2 + 1)"
    and q: "q div 2 < length W"
  shows "creators pl q = Some (creator ps W (q div 2))"
proof -
  let ?m = "concat (map (\<lambda>(vm, r, w). [(r, vm), (w, vm)]) pl)"
  have m: "(q, n) \<in> set ?m \<longleftrightarrow> n = creator ps W (q div 2)" for n
  proof -
    have "(q, n) \<in> set ?m \<longleftrightarrow> (\<exists>e < length W. n = creator ps W e \<and> (q = e * 2 \<or> q = e * 2 + 1))"
      unfolding creators_entries using assms(1) by blast
    moreover have "(q = e * 2 \<or> q = e * 2 + 1) = (e = q div 2)" for e
      by presburger
    ultimately show ?thesis
      using q by auto
  qed
  then have "(q, creator ps W (q div 2)) \<in> set ?m"
    by blast
  then have "q \<in> fst ` set ?m"
    by (rule rev_image_eqI) simp
  then obtain n where n: "map_of ?m q = Some n"
    using map_of_eq_None_iff [of ?m q] by blast
  then show ?thesis
    using m map_of_SomeD [OF n] by (simp add: creators_def)
qed

lemma held_at_start:
  assumes "\<forall>n r w. (n, r, w) \<in> set pl \<longleftrightarrow> (\<exists>e < length W. n = creator ps W e \<and> r = e * 2 \<and> w = e * 2 + 1)"
  shows "held ps W [] (creators pl)"
  unfolding held_def
  using creator_above creators_made [OF assms] by (fastforce simp: running_def)

lemma held_at_end:
  assumes "held ps W es holds" and "set es = {..<length ps}" and "q div 2 < length W" and "user W q \<le> length ps"
  shows "holds q = Some (user W q)"
proof -
  have "running es = {..length ps}"
    by (simp add: running_def assms(2) lessThan_Suc_eq_insert_0 [symmetric] lessThan_Suc_atMost)
  then obtain h where "h \<in> set (above ps (user W q))" "holds q = Some h" "user W q \<le> h"
    using assms(1,3,4) unfolding held_def by blast
  then show ?thesis
    using above_le by fastforce
qed

lemma made_hand_over:
  assumes "made_from ps W es (ss, pl, ws)"
  shows "\<exists>holds. hand_over ss ({0}, creators pl) = Some ({..length ps}, holds) \<and>
    (\<forall>(w, wend, r, rend, d) \<in> set ws. w \<noteq> r \<and> holds wend = Some w \<and> holds rend = Some r \<and> 1 \<le> length d \<and> length d \<le> 1024)"
proof -
  have t: "is_tree ps" and es: "distinct es" "set es = {..<length ps}" "parents_first ps es"
    and W: "writes_ok (Suc (length ps)) W"
    and ss: "list_all2 (\<lambda>e (parent, child, passed). parent = ps ! e \<and> child = Suc e \<and> distinct passed \<and>
       set passed = carried ps W [0..<length W] e) es ss"
    and pl: "\<forall>n r w. (n, r, w) \<in> set pl \<longleftrightarrow> (\<exists>e < length W. n = creator ps W e \<and> r = e * 2 \<and> w = e * 2 + 1)"
    and ws: "list_all2 (\<lambda>e (w, wend, r, rend, d). (w, r) = W ! e \<and> wend = e * 2 + 1 \<and> rend = e * 2 \<and> 1 \<le> length d \<and> length d \<le> 1024)
       [0..<length W] ws"
    using assms unfolding made_from_def by (simp_all add: case_prod_beta)
  have "running es = {..length ps}" and "running [] = {0}"
    by (simp_all add: running_def es(2) lessThan_Suc_eq_insert_0 [symmetric] lessThan_Suc_atMost)
  then obtain holds where run: "hand_over ss ({0}, creators pl) = Some ({..length ps}, holds)" and h: "held ps W es holds"
    using hand_over_runs [OF t ss, where es = "[]" and holds = "creators pl"] es held_at_start [OF pl] by auto
  have "w \<noteq> r \<and> holds wend = Some w \<and> holds rend = Some r \<and> 1 \<le> length d \<and> length d \<le> 1024"
    if x: "(w, wend, r, rend, d) \<in> set ws" for w wend r rend d
  proof -
    obtain e where e: "e < length W" "(w, r) = W ! e" "wend = e * 2 + 1" "rend = e * 2" "1 \<le> length d \<and> length d \<le> 1024"
      using ws x by (fastforce simp: list_all2_conv_all_nth in_set_conv_nth)
    then show ?thesis
      using writes_ok_ends [OF W e(1)] held_at_end [OF h es(2), of wend] held_at_end [OF h es(2), of rend]
      by (simp add: user_def prod_eq_iff)
  qed
  then show ?thesis
    using run by blast
qed

lemma generated_made:
  assumes "dag_laws lib nodes edges" and "rng_contract rnd" and "unat spawns < index_end"
  obtains ps W es ss pl ws where "generate_dataflow lib rnd seed spawns writes threshold = Some (Ok (ss, pl, ws))"
    and "made_from ps W es (ss, pl, ws)" and "length ps = unat spawns" and "length W \<le> unat writes"
  using dag_laws.generate_dataflow_made [OF assms] by (metis prod_cases3)

lemma made_pipes:
  assumes "made_from ps W es (ss, pl, ws)"
  shows "length ws = length W"
    and "distinct (concat (map (\<lambda>(w, wend, r, rend, d). [wend, rend]) ws))"
    and "(w, wend, r, rend, d) \<in> set ws \<Longrightarrow> \<exists>!vm. (vm, rend, wend) \<in> set pl"
    and "(vm, rend, wend) \<in> set pl \<Longrightarrow> \<exists>w r d. (w, wend, r, rend, d) \<in> set ws"
    and "acyclic {(w, r). \<exists>wend rend d. (w, wend, r, rend, d) \<in> set ws}"
proof -
  have W: "writes_ok (Suc (length ps)) W"
    and pl: "\<And>n r w. (n, r, w) \<in> set pl \<longleftrightarrow> (\<exists>e < length W. n = creator ps W e \<and> r = e * 2 \<and> w = e * 2 + 1)"
    and ws: "list_all2 (\<lambda>e (w, wend, r, rend, d). (w, r) = W ! e \<and> wend = e * 2 + 1 \<and> rend = e * 2 \<and> 1 \<le> length d \<and> length d \<le> 1024)
       [0..<length W] ws"
    using assms unfolding made_from_def by (simp_all add: case_prod_beta)
  show len: "length ws = length W"
    using ws list_all2_lengthD by fastforce
  have at: "\<exists>d. ws ! e = (fst (W ! e), e * 2 + 1, snd (W ! e), e * 2, d)" if "e < length W" for e
    using ws that by (auto simp: list_all2_conv_all_nth split: prod.splits) (metis fst_conv snd_conv surj_pair)
  have "(case ws ! e of (w, wend, r, rend, d) \<Rightarrow> [wend, rend]) = [e * 2 + 1, e * 2]" if "e < length W" for e
    using at [OF that] by auto
  then have "map (\<lambda>(w, wend, r, rend, d). [wend, rend]) ws = map (\<lambda>e. [e * 2 + 1, e * 2]) [0..<length W]"
    by (simp add: list_eq_iff_nth_eq [of "map f xs" for f xs] len)
  moreover have "distinct (concat (map (\<lambda>e. [e * 2 + 1, e * 2 :: nat]) [0..<n]))" for n
    by (induction n) auto
  ultimately show "distinct (concat (map (\<lambda>(w, wend, r, rend, d). [wend, rend]) ws))"
    by simp
  have mem: "\<exists>e < length W. W ! e = (w, r) \<and> wend = e * 2 + 1 \<and> rend = e * 2" if "(w, wend, r, rend, d) \<in> set ws"
    for w wend r rend d
  proof -
    obtain e where e: "e < length W" "ws ! e = (w, wend, r, rend, d)"
      using \<open>(w, wend, r, rend, d) \<in> set ws\<close> by (auto simp: in_set_conv_nth len)
    then show ?thesis
      using at [OF e(1)] by (auto simp: prod_eq_iff)
  qed
  show "\<exists>!vm. (vm, rend, wend) \<in> set pl" if "(w, wend, r, rend, d) \<in> set ws"
    using mem [OF that] by (auto simp: pl)
  show "\<exists>w r d. (w, wend, r, rend, d) \<in> set ws" if "(vm, rend, wend) \<in> set pl"
  proof -
    obtain e where e: "e < length W" "rend = e * 2" "wend = e * 2 + 1"
      using \<open>(vm, rend, wend) \<in> set pl\<close> by (auto simp: pl)
    then obtain d where "ws ! e = (fst (W ! e), wend, snd (W ! e), rend, d)"
      using at [OF e(1)] by auto
    then show ?thesis
      using nth_mem [of e ws] e(1) len by auto
  qed
  have "{(w, r). \<exists>wend rend d. (w, wend, r, rend, d) \<in> set ws} \<subseteq> set W"
    using mem by (auto dest!: mem) (metis nth_mem)
  then show "acyclic {(w, r). \<exists>wend rend d. (w, wend, r, rend, d) \<in> set ws}"
    using W acyclic_subset unfolding writes_ok_def by blast
qed

section \<open>Properties of the generator\<close>

text \<open>
  C30: the search for the ancestor in a spawn tree ends, none of its assertions fails, and it finds the
  lowest common ancestor of writer and reader: a node above (or equal to) both, and below every other such node.
\<close>

theorem lowest_common_ancestor:
  assumes "dag_laws lib nodes edges" and "tree_shape ps (nodes g) (edges g)"
    and "writer \<le> length ps" and "reader \<le> length ps" and "writer \<noteq> reader"
  shows "\<exists>x. find_ancestor lib g writer reader {writer} {reader} = Some (Ok x) \<and>
    x \<in> set (above ps writer) \<and> x \<in> set (above ps reader) \<and>
    (\<forall>y. y \<in> set (above ps writer) \<and> y \<in> set (above ps reader) \<longrightarrow> y \<in> set (above ps x))"
proof -
  let ?x = "common ps writer reader"
  have x: "?x \<in> set (above ps writer) \<inter> set (above ps reader)"
    by (rule common_in)
  moreover have "y \<in> set (above ps ?x)" if "y \<in> set (above ps writer)" "y \<in> set (above ps reader)" for y
    using that x above_linear [of ?x ps writer y] unfolding common_def by (simp add: Max_ge)
  ultimately show ?thesis
    using dag_laws.find_ancestor_common [OF assms] by blast
qed

theorem lowest_common_ancestor_witness:
  "\<exists>x. find_ancestor list_dag (4, [(0, 1), (1, 2), (1, 3)]) 2 3 {2} {3} = Some (Ok x) \<and> x \<in> set (above [0, 1, 1] 2)"
proof -
  have "tree_shape [0, 1, 1] 4 [(0, 1), (1, 2), (1, 3)]"
    by (simp add: tree_shape_def is_tree_def less_Suc_eq numeral_eq_Suc)
  then show ?thesis
    using lowest_common_ancestor [OF list_dag.dag_laws_axioms, of "[0, 1, 1]" "(4, [(0, 1), (1, 2), (1, 3)])" 2 3] by auto
qed

text \<open>
  C29: the generator returns without a panic for every seed, and its plan can be executed: every spawn
  is made by a running VM that holds all the pipe ends it passes on, all VMs get spawned, and then
  every writer holds the end it writes to and every reader the end it reads from; each write is between
  two VMs and of 1 to 1024 bytes.
\<close>

theorem generated_plan_runs:
  assumes "dag_laws lib nodes edges" and "rng_contract rnd" and "unat spawns < index_end"
  shows "\<exists>ss pl ws holds. generate_dataflow lib rnd seed spawns writes threshold = Some (Ok (ss, pl, ws)) \<and>
    hand_over ss ({0}, creators pl) = Some ({..unat spawns}, holds) \<and>
    (\<forall>(w, wend, r, rend, d) \<in> set ws. w \<noteq> r \<and> holds wend = Some w \<and> holds rend = Some r \<and> 1 \<le> length d \<and> length d \<le> 1024)"
proof -
  obtain ps W es ss pl ws where g: "generate_dataflow lib rnd seed spawns writes threshold = Some (Ok (ss, pl, ws))"
    and m: "made_from ps W es (ss, pl, ws)" and n: "length ps = unat spawns"
    by (rule generated_made [OF assms])
  show ?thesis
    using g made_hand_over [OF m] unfolding n by blast
qed

theorem generated_plan_runs_witness:
  "\<exists>ss pl ws holds. generate_dataflow list_dag counter_rng 7 3 2 5 = Some (Ok (ss, pl, ws)) \<and>
    hand_over ss ({0}, creators pl) = Some ({..3}, holds)"
  using generated_plan_runs [OF list_dag.dag_laws_axioms counter_rng_contract,
      where spawns = 3 and seed = 7 and writes = 2 and threshold = 5]
  by (auto simp: index_end_def)

text \<open>
  C31: the pipes fit the writes: no pipe end is used twice, the pair of every write is created by exactly
  one VM, nothing else is created, there are at most \<open>writes\<close> of them, and who writes to whom has no
  cycle, so the VMs cannot wait for each other in a circle.
\<close>

theorem generated_pipes_fit:
  assumes "dag_laws lib nodes edges" and "rng_contract rnd" and "unat spawns < index_end"
    and "generate_dataflow lib rnd seed spawns writes threshold = Some (Ok (ss, pl, ws))"
  shows "length ws \<le> unat writes \<and> distinct (concat (map (\<lambda>(w, wend, r, rend, d). [wend, rend]) ws)) \<and>
    (\<forall>(w, wend, r, rend, d) \<in> set ws. \<exists>!vm. (vm, rend, wend) \<in> set pl) \<and>
    (\<forall>(vm, rend, wend) \<in> set pl. \<exists>w r d. (w, wend, r, rend, d) \<in> set ws) \<and>
    acyclic {(w, r). \<exists>wend rend d. (w, wend, r, rend, d) \<in> set ws}"
proof -
  obtain ps W es ss' pl' ws' where "generate_dataflow lib rnd seed spawns writes threshold = Some (Ok (ss', pl', ws'))"
    and "made_from ps W es (ss', pl', ws')" and n: "length W \<le> unat writes"
    by (rule generated_made [OF assms(1-3)])
  then have m: "made_from ps W es (ss, pl, ws)"
    using assms(4) by simp
  have "\<forall>(w, wend, r, rend, d) \<in> set ws. \<exists>!vm. (vm, rend, wend) \<in> set pl"
    using made_pipes(3) [OF m] by blast
  moreover have "\<forall>(vm, rend, wend) \<in> set pl. \<exists>w r d. (w, wend, r, rend, d) \<in> set ws"
    using made_pipes(4) [OF m] by blast
  ultimately show ?thesis
    using made_pipes(1,2,5) [OF m] n by simp
qed

theorem generated_pipes_fit_witness:
  "\<exists>ss pl ws. generate_dataflow list_dag counter_rng 7 3 2 5 = Some (Ok (ss, pl, ws)) \<and> length ws \<le> 2 \<and>
    acyclic {(w, r). \<exists>wend rend d. (w, wend, r, rend, d) \<in> set ws}"
proof -
  have 3: "unat (3 :: u32) < index_end" by (simp add: index_end_def)
  obtain ps W es ss pl ws where "generate_dataflow list_dag counter_rng 7 3 2 5 = Some (Ok (ss, pl, ws))"
    by (rule generated_made [OF list_dag.dag_laws_axioms counter_rng_contract 3])
  then show ?thesis
    using generated_pipes_fit [OF list_dag.dag_laws_axioms counter_rng_contract 3] by fastforce
qed

lemma built_index: "index_wf (build_vm_index v)" "index_wf (build_pipe_index v)"
  by (simp_all add: index_wf_def build_vm_index_def build_pipe_index_def to_le_bytes_def VmIndexBuilder_build_def
      PipeIndexBuilder_build_def array_write_def)

lemma dag_of_dataflow_wf: "dag_wf (dag_of_dataflow flow)"
  by (cases flow rule: prod_cases3) (auto simp: list_all_iff built_index)



end
