(* ===== verification/Dag_Readers.thy ===== *)
theory Dag_Readers
  imports Dag_Correct
begin

text \<open>
  The borrowed side of the ten types of src/dev_utils/dag.rs: the readers over a slice, with their
  getters and iterators, the conversions between a reader and the owned type, and the rest of the
  owned interface (\<open>from_slice\<close>, \<open>default\<close>, sizes, setters of the builders). The names are those of the
  source, \<open>Type_method\<close>. A reader of one byte is the slice of length one.

  At the end, the typing of the parts: \<open>parts_of\<close> applies every getter of a type, and all the parts
  that can be reached from verified bytes are verified values of their types.
\<close>

section \<open>The trait methods of the molecule crate\<close>

text \<open>
  \<open>Reader::from_slice\<close> and \<open>from_compatible_slice\<close> are default methods of a trait of the crate, which is
  not in the repository: they run the \<open>verify\<close> of the type on the whole slice, strictly or in
  compatible mode, and return the reader of that slice.
\<close>

record molecule_library =
  reader_from_slice :: "verifier \<Rightarrow> byte_list \<Rightarrow> byte_list vres"
  reader_from_compatible_slice :: "verifier \<Rightarrow> byte_list \<Rightarrow> byte_list vres"

locale molecule_traits =
  fixes lib :: molecule_library
  assumes from_slice: "reader_from_slice lib v s = vbind (v s False) (\<lambda>_. Verified s)"
    and from_compatible_slice: "reader_from_compatible_slice lib v s = vbind (v s True) (\<lambda>_. Verified s)"

definition molecule_defaults :: molecule_library where
  "molecule_defaults = \<lparr>reader_from_slice = (\<lambda>v s. vbind (v s False) (\<lambda>_. Verified s)),
     reader_from_compatible_slice = (\<lambda>v s. vbind (v s True) (\<lambda>_. Verified s))\<rparr>"

interpretation defaults: molecule_traits molecule_defaults
  by unfold_locales (simp_all add: molecule_defaults_def)

section \<open>The array \<open>VmIndexReader\<close>\<close>

definition VmIndex_raw_data :: "VmIndex \<Rightarrow> byte_list" where
  "VmIndex_raw_data s = s"

definition VmIndexReader_nth :: "byte_list \<Rightarrow> nat \<Rightarrow> byte_list vres" where
  "VmIndexReader_nth s i = slice_of s i (i + 1)"

definition VmIndexReader_raw_data :: "byte_list \<Rightarrow> byte_list" where
  "VmIndexReader_raw_data s = s"

definition VmIndexBuilder_set :: "u8 list \<Rightarrow> u8 list \<Rightarrow> u8 list" where
  "VmIndexBuilder_set b v = v"

definition VmIndexBuilder_expected_length :: "u8 list \<Rightarrow> nat" where
  "VmIndexBuilder_expected_length b = 8"

definition VmIndex_default :: "VmIndex" where
  "VmIndex_default = VmIndex_DEFAULT_VALUE"

definition VmIndex_as_reader :: "VmIndex \<Rightarrow> byte_list" where
  "VmIndex_as_reader s = s"

definition VmIndexReader_to_entity :: "byte_list \<Rightarrow> VmIndex" where
  "VmIndexReader_to_entity s = s"

definition VmIndex_from_slice :: "molecule_library \<Rightarrow> byte_list \<Rightarrow> VmIndex vres" where
  "VmIndex_from_slice lib s =
     vbind (reader_from_slice lib VmIndexReader_verify s) (\<lambda>reader. Verified (VmIndexReader_to_entity reader))"

definition VmIndex_from_compatible_slice :: "molecule_library \<Rightarrow> byte_list \<Rightarrow> VmIndex vres" where
  "VmIndex_from_compatible_slice lib s =
     vbind (reader_from_compatible_slice lib VmIndexReader_verify s) (\<lambda>reader. Verified (VmIndexReader_to_entity reader))"

section \<open>The array \<open>PipeIndexReader\<close>\<close>

definition PipeIndex_raw_data :: "PipeIndex \<Rightarrow> byte_list" where
  "PipeIndex_raw_data s = s"

definition PipeIndexReader_nth :: "byte_list \<Rightarrow> nat \<Rightarrow> byte_list vres" where
  "PipeIndexReader_nth s i = slice_of s i (i + 1)"

definition PipeIndexReader_raw_data :: "byte_list \<Rightarrow> byte_list" where
  "PipeIndexReader_raw_data s = s"

definition PipeIndexBuilder_set :: "u8 list \<Rightarrow> u8 list \<Rightarrow> u8 list" where
  "PipeIndexBuilder_set b v = v"

definition PipeIndexBuilder_expected_length :: "u8 list \<Rightarrow> nat" where
  "PipeIndexBuilder_expected_length b = 8"

definition PipeIndex_default :: "PipeIndex" where
  "PipeIndex_default = PipeIndex_DEFAULT_VALUE"

definition PipeIndex_as_reader :: "PipeIndex \<Rightarrow> byte_list" where
  "PipeIndex_as_reader s = s"

definition PipeIndexReader_to_entity :: "byte_list \<Rightarrow> PipeIndex" where
  "PipeIndexReader_to_entity s = s"

definition PipeIndex_from_slice :: "molecule_library \<Rightarrow> byte_list \<Rightarrow> PipeIndex vres" where
  "PipeIndex_from_slice lib s =
     vbind (reader_from_slice lib PipeIndexReader_verify s) (\<lambda>reader. Verified (PipeIndexReader_to_entity reader))"

definition PipeIndex_from_compatible_slice :: "molecule_library \<Rightarrow> byte_list \<Rightarrow> PipeIndex vres" where
  "PipeIndex_from_compatible_slice lib s =
     vbind (reader_from_compatible_slice lib PipeIndexReader_verify s) (\<lambda>reader. Verified (PipeIndexReader_to_entity reader))"

section \<open>The vector \<open>PipeIndicesReader\<close>\<close>

definition PipeIndices_total_size :: "number_codec \<Rightarrow> PipeIndices \<Rightarrow> nat vres" where
  "PipeIndices_total_size num s = vbind (PipeIndices_item_count num s) (\<lambda>n. Verified (NUMBER_SIZE + 8 * n))"

definition PipeIndices_is_empty :: "number_codec \<Rightarrow> PipeIndices \<Rightarrow> bool vres" where
  "PipeIndices_is_empty num s = vbind (PipeIndices_item_count num s) (\<lambda>n. Verified (n = 0))"

definition PipeIndicesReader_item_count :: "number_codec \<Rightarrow> byte_list \<Rightarrow> nat vres" where
  "PipeIndicesReader_item_count num s = fixvec_item_count num s"

definition PipeIndicesReader_total_size :: "number_codec \<Rightarrow> byte_list \<Rightarrow> nat vres" where
  "PipeIndicesReader_total_size num s = vbind (PipeIndicesReader_item_count num s) (\<lambda>n. Verified (NUMBER_SIZE + 8 * n))"

definition PipeIndicesReader_is_empty :: "number_codec \<Rightarrow> byte_list \<Rightarrow> bool vres" where
  "PipeIndicesReader_is_empty num s = vbind (PipeIndicesReader_item_count num s) (\<lambda>n. Verified (n = 0))"

definition PipeIndicesReader_get_unchecked :: "byte_list \<Rightarrow> nat \<Rightarrow> byte_list vres" where
  "PipeIndicesReader_get_unchecked s idx = fixvec_get_unchecked 8 s idx"

definition PipeIndicesReader_get :: "number_codec \<Rightarrow> byte_list \<Rightarrow> nat \<Rightarrow> byte_list option vres" where
  "PipeIndicesReader_get num s idx = checked_get (PipeIndicesReader_item_count num s) (PipeIndicesReader_get_unchecked s) idx"

definition PipeIndicesReader_iter :: "number_codec \<Rightarrow> byte_list \<Rightarrow> (nat \<times> nat) vres" where
  "PipeIndicesReader_iter num s = vbind (PipeIndicesReader_item_count num s) (\<lambda>n. Verified (0, n))"

definition PipeIndicesReader_iter_next :: "byte_list \<Rightarrow> nat \<times> nat \<Rightarrow> (byte_list option \<times> nat \<times> nat) vres" where
  "PipeIndicesReader_iter_next s it = iter_next (PipeIndicesReader_get_unchecked s) it"

definition PipeIndicesReader_iter_len :: "bool \<Rightarrow> nat \<times> nat \<Rightarrow> nat vres" where
  "PipeIndicesReader_iter_len chk it = usize_sub chk (snd it) (fst it)"

definition PipeIndices_iter_len :: "bool \<Rightarrow> nat \<times> nat \<Rightarrow> nat vres" where
  "PipeIndices_iter_len chk it = usize_sub chk (snd it) (fst it)"

definition PipeIndicesBuilder_set :: "PipeIndex list \<Rightarrow> PipeIndex list \<Rightarrow> PipeIndex list" where
  "PipeIndicesBuilder_set b v = v"

definition PipeIndices_default :: "PipeIndices" where
  "PipeIndices_default = PipeIndices_DEFAULT_VALUE"

definition PipeIndices_as_reader :: "PipeIndices \<Rightarrow> byte_list" where
  "PipeIndices_as_reader s = s"

definition PipeIndicesReader_to_entity :: "byte_list \<Rightarrow> PipeIndices" where
  "PipeIndicesReader_to_entity s = s"

definition PipeIndices_from_slice :: "molecule_library \<Rightarrow> number_codec \<Rightarrow> byte_list \<Rightarrow> PipeIndices vres" where
  "PipeIndices_from_slice lib num s =
     vbind (reader_from_slice lib (PipeIndicesReader_verify num) s) (\<lambda>reader. Verified (PipeIndicesReader_to_entity reader))"

definition PipeIndices_from_compatible_slice :: "molecule_library \<Rightarrow> number_codec \<Rightarrow> byte_list \<Rightarrow> PipeIndices vres" where
  "PipeIndices_from_compatible_slice lib num s =
     vbind (reader_from_compatible_slice lib (PipeIndicesReader_verify num) s) (\<lambda>reader. Verified (PipeIndicesReader_to_entity reader))"

section \<open>The vector \<open>BytesReader\<close>\<close>

definition Bytes_total_size :: "number_codec \<Rightarrow> Bytes \<Rightarrow> nat vres" where
  "Bytes_total_size num s = vbind (Bytes_item_count num s) (\<lambda>n. Verified (NUMBER_SIZE + 1 * n))"

definition Bytes_is_empty :: "number_codec \<Rightarrow> Bytes \<Rightarrow> bool vres" where
  "Bytes_is_empty num s = vbind (Bytes_item_count num s) (\<lambda>n. Verified (n = 0))"

definition BytesReader_item_count :: "number_codec \<Rightarrow> byte_list \<Rightarrow> nat vres" where
  "BytesReader_item_count num s = fixvec_item_count num s"

definition BytesReader_total_size :: "number_codec \<Rightarrow> byte_list \<Rightarrow> nat vres" where
  "BytesReader_total_size num s = vbind (BytesReader_item_count num s) (\<lambda>n. Verified (NUMBER_SIZE + 1 * n))"

definition BytesReader_is_empty :: "number_codec \<Rightarrow> byte_list \<Rightarrow> bool vres" where
  "BytesReader_is_empty num s = vbind (BytesReader_item_count num s) (\<lambda>n. Verified (n = 0))"

definition BytesReader_get_unchecked :: "byte_list \<Rightarrow> nat \<Rightarrow> byte_list vres" where
  "BytesReader_get_unchecked s idx = fixvec_get_unchecked 1 s idx"

definition BytesReader_get :: "number_codec \<Rightarrow> byte_list \<Rightarrow> nat \<Rightarrow> byte_list option vres" where
  "BytesReader_get num s idx = checked_get (BytesReader_item_count num s) (BytesReader_get_unchecked s) idx"

definition BytesReader_raw_data :: "byte_list \<Rightarrow> byte_list vres" where
  "BytesReader_raw_data s = slice_from s NUMBER_SIZE"

definition Bytes_iter_len :: "bool \<Rightarrow> nat \<times> nat \<Rightarrow> nat vres" where
  "Bytes_iter_len chk it = usize_sub chk (snd it) (fst it)"

definition BytesBuilder_set :: "u8 list \<Rightarrow> u8 list \<Rightarrow> u8 list" where
  "BytesBuilder_set b v = v"

definition Bytes_default :: "Bytes" where
  "Bytes_default = Bytes_DEFAULT_VALUE"

definition Bytes_as_reader :: "Bytes \<Rightarrow> byte_list" where
  "Bytes_as_reader s = s"

definition BytesReader_to_entity :: "byte_list \<Rightarrow> Bytes" where
  "BytesReader_to_entity s = s"

definition Bytes_from_slice :: "molecule_library \<Rightarrow> number_codec \<Rightarrow> byte_list \<Rightarrow> Bytes vres" where
  "Bytes_from_slice lib num s =
     vbind (reader_from_slice lib (BytesReader_verify num) s) (\<lambda>reader. Verified (BytesReader_to_entity reader))"

definition Bytes_from_compatible_slice :: "molecule_library \<Rightarrow> number_codec \<Rightarrow> byte_list \<Rightarrow> Bytes vres" where
  "Bytes_from_compatible_slice lib num s =
     vbind (reader_from_compatible_slice lib (BytesReader_verify num) s) (\<lambda>reader. Verified (BytesReader_to_entity reader))"

section \<open>The table \<open>PipeReader\<close>\<close>

definition PipeReader_total_size :: "number_codec \<Rightarrow> byte_list \<Rightarrow> nat vres" where
  "PipeReader_total_size num s = entity_total_size num s"

definition PipeReader_field_count :: "number_codec \<Rightarrow> byte_list \<Rightarrow> nat vres" where
  "PipeReader_field_count num s = offset_count num s"

definition PipeReader_count_extra_fields :: "number_codec \<Rightarrow> byte_list \<Rightarrow> nat vres" where
  "PipeReader_count_extra_fields num s =
     vbind (PipeReader_field_count num s) (\<lambda>n. usize_sub (checked_arith num) n 3)"

definition PipeReader_has_extra_fields :: "number_codec \<Rightarrow> byte_list \<Rightarrow> bool vres" where
  "PipeReader_has_extra_fields num s = vbind (PipeReader_field_count num s) (\<lambda>n. Verified (3 \<noteq> n))"

definition PipeReader_vm :: "number_codec \<Rightarrow> byte_list \<Rightarrow> byte_list vres" where
  "PipeReader_vm num s = table_field num 3 0 s"

definition PipeReader_read_pipe :: "number_codec \<Rightarrow> byte_list \<Rightarrow> byte_list vres" where
  "PipeReader_read_pipe num s = table_field num 3 1 s"

definition PipeReader_write_pipe :: "number_codec \<Rightarrow> byte_list \<Rightarrow> byte_list vres" where
  "PipeReader_write_pipe num s = table_field num 3 2 s"

definition Pipe_default :: "Pipe" where
  "Pipe_default = Pipe_DEFAULT_VALUE"

definition Pipe_as_reader :: "Pipe \<Rightarrow> byte_list" where
  "Pipe_as_reader s = s"

definition PipeReader_to_entity :: "byte_list \<Rightarrow> Pipe" where
  "PipeReader_to_entity s = s"

definition Pipe_from_slice :: "molecule_library \<Rightarrow> number_codec \<Rightarrow> byte_list \<Rightarrow> Pipe vres" where
  "Pipe_from_slice lib num s =
     vbind (reader_from_slice lib (PipeReader_verify num) s) (\<lambda>reader. Verified (PipeReader_to_entity reader))"

definition Pipe_from_compatible_slice :: "molecule_library \<Rightarrow> number_codec \<Rightarrow> byte_list \<Rightarrow> Pipe vres" where
  "Pipe_from_compatible_slice lib num s =
     vbind (reader_from_compatible_slice lib (PipeReader_verify num) s) (\<lambda>reader. Verified (PipeReader_to_entity reader))"

section \<open>The vector \<open>PipesReader\<close>\<close>

definition Pipes_total_size :: "number_codec \<Rightarrow> Pipes \<Rightarrow> nat vres" where
  "Pipes_total_size num s = entity_total_size num s"

definition Pipes_is_empty :: "number_codec \<Rightarrow> Pipes \<Rightarrow> bool vres" where
  "Pipes_is_empty num s = vbind (Pipes_item_count num s) (\<lambda>n. Verified (n = 0))"

definition PipesReader_item_count :: "number_codec \<Rightarrow> byte_list \<Rightarrow> nat vres" where
  "PipesReader_item_count num s = offset_count num s"

definition PipesReader_total_size :: "number_codec \<Rightarrow> byte_list \<Rightarrow> nat vres" where
  "PipesReader_total_size num s = entity_total_size num s"

definition PipesReader_is_empty :: "number_codec \<Rightarrow> byte_list \<Rightarrow> bool vres" where
  "PipesReader_is_empty num s = vbind (PipesReader_item_count num s) (\<lambda>n. Verified (n = 0))"

definition PipesReader_get_unchecked :: "number_codec \<Rightarrow> byte_list \<Rightarrow> nat \<Rightarrow> byte_list vres" where
  "PipesReader_get_unchecked num s idx = dynvec_get_unchecked num s idx"

definition PipesReader_get :: "number_codec \<Rightarrow> byte_list \<Rightarrow> nat \<Rightarrow> byte_list option vres" where
  "PipesReader_get num s idx = checked_get (PipesReader_item_count num s) (PipesReader_get_unchecked num s) idx"

definition PipesReader_iter :: "number_codec \<Rightarrow> byte_list \<Rightarrow> (nat \<times> nat) vres" where
  "PipesReader_iter num s = vbind (PipesReader_item_count num s) (\<lambda>n. Verified (0, n))"

definition PipesReader_iter_next :: "number_codec \<Rightarrow> byte_list \<Rightarrow> nat \<times> nat \<Rightarrow> (byte_list option \<times> nat \<times> nat) vres" where
  "PipesReader_iter_next num s it = iter_next (PipesReader_get_unchecked num s) it"

definition PipesReader_iter_len :: "bool \<Rightarrow> nat \<times> nat \<Rightarrow> nat vres" where
  "PipesReader_iter_len chk it = usize_sub chk (snd it) (fst it)"

definition Pipes_iter_len :: "bool \<Rightarrow> nat \<times> nat \<Rightarrow> nat vres" where
  "Pipes_iter_len chk it = usize_sub chk (snd it) (fst it)"

definition PipesBuilder_set :: "Pipe list \<Rightarrow> Pipe list \<Rightarrow> Pipe list" where
  "PipesBuilder_set b v = v"

definition Pipes_default :: "Pipes" where
  "Pipes_default = Pipes_DEFAULT_VALUE"

definition Pipes_as_reader :: "Pipes \<Rightarrow> byte_list" where
  "Pipes_as_reader s = s"

definition PipesReader_to_entity :: "byte_list \<Rightarrow> Pipes" where
  "PipesReader_to_entity s = s"

definition Pipes_from_slice :: "molecule_library \<Rightarrow> number_codec \<Rightarrow> byte_list \<Rightarrow> Pipes vres" where
  "Pipes_from_slice lib num s =
     vbind (reader_from_slice lib (PipesReader_verify num) s) (\<lambda>reader. Verified (PipesReader_to_entity reader))"

definition Pipes_from_compatible_slice :: "molecule_library \<Rightarrow> number_codec \<Rightarrow> byte_list \<Rightarrow> Pipes vres" where
  "Pipes_from_compatible_slice lib num s =
     vbind (reader_from_compatible_slice lib (PipesReader_verify num) s) (\<lambda>reader. Verified (PipesReader_to_entity reader))"

section \<open>The table \<open>WriteReader\<close>\<close>

definition WriteReader_total_size :: "number_codec \<Rightarrow> byte_list \<Rightarrow> nat vres" where
  "WriteReader_total_size num s = entity_total_size num s"

definition WriteReader_field_count :: "number_codec \<Rightarrow> byte_list \<Rightarrow> nat vres" where
  "WriteReader_field_count num s = offset_count num s"

definition WriteReader_count_extra_fields :: "number_codec \<Rightarrow> byte_list \<Rightarrow> nat vres" where
  "WriteReader_count_extra_fields num s =
     vbind (WriteReader_field_count num s) (\<lambda>n. usize_sub (checked_arith num) n 5)"

definition WriteReader_has_extra_fields :: "number_codec \<Rightarrow> byte_list \<Rightarrow> bool vres" where
  "WriteReader_has_extra_fields num s = vbind (WriteReader_field_count num s) (\<lambda>n. Verified (5 \<noteq> n))"

definition WriteReader_from :: "number_codec \<Rightarrow> byte_list \<Rightarrow> byte_list vres" where
  "WriteReader_from num s = table_field num 5 0 s"

definition WriteReader_from_pipe :: "number_codec \<Rightarrow> byte_list \<Rightarrow> byte_list vres" where
  "WriteReader_from_pipe num s = table_field num 5 1 s"

definition WriteReader_to :: "number_codec \<Rightarrow> byte_list \<Rightarrow> byte_list vres" where
  "WriteReader_to num s = table_field num 5 2 s"

definition WriteReader_to_pipe :: "number_codec \<Rightarrow> byte_list \<Rightarrow> byte_list vres" where
  "WriteReader_to_pipe num s = table_field num 5 3 s"

definition WriteReader_data :: "number_codec \<Rightarrow> byte_list \<Rightarrow> byte_list vres" where
  "WriteReader_data num s = table_field num 5 4 s"

definition Write_default :: "Write" where
  "Write_default = Write_DEFAULT_VALUE"

definition Write_as_reader :: "Write \<Rightarrow> byte_list" where
  "Write_as_reader s = s"

definition WriteReader_to_entity :: "byte_list \<Rightarrow> Write" where
  "WriteReader_to_entity s = s"

definition Write_from_slice :: "molecule_library \<Rightarrow> number_codec \<Rightarrow> byte_list \<Rightarrow> Write vres" where
  "Write_from_slice lib num s =
     vbind (reader_from_slice lib (WriteReader_verify num) s) (\<lambda>reader. Verified (WriteReader_to_entity reader))"

definition Write_from_compatible_slice :: "molecule_library \<Rightarrow> number_codec \<Rightarrow> byte_list \<Rightarrow> Write vres" where
  "Write_from_compatible_slice lib num s =
     vbind (reader_from_compatible_slice lib (WriteReader_verify num) s) (\<lambda>reader. Verified (WriteReader_to_entity reader))"

section \<open>The vector \<open>WritesReader\<close>\<close>

definition Writes_total_size :: "number_codec \<Rightarrow> Writes \<Rightarrow> nat vres" where
  "Writes_total_size num s = entity_total_size num s"

definition Writes_is_empty :: "number_codec \<Rightarrow> Writes \<Rightarrow> bool vres" where
  "Writes_is_empty num s = vbind (Writes_item_count num s) (\<lambda>n. Verified (n = 0))"

definition WritesReader_item_count :: "number_codec \<Rightarrow> byte_list \<Rightarrow> nat vres" where
  "WritesReader_item_count num s = offset_count num s"

definition WritesReader_total_size :: "number_codec \<Rightarrow> byte_list \<Rightarrow> nat vres" where
  "WritesReader_total_size num s = entity_total_size num s"

definition WritesReader_is_empty :: "number_codec \<Rightarrow> byte_list \<Rightarrow> bool vres" where
  "WritesReader_is_empty num s = vbind (WritesReader_item_count num s) (\<lambda>n. Verified (n = 0))"

definition WritesReader_get_unchecked :: "number_codec \<Rightarrow> byte_list \<Rightarrow> nat \<Rightarrow> byte_list vres" where
  "WritesReader_get_unchecked num s idx = dynvec_get_unchecked num s idx"

definition WritesReader_get :: "number_codec \<Rightarrow> byte_list \<Rightarrow> nat \<Rightarrow> byte_list option vres" where
  "WritesReader_get num s idx = checked_get (WritesReader_item_count num s) (WritesReader_get_unchecked num s) idx"

definition WritesReader_iter :: "number_codec \<Rightarrow> byte_list \<Rightarrow> (nat \<times> nat) vres" where
  "WritesReader_iter num s = vbind (WritesReader_item_count num s) (\<lambda>n. Verified (0, n))"

definition WritesReader_iter_next :: "number_codec \<Rightarrow> byte_list \<Rightarrow> nat \<times> nat \<Rightarrow> (byte_list option \<times> nat \<times> nat) vres" where
  "WritesReader_iter_next num s it = iter_next (WritesReader_get_unchecked num s) it"

definition WritesReader_iter_len :: "bool \<Rightarrow> nat \<times> nat \<Rightarrow> nat vres" where
  "WritesReader_iter_len chk it = usize_sub chk (snd it) (fst it)"

definition Writes_iter_len :: "bool \<Rightarrow> nat \<times> nat \<Rightarrow> nat vres" where
  "Writes_iter_len chk it = usize_sub chk (snd it) (fst it)"

definition WritesBuilder_set :: "Write list \<Rightarrow> Write list \<Rightarrow> Write list" where
  "WritesBuilder_set b v = v"

definition Writes_default :: "Writes" where
  "Writes_default = Writes_DEFAULT_VALUE"

definition Writes_as_reader :: "Writes \<Rightarrow> byte_list" where
  "Writes_as_reader s = s"

definition WritesReader_to_entity :: "byte_list \<Rightarrow> Writes" where
  "WritesReader_to_entity s = s"

definition Writes_from_slice :: "molecule_library \<Rightarrow> number_codec \<Rightarrow> byte_list \<Rightarrow> Writes vres" where
  "Writes_from_slice lib num s =
     vbind (reader_from_slice lib (WritesReader_verify num) s) (\<lambda>reader. Verified (WritesReader_to_entity reader))"

definition Writes_from_compatible_slice :: "molecule_library \<Rightarrow> number_codec \<Rightarrow> byte_list \<Rightarrow> Writes vres" where
  "Writes_from_compatible_slice lib num s =
     vbind (reader_from_compatible_slice lib (WritesReader_verify num) s) (\<lambda>reader. Verified (WritesReader_to_entity reader))"

section \<open>The table \<open>SpawnReader\<close>\<close>

definition SpawnReader_total_size :: "number_codec \<Rightarrow> byte_list \<Rightarrow> nat vres" where
  "SpawnReader_total_size num s = entity_total_size num s"

definition SpawnReader_field_count :: "number_codec \<Rightarrow> byte_list \<Rightarrow> nat vres" where
  "SpawnReader_field_count num s = offset_count num s"

definition SpawnReader_count_extra_fields :: "number_codec \<Rightarrow> byte_list \<Rightarrow> nat vres" where
  "SpawnReader_count_extra_fields num s =
     vbind (SpawnReader_field_count num s) (\<lambda>n. usize_sub (checked_arith num) n 3)"

definition SpawnReader_has_extra_fields :: "number_codec \<Rightarrow> byte_list \<Rightarrow> bool vres" where
  "SpawnReader_has_extra_fields num s = vbind (SpawnReader_field_count num s) (\<lambda>n. Verified (3 \<noteq> n))"

definition SpawnReader_from :: "number_codec \<Rightarrow> byte_list \<Rightarrow> byte_list vres" where
  "SpawnReader_from num s = table_field num 3 0 s"

definition SpawnReader_child :: "number_codec \<Rightarrow> byte_list \<Rightarrow> byte_list vres" where
  "SpawnReader_child num s = table_field num 3 1 s"

definition SpawnReader_pipes :: "number_codec \<Rightarrow> byte_list \<Rightarrow> byte_list vres" where
  "SpawnReader_pipes num s = table_field num 3 2 s"

definition Spawn_default :: "Spawn" where
  "Spawn_default = Spawn_DEFAULT_VALUE"

definition Spawn_as_reader :: "Spawn \<Rightarrow> byte_list" where
  "Spawn_as_reader s = s"

definition SpawnReader_to_entity :: "byte_list \<Rightarrow> Spawn" where
  "SpawnReader_to_entity s = s"

definition Spawn_from_slice :: "molecule_library \<Rightarrow> number_codec \<Rightarrow> byte_list \<Rightarrow> Spawn vres" where
  "Spawn_from_slice lib num s =
     vbind (reader_from_slice lib (SpawnReader_verify num) s) (\<lambda>reader. Verified (SpawnReader_to_entity reader))"

definition Spawn_from_compatible_slice :: "molecule_library \<Rightarrow> number_codec \<Rightarrow> byte_list \<Rightarrow> Spawn vres" where
  "Spawn_from_compatible_slice lib num s =
     vbind (reader_from_compatible_slice lib (SpawnReader_verify num) s) (\<lambda>reader. Verified (SpawnReader_to_entity reader))"

section \<open>The vector \<open>SpawnsReader\<close>\<close>

definition Spawns_total_size :: "number_codec \<Rightarrow> Spawns \<Rightarrow> nat vres" where
  "Spawns_total_size num s = entity_total_size num s"

definition Spawns_is_empty :: "number_codec \<Rightarrow> Spawns \<Rightarrow> bool vres" where
  "Spawns_is_empty num s = vbind (Spawns_item_count num s) (\<lambda>n. Verified (n = 0))"

definition SpawnsReader_item_count :: "number_codec \<Rightarrow> byte_list \<Rightarrow> nat vres" where
  "SpawnsReader_item_count num s = offset_count num s"

definition SpawnsReader_total_size :: "number_codec \<Rightarrow> byte_list \<Rightarrow> nat vres" where
  "SpawnsReader_total_size num s = entity_total_size num s"

definition SpawnsReader_is_empty :: "number_codec \<Rightarrow> byte_list \<Rightarrow> bool vres" where
  "SpawnsReader_is_empty num s = vbind (SpawnsReader_item_count num s) (\<lambda>n. Verified (n = 0))"

definition SpawnsReader_get_unchecked :: "number_codec \<Rightarrow> byte_list \<Rightarrow> nat \<Rightarrow> byte_list vres" where
  "SpawnsReader_get_unchecked num s idx = dynvec_get_unchecked num s idx"

definition SpawnsReader_get :: "number_codec \<Rightarrow> byte_list \<Rightarrow> nat \<Rightarrow> byte_list option vres" where
  "SpawnsReader_get num s idx = checked_get (SpawnsReader_item_count num s) (SpawnsReader_get_unchecked num s) idx"

definition SpawnsReader_iter :: "number_codec \<Rightarrow> byte_list \<Rightarrow> (nat \<times> nat) vres" where
  "SpawnsReader_iter num s = vbind (SpawnsReader_item_count num s) (\<lambda>n. Verified (0, n))"

definition SpawnsReader_iter_next :: "number_codec \<Rightarrow> byte_list \<Rightarrow> nat \<times> nat \<Rightarrow> (byte_list option \<times> nat \<times> nat) vres" where
  "SpawnsReader_iter_next num s it = iter_next (SpawnsReader_get_unchecked num s) it"

definition SpawnsReader_iter_len :: "bool \<Rightarrow> nat \<times> nat \<Rightarrow> nat vres" where
  "SpawnsReader_iter_len chk it = usize_sub chk (snd it) (fst it)"

definition Spawns_iter_len :: "bool \<Rightarrow> nat \<times> nat \<Rightarrow> nat vres" where
  "Spawns_iter_len chk it = usize_sub chk (snd it) (fst it)"

definition SpawnsBuilder_set :: "Spawn list \<Rightarrow> Spawn list \<Rightarrow> Spawn list" where
  "SpawnsBuilder_set b v = v"

definition Spawns_default :: "Spawns" where
  "Spawns_default = Spawns_DEFAULT_VALUE"

definition Spawns_as_reader :: "Spawns \<Rightarrow> byte_list" where
  "Spawns_as_reader s = s"

definition SpawnsReader_to_entity :: "byte_list \<Rightarrow> Spawns" where
  "SpawnsReader_to_entity s = s"

definition Spawns_from_slice :: "molecule_library \<Rightarrow> number_codec \<Rightarrow> byte_list \<Rightarrow> Spawns vres" where
  "Spawns_from_slice lib num s =
     vbind (reader_from_slice lib (SpawnsReader_verify num) s) (\<lambda>reader. Verified (SpawnsReader_to_entity reader))"

definition Spawns_from_compatible_slice :: "molecule_library \<Rightarrow> number_codec \<Rightarrow> byte_list \<Rightarrow> Spawns vres" where
  "Spawns_from_compatible_slice lib num s =
     vbind (reader_from_compatible_slice lib (SpawnsReader_verify num) s) (\<lambda>reader. Verified (SpawnsReader_to_entity reader))"

section \<open>The table \<open>DataReader\<close>\<close>

definition DataReader_total_size :: "number_codec \<Rightarrow> byte_list \<Rightarrow> nat vres" where
  "DataReader_total_size num s = entity_total_size num s"

definition DataReader_field_count :: "number_codec \<Rightarrow> byte_list \<Rightarrow> nat vres" where
  "DataReader_field_count num s = offset_count num s"

definition DataReader_count_extra_fields :: "number_codec \<Rightarrow> byte_list \<Rightarrow> nat vres" where
  "DataReader_count_extra_fields num s =
     vbind (DataReader_field_count num s) (\<lambda>n. usize_sub (checked_arith num) n 3)"

definition DataReader_has_extra_fields :: "number_codec \<Rightarrow> byte_list \<Rightarrow> bool vres" where
  "DataReader_has_extra_fields num s = vbind (DataReader_field_count num s) (\<lambda>n. Verified (3 \<noteq> n))"

definition DataReader_spawns :: "number_codec \<Rightarrow> byte_list \<Rightarrow> byte_list vres" where
  "DataReader_spawns num s = table_field num 3 0 s"

definition DataReader_pipes :: "number_codec \<Rightarrow> byte_list \<Rightarrow> byte_list vres" where
  "DataReader_pipes num s = table_field num 3 1 s"

definition DataReader_writes :: "number_codec \<Rightarrow> byte_list \<Rightarrow> byte_list vres" where
  "DataReader_writes num s = table_field num 3 2 s"

definition Data_default :: "Data" where
  "Data_default = Data_DEFAULT_VALUE"

definition Data_as_reader :: "Data \<Rightarrow> byte_list" where
  "Data_as_reader s = s"

definition DataReader_to_entity :: "byte_list \<Rightarrow> Data" where
  "DataReader_to_entity s = s"

definition Data_from_slice :: "molecule_library \<Rightarrow> number_codec \<Rightarrow> byte_list \<Rightarrow> Data vres" where
  "Data_from_slice lib num s =
     vbind (reader_from_slice lib (DataReader_verify num) s) (\<lambda>reader. Verified (DataReader_to_entity reader))"

definition Data_from_compatible_slice :: "molecule_library \<Rightarrow> number_codec \<Rightarrow> byte_list \<Rightarrow> Data vres" where
  "Data_from_compatible_slice lib num s =
     vbind (reader_from_compatible_slice lib (DataReader_verify num) s) (\<lambda>reader. Verified (DataReader_to_entity reader))"

section \<open>Parts and their types\<close>

text \<open>The types of the schema, with the name of each as its tag.\<close>

datatype entity_type =
    EVmIndex | EPipeIndex | EPipeIndices | EBytes | EPipe | EPipes | EWrite | EWrites | ESpawn | ESpawns | EData

fun verify_as :: "number_codec \<Rightarrow> entity_type \<Rightarrow> verifier" where
  "verify_as num EVmIndex = VmIndexReader_verify"
| "verify_as num EPipeIndex = PipeIndexReader_verify"
| "verify_as num EPipeIndices = PipeIndicesReader_verify num"
| "verify_as num EBytes = BytesReader_verify num"
| "verify_as num EPipe = PipeReader_verify num"
| "verify_as num EPipes = PipesReader_verify num"
| "verify_as num EWrite = WriteReader_verify num"
| "verify_as num EWrites = WritesReader_verify num"
| "verify_as num ESpawn = SpawnReader_verify num"
| "verify_as num ESpawns = SpawnsReader_verify num"
| "verify_as num EData = DataReader_verify num"

text \<open>What \<open>get_unchecked\<close> gives for every index below the count, and what the getters of a table give.\<close>

definition items_of :: "entity_type \<Rightarrow> nat vres \<Rightarrow> (nat \<Rightarrow> byte_list vres) \<Rightarrow> (entity_type \<times> byte_list) list vres" where
  "items_of t count get = vbind count (\<lambda>n. vbind (vmap get [0..<n]) (\<lambda>ps. Verified (map (Pair t) ps)))"

definition fields_of :: "(entity_type \<times> byte_list vres) list \<Rightarrow> (entity_type \<times> byte_list) list vres" where
  "fields_of fs = vmap (\<lambda>(t, r). vbind r (\<lambda>p. Verified (t, p))) fs"

fun parts_of :: "number_codec \<Rightarrow> entity_type \<Rightarrow> byte_list \<Rightarrow> (entity_type \<times> byte_list) list vres" where
  "parts_of num EVmIndex s = vbind (vmap (VmIndexReader_nth s) [0, 1, 2, 3, 4, 5, 6, 7]) (\<lambda>_. Verified [])"
| "parts_of num EPipeIndex s = vbind (vmap (PipeIndexReader_nth s) [0, 1, 2, 3, 4, 5, 6, 7]) (\<lambda>_. Verified [])"
| "parts_of num EPipeIndices s = items_of EPipeIndex (PipeIndicesReader_item_count num s) (PipeIndicesReader_get_unchecked s)"
| "parts_of num EBytes s = vbind (BytesReader_item_count num s) (\<lambda>n.
     vbind (vmap (BytesReader_get_unchecked s) [0..<n]) (\<lambda>_. vbind (BytesReader_raw_data s) (\<lambda>_. Verified [])))"
| "parts_of num EPipe s = fields_of [(EVmIndex, PipeReader_vm num s), (EPipeIndex, PipeReader_read_pipe num s),
     (EPipeIndex, PipeReader_write_pipe num s)]"
| "parts_of num EPipes s = items_of EPipe (PipesReader_item_count num s) (PipesReader_get_unchecked num s)"
| "parts_of num EWrite s = fields_of [(EVmIndex, WriteReader_from num s), (EPipeIndex, WriteReader_from_pipe num s),
     (EVmIndex, WriteReader_to num s), (EPipeIndex, WriteReader_to_pipe num s), (EBytes, WriteReader_data num s)]"
| "parts_of num EWrites s = items_of EWrite (WritesReader_item_count num s) (WritesReader_get_unchecked num s)"
| "parts_of num ESpawn s = fields_of [(EVmIndex, SpawnReader_from num s), (EVmIndex, SpawnReader_child num s),
     (EPipeIndices, SpawnReader_pipes num s)]"
| "parts_of num ESpawns s = items_of ESpawn (SpawnsReader_item_count num s) (SpawnsReader_get_unchecked num s)"
| "parts_of num EData s = fields_of [(ESpawns, DataReader_spawns num s), (EPipes, DataReader_pipes num s),
     (EWrites, DataReader_writes num s)]"

text \<open>Everything that can be reached from a value by getters.\<close>

inductive part_in :: "number_codec \<Rightarrow> entity_type \<times> byte_list \<Rightarrow> entity_type \<times> byte_list \<Rightarrow> bool"
  for num :: number_codec and whole :: "entity_type \<times> byte_list" where
  itself: "part_in num whole whole"
| getter: "part_in num whole (t, s) \<Longrightarrow> parts_of num t s = Verified ps \<Longrightarrow> p \<in> set ps \<Longrightarrow> part_in num whole p"

lemma vmap_all:
  "\<forall>x \<in> set xs. \<exists>y. f x = Verified y \<and> P y \<Longrightarrow> \<exists>ys. vmap f xs = Verified ys \<and> (\<forall>y \<in> set ys. P y)"
  by (induction xs) (simp, fastforce)

lemma vmap_total: "(\<And>x. x \<in> set xs \<Longrightarrow> \<exists>y. f x = Verified y) \<Longrightarrow> \<exists>ys. vmap f xs = Verified ys"
  using vmap_all [of xs f "\<lambda>_. True"] by auto

text \<open>\<open>well_parted\<close>: the getters return, and what they return is verified.\<close>

definition well_parted :: "number_codec \<Rightarrow> bool \<Rightarrow> (entity_type \<times> byte_list) list vres \<Rightarrow> bool" where
  "well_parted num c r \<longleftrightarrow> (\<exists>ps. r = Verified ps \<and> (\<forall>(t, p) \<in> set ps. verify_as num t p c = Verified ()))"

lemma well_parted_nothing: "\<forall>x \<in> set xs. \<exists>y. f x = Verified y \<Longrightarrow> well_parted num c (vbind (vmap f xs) (\<lambda>_. Verified []))"
  using vmap_all [of xs f "\<lambda>_. True"] by (auto simp: well_parted_def)

lemma well_parted_items:
  assumes "count = Verified n" and "\<And>i. i < n \<Longrightarrow> \<exists>p. get i = Verified p \<and> verify_as num t p c = Verified ()"
  shows "well_parted num c (items_of t count get)"
proof -
  obtain ps where "vmap get [0..<n] = Verified ps" "\<forall>p \<in> set ps. verify_as num t p c = Verified ()"
    using vmap_all [of "[0..<n]" get "\<lambda>p. verify_as num t p c = Verified ()"] assms(2) by auto
  then show ?thesis
    by (auto simp: well_parted_def items_of_def assms(1))
qed

lemma well_parted_fields:
  assumes "\<And>t r. (t, r) \<in> set fs \<Longrightarrow> \<exists>p. r = Verified p \<and> verify_as num t p c = Verified ()"
  shows "well_parted num c (fields_of fs)"
  unfolding well_parted_def fields_of_def
  by (rule vmap_all) (use assms in fastforce)

lemma array_parts:
  assumes "array_verify name 8 s c = Verified ()"
  shows "\<forall>i \<in> set [0, 1, 2, 3, 4, 5, 6, 7]. \<exists>p. slice_of s i (i + 1) = Verified p"
  using assms by (simp add: array_verify_def slice_of_def split: if_splits)

context number_format
begin

lemma fixvec_parts:
  assumes "fixvec_verify num name k s c = Verified ()"
  obtains n where "fixvec_item_count num s = Verified n"
    and "\<And>i. i < n \<Longrightarrow> \<exists>p. fixvec_get_unchecked k s i = Verified p \<and> length p = k"
  using fixvec_items [OF assms] by (metis nth_mem)

lemma dynvec_parts:
  assumes "dynvec_verify num name V s c = Verified ()"
  obtains n where "offset_count num s = Verified n"
    and "\<And>i. i < n \<Longrightarrow> \<exists>p. dynvec_get_unchecked num s i = Verified p \<and> V p c = Verified ()"
  using dynvec_items [OF assms] by (metis nth_mem)

text \<open>One lemma per shape: verified bytes have well-typed parts.\<close>

lemma dynvec_typed:
  assumes "dynvec_verify num name (verify_as num t) s c = Verified ()"
  shows "well_parted num c (items_of t (offset_count num s) (dynvec_get_unchecked num s))"
  by (rule dynvec_parts [OF assms]) (rule well_parted_items)

lemma fixvec_typed:
  assumes "fixvec_verify num name 8 s c = Verified ()"
  shows "well_parted num c (items_of EPipeIndex (fixvec_item_count num s) (fixvec_get_unchecked 8 s))"
proof -
  obtain n where "fixvec_item_count num s = Verified n"
      "\<And>i. i < n \<Longrightarrow> \<exists>p. fixvec_get_unchecked 8 s i = Verified p \<and> length p = 8"
    by (rule fixvec_parts [OF assms]) blast
  then show ?thesis
    by (intro well_parted_items) (auto simp: PipeIndexReader_verify_def array_verify_def)
qed

lemma table_three_typed:
  assumes "table_verify num name [verify_as num t1, verify_as num t2, verify_as num t3] s c = Verified ()"
  shows "well_parted num c (fields_of [(t1, table_field num 3 0 s), (t2, table_field num 3 1 s), (t3, table_field num 3 2 s)])"
  by (rule table_three [OF assms], rule well_parted_fields) auto

lemma table_five_typed:
  assumes "table_verify num name [verify_as num t1, verify_as num t2, verify_as num t3, verify_as num t4, verify_as num t5] s c
    = Verified ()"
  shows "well_parted num c (fields_of [(t1, table_field num 5 0 s), (t2, table_field num 5 1 s), (t3, table_field num 5 2 s),
    (t4, table_field num 5 3 s), (t5, table_field num 5 4 s)])"
  by (rule table_five [OF assms], rule well_parted_fields) auto

lemma indices_typed:
  "VmIndexReader_verify s c = Verified () \<Longrightarrow> well_parted num c (parts_of num EVmIndex s)"
  "PipeIndexReader_verify s c = Verified () \<Longrightarrow> well_parted num c (parts_of num EPipeIndex s)"
  using array_parts unfolding parts_of.simps
  by (intro well_parted_nothing; simp add: VmIndexReader_verify_def VmIndexReader_nth_def PipeIndexReader_verify_def
      PipeIndexReader_nth_def)+

lemma bytes_typed:
  assumes "BytesReader_verify num s c = Verified ()"
  shows "well_parted num c (parts_of num EBytes s)"
proof -
  note v = assms [unfolded BytesReader_verify_def]
  obtain n where n: "fixvec_item_count num s = Verified n"
      "\<And>i. i < n \<Longrightarrow> \<exists>p. fixvec_get_unchecked 1 s i = Verified p \<and> length p = 1"
    by (rule fixvec_parts [OF v]) blast
  have "\<exists>p. fixvec_get_unchecked 1 s i = Verified p" if "i \<in> set [0..<n]" for i
    using n(2) [of i] that by auto
  then obtain ps where "vmap (fixvec_get_unchecked 1 s) [0..<n] = Verified ps"
    using vmap_total [of "[0..<n]" "fixvec_get_unchecked 1 s"] by blast
  moreover have "4 \<le> length s"
    using v unfolding fixvec_verify_ok by blast
  ultimately show ?thesis
    by (simp add: well_parted_def BytesReader_item_count_def BytesReader_get_unchecked_def [abs_def]
        BytesReader_raw_data_def slice_from_def n(1))
qed

lemmas vector_getters = PipeIndicesReader_item_count_def PipeIndicesReader_get_unchecked_def PipesReader_item_count_def
  PipesReader_get_unchecked_def WritesReader_item_count_def WritesReader_get_unchecked_def SpawnsReader_item_count_def
  SpawnsReader_get_unchecked_def

lemmas table_getters = PipeReader_vm_def PipeReader_read_pipe_def PipeReader_write_pipe_def SpawnReader_from_def
  SpawnReader_child_def SpawnReader_pipes_def WriteReader_from_def WriteReader_from_pipe_def WriteReader_to_def
  WriteReader_to_pipe_def WriteReader_data_def DataReader_spawns_def DataReader_pipes_def DataReader_writes_def

lemmas vector_verifiers = PipeIndicesReader_verify_def PipesReader_verify_def WritesReader_verify_def SpawnsReader_verify_def
lemmas table_verifiers = PipeReader_verify_def WriteReader_verify_def SpawnReader_verify_def DataReader_verify_def

lemma getters_typed: "verify_as num t s c = Verified () \<Longrightarrow> well_parted num c (parts_of num t s)"
proof (cases t)
  case EPipe
  then show "verify_as num t s c = Verified () \<Longrightarrow> well_parted num c (parts_of num t s)"
    using table_three_typed [of _ EVmIndex EPipeIndex EPipeIndex] by (auto simp: table_verifiers table_getters)
next
  case EWrite
  then show "verify_as num t s c = Verified () \<Longrightarrow> well_parted num c (parts_of num t s)"
    using table_five_typed [of _ EVmIndex EPipeIndex EVmIndex EPipeIndex EBytes] by (auto simp: table_verifiers table_getters)
next
  case ESpawn
  then show "verify_as num t s c = Verified () \<Longrightarrow> well_parted num c (parts_of num t s)"
    using table_three_typed [of _ EVmIndex EVmIndex EPipeIndices] by (auto simp: table_verifiers table_getters)
next
  case EData
  then show "verify_as num t s c = Verified () \<Longrightarrow> well_parted num c (parts_of num t s)"
    using table_three_typed [of _ ESpawns EPipes EWrites] by (auto simp: table_verifiers table_getters)
next
  case EPipeIndices
  then show "verify_as num t s c = Verified () \<Longrightarrow> well_parted num c (parts_of num t s)"
    using fixvec_typed by (simp add: vector_verifiers vector_getters [abs_def])
next
  case EPipes
  then show "verify_as num t s c = Verified () \<Longrightarrow> well_parted num c (parts_of num t s)"
    using dynvec_typed [of _ EPipe] by (simp add: vector_verifiers vector_getters [abs_def])
next
  case EWrites
  then show "verify_as num t s c = Verified () \<Longrightarrow> well_parted num c (parts_of num t s)"
    using dynvec_typed [of _ EWrite] by (simp add: vector_verifiers vector_getters [abs_def])
next
  case ESpawns
  then show "verify_as num t s c = Verified () \<Longrightarrow> well_parted num c (parts_of num t s)"
    using dynvec_typed [of _ ESpawn] by (simp add: vector_verifiers vector_getters [abs_def])
qed (simp_all only: verify_as.simps indices_typed bytes_typed)

lemma reached_typed:
  "part_in num whole p \<Longrightarrow> verify_as num (fst whole) (snd whole) c = Verified () \<Longrightarrow> verify_as num (fst p) (snd p) c = Verified ()"
proof (induction rule: part_in.induct)
  case (getter t s ps p)
  then show ?case
    using getters_typed [of t s c] by (cases p) (auto simp: well_parted_def)
qed

end

section \<open>Properties of the readers\<close>

text \<open>
  C33: typing of the getters, for all types of the schema: every part that can be reached from verified
  bytes by any number of getters is itself verified as a value of its type, in the same mode, and all
  of its own getters return, for every index below its count. So no getter panics anywhere below
  verified data.
\<close>

theorem reachable_parts_typed:
  assumes "number_format num" and "verify_as num t s c = Verified ()" and "part_in num (t, s) (t', p)"
  shows "verify_as num t' p c = Verified () \<and> (\<exists>ps. parts_of num t' p = Verified ps)"
  using number_format.reached_typed [OF assms(1,3), of c] number_format.getters_typed [OF assms(1), of t' p c] assms(2)
  by (auto simp: well_parted_def)

lemma demo_parts:
  obtains ps where "DataReader_pipes (le_codec True) demo_data = Verified ps"
    and "part_in (le_codec True) (EData, demo_data) (EPipes, ps)"
proof -
  have "verify_as (le_codec True) EData demo_data False = Verified ()"
    using demo_data_ok(1) by simp
  then obtain xs where xs: "parts_of (le_codec True) EData demo_data = Verified xs"
    using le.getters_typed by (fastforce simp: well_parted_def)
  then obtain ss ps ws where "DataReader_pipes (le_codec True) demo_data = Verified ps"
      "xs = [(ESpawns, ss), (EPipes, ps), (EWrites, ws)]"
    by (cases "DataReader_spawns (le_codec True) demo_data"; cases "DataReader_pipes (le_codec True) demo_data";
        cases "DataReader_writes (le_codec True) demo_data") (auto simp: fields_of_def)
  then show thesis
    using that part_in.getter [OF part_in.itself xs] by simp
qed

theorem reachable_parts_typed_witness:
  "\<exists>ps. DataReader_pipes (le_codec True) demo_data = Verified ps \<and> PipesReader_verify (le_codec True) ps True = Verified ()"
proof -
  obtain ps where ps: "DataReader_pipes (le_codec True) demo_data = Verified ps"
      "part_in (le_codec True) (EData, demo_data) (EPipes, ps)"
    by (rule demo_parts)
  then show ?thesis
    using reachable_parts_typed [OF le.number_format_axioms _ ps(2), of True] demo_data_ok(1) by simp
qed

text \<open>
  C34: \<open>from_slice\<close> accepts exactly what the builders write: for bytes that fit the 32-bit size field, it
  returns them if and only if they are the encoding of a dataflow; otherwise it returns an error of
  \<open>verify\<close> and never panics.
\<close>

theorem from_slice_accepts_encodings:
  assumes "number_format num" and "molecule_traits lib" and "length s < 2 ^ 32"
  shows "(Data_from_slice lib num s = Verified s \<longleftrightarrow> (\<exists>d. dag_wf d \<and> Data_encode num d = s)) \<and>
    (Data_from_slice lib num s = Verified s \<or> (\<exists>e. Data_from_slice lib num s = Rejected e))"
proof -
  note e = Data_entity [OF assms(1)]
  have r: "Data_from_slice lib num s = vbind (DataReader_verify num s False) (\<lambda>_. Verified s)"
    by (cases "DataReader_verify num s False")
      (simp_all add: Data_from_slice_def molecule_traits.from_slice [OF assms(2)] DataReader_to_entity_def)
  have "DataReader_verify num s False = Verified () \<longleftrightarrow> (\<exists>d. dag_wf d \<and> Data_encode num d = s)"
    using entity.readable [OF e] entity.canonical [OF e] entity.built [OF e] assms(3) by metis
  then show ?thesis
    using entity.no_crash [OF e] by (cases "DataReader_verify num s False") (auto simp: r)
qed

theorem from_slice_accepts_encodings_witness:
  "Data_from_slice molecule_defaults (le_codec True) demo_data = Verified demo_data"
  using from_slice_accepts_encodings [OF le.number_format_axioms defaults.molecule_traits_axioms demo_data_length] demo_dag_wf
  unfolding demo_data_def by blast

end
