(* ===== verification/Dag_Display.thy ===== *)
theory Dag_Display
  imports Dag_Readers
begin

text \<open>
  The printed forms of the ten types of src/dev_utils/dag.rs and of their readers: \<open>LowerHex\<close>, \<open>Debug\<close> and
  \<open>Display\<close>. \<open>hex_string\<close> of the molecule crate is the parameter \<open>hex\<close>. A getter that panics makes
  \<open>Display\<close> panic, so \<open>Display\<close> returns a \<open>vres\<close>.

  The locale \<open>printed\<close> is the contract between \<open>verify\<close>, the reading of a value and its \<open>Display\<close>; one
  lemma per shape lifts it from the items to the whole, up to the dataflow.
\<close>

section \<open>The formatter\<close>

definition digit :: "nat \<Rightarrow> char" where
  "digit n = char_of (48 + n)"

fun decimal :: "nat \<Rightarrow> string" where
  "decimal n = (if n < 10 then [digit n] else decimal (n div 10) @ [digit (n mod 10)])"

declare decimal.simps [simp del]

definition lower_hex :: "(byte_list \<Rightarrow> string) \<Rightarrow> bool \<Rightarrow> byte_list \<Rightarrow> string" where
  "lower_hex hex alternate s = (if alternate then ''0x'' else []) @ hex s"

text \<open>The loop over the indices of a vector: every item but the first is preceded by a comma.\<close>

definition display_items :: "string \<Rightarrow> nat vres \<Rightarrow> (nat \<Rightarrow> string vres) \<Rightarrow> string vres" where
  "display_items name count item = vbind count (\<lambda>n.
     vbind (vmap (\<lambda>i. vbind (item i) (\<lambda>t. Verified (if i = 0 then t else '', '' @ t))) [0..<n]) (\<lambda>ts.
     Verified (name @ '' ['' @ concat ts @ '']'')))"

text \<open>The fields of a table with their labels, and how many unknown fields follow.\<close>

fun comma_separated :: "string list \<Rightarrow> string" where
  "comma_separated [] = []"
| "comma_separated [t] = t"
| "comma_separated (t # ts) = t @ '', '' @ comma_separated ts"

definition display_fields :: "string \<Rightarrow> (string \<times> string vres) list \<Rightarrow> nat vres \<Rightarrow> string vres" where
  "display_fields name labelled extra =
     vbind (vmap (\<lambda>(label, r). vbind r (\<lambda>t. Verified (label @ '': '' @ t))) labelled) (\<lambda>ts.
     vbind extra (\<lambda>extra_count.
     Verified (name @ '' { '' @ comma_separated ts
       @ (if extra_count \<noteq> 0 then '', .. ('' @ decimal extra_count @ '' fields)'' else []) @ '' }'')))"

section \<open>The owned types\<close>

definition VmIndex_LowerHex :: "(byte_list \<Rightarrow> string) \<Rightarrow> bool \<Rightarrow> byte_list \<Rightarrow> string" where
  "VmIndex_LowerHex hex alternate s = lower_hex hex alternate s"

definition VmIndex_Debug :: "(byte_list \<Rightarrow> string) \<Rightarrow> byte_list \<Rightarrow> string" where
  "VmIndex_Debug hex s = ''VmIndex'' @ ''('' @ VmIndex_LowerHex hex True s @ '')''"

definition VmIndex_Display :: "(byte_list \<Rightarrow> string) \<Rightarrow> byte_list \<Rightarrow> string vres" where
  "VmIndex_Display hex s = Verified (''VmIndex'' @ ''(0x'' @ hex (VmIndex_raw_data s) @ '')'')"

definition PipeIndex_LowerHex :: "(byte_list \<Rightarrow> string) \<Rightarrow> bool \<Rightarrow> byte_list \<Rightarrow> string" where
  "PipeIndex_LowerHex hex alternate s = lower_hex hex alternate s"

definition PipeIndex_Debug :: "(byte_list \<Rightarrow> string) \<Rightarrow> byte_list \<Rightarrow> string" where
  "PipeIndex_Debug hex s = ''PipeIndex'' @ ''('' @ PipeIndex_LowerHex hex True s @ '')''"

definition PipeIndex_Display :: "(byte_list \<Rightarrow> string) \<Rightarrow> byte_list \<Rightarrow> string vres" where
  "PipeIndex_Display hex s = Verified (''PipeIndex'' @ ''(0x'' @ hex (PipeIndex_raw_data s) @ '')'')"

definition PipeIndices_LowerHex :: "(byte_list \<Rightarrow> string) \<Rightarrow> bool \<Rightarrow> byte_list \<Rightarrow> string" where
  "PipeIndices_LowerHex hex alternate s = lower_hex hex alternate s"

definition PipeIndices_Debug :: "(byte_list \<Rightarrow> string) \<Rightarrow> byte_list \<Rightarrow> string" where
  "PipeIndices_Debug hex s = ''PipeIndices'' @ ''('' @ PipeIndices_LowerHex hex True s @ '')''"

definition PipeIndices_Display :: "number_codec \<Rightarrow> (byte_list \<Rightarrow> string) \<Rightarrow> byte_list \<Rightarrow> string vres" where
  "PipeIndices_Display num hex s =
     display_items ''PipeIndices'' (PipeIndices_item_count num s) (\<lambda>i. vbind (PipeIndices_get_unchecked s i) (PipeIndex_Display hex))"

definition Bytes_LowerHex :: "(byte_list \<Rightarrow> string) \<Rightarrow> bool \<Rightarrow> byte_list \<Rightarrow> string" where
  "Bytes_LowerHex hex alternate s = lower_hex hex alternate s"

definition Bytes_Debug :: "(byte_list \<Rightarrow> string) \<Rightarrow> byte_list \<Rightarrow> string" where
  "Bytes_Debug hex s = ''Bytes'' @ ''('' @ Bytes_LowerHex hex True s @ '')''"

definition Bytes_Display :: "(byte_list \<Rightarrow> string) \<Rightarrow> byte_list \<Rightarrow> string vres" where
  "Bytes_Display hex s = vbind (Bytes_raw_data s) (\<lambda>raw_data. Verified (''Bytes'' @ ''(0x'' @ hex raw_data @ '')''))"

definition Pipe_LowerHex :: "(byte_list \<Rightarrow> string) \<Rightarrow> bool \<Rightarrow> byte_list \<Rightarrow> string" where
  "Pipe_LowerHex hex alternate s = lower_hex hex alternate s"

definition Pipe_Debug :: "(byte_list \<Rightarrow> string) \<Rightarrow> byte_list \<Rightarrow> string" where
  "Pipe_Debug hex s = ''Pipe'' @ ''('' @ Pipe_LowerHex hex True s @ '')''"

definition Pipe_Display :: "number_codec \<Rightarrow> (byte_list \<Rightarrow> string) \<Rightarrow> byte_list \<Rightarrow> string vres" where
  "Pipe_Display num hex s = display_fields ''Pipe''
     [(''vm'', vbind (Pipe_vm num s) (VmIndex_Display hex)),
      (''read_pipe'', vbind (Pipe_read_pipe num s) (PipeIndex_Display hex)),
      (''write_pipe'', vbind (Pipe_write_pipe num s) (PipeIndex_Display hex))]
     (Pipe_count_extra_fields num s)"

definition Pipes_LowerHex :: "(byte_list \<Rightarrow> string) \<Rightarrow> bool \<Rightarrow> byte_list \<Rightarrow> string" where
  "Pipes_LowerHex hex alternate s = lower_hex hex alternate s"

definition Pipes_Debug :: "(byte_list \<Rightarrow> string) \<Rightarrow> byte_list \<Rightarrow> string" where
  "Pipes_Debug hex s = ''Pipes'' @ ''('' @ Pipes_LowerHex hex True s @ '')''"

definition Pipes_Display :: "number_codec \<Rightarrow> (byte_list \<Rightarrow> string) \<Rightarrow> byte_list \<Rightarrow> string vres" where
  "Pipes_Display num hex s =
     display_items ''Pipes'' (Pipes_item_count num s) (\<lambda>i. vbind (Pipes_get_unchecked num s i) (Pipe_Display num hex))"

definition Write_LowerHex :: "(byte_list \<Rightarrow> string) \<Rightarrow> bool \<Rightarrow> byte_list \<Rightarrow> string" where
  "Write_LowerHex hex alternate s = lower_hex hex alternate s"

definition Write_Debug :: "(byte_list \<Rightarrow> string) \<Rightarrow> byte_list \<Rightarrow> string" where
  "Write_Debug hex s = ''Write'' @ ''('' @ Write_LowerHex hex True s @ '')''"

definition Write_Display :: "number_codec \<Rightarrow> (byte_list \<Rightarrow> string) \<Rightarrow> byte_list \<Rightarrow> string vres" where
  "Write_Display num hex s = display_fields ''Write''
     [(''from'', vbind (Write_from num s) (VmIndex_Display hex)),
      (''from_pipe'', vbind (Write_from_pipe num s) (PipeIndex_Display hex)),
      (''to'', vbind (Write_to num s) (VmIndex_Display hex)),
      (''to_pipe'', vbind (Write_to_pipe num s) (PipeIndex_Display hex)),
      (''data'', vbind (Write_data num s) (Bytes_Display hex))]
     (Write_count_extra_fields num s)"

definition Writes_LowerHex :: "(byte_list \<Rightarrow> string) \<Rightarrow> bool \<Rightarrow> byte_list \<Rightarrow> string" where
  "Writes_LowerHex hex alternate s = lower_hex hex alternate s"

definition Writes_Debug :: "(byte_list \<Rightarrow> string) \<Rightarrow> byte_list \<Rightarrow> string" where
  "Writes_Debug hex s = ''Writes'' @ ''('' @ Writes_LowerHex hex True s @ '')''"

definition Writes_Display :: "number_codec \<Rightarrow> (byte_list \<Rightarrow> string) \<Rightarrow> byte_list \<Rightarrow> string vres" where
  "Writes_Display num hex s =
     display_items ''Writes'' (Writes_item_count num s) (\<lambda>i. vbind (Writes_get_unchecked num s i) (Write_Display num hex))"

definition Spawn_LowerHex :: "(byte_list \<Rightarrow> string) \<Rightarrow> bool \<Rightarrow> byte_list \<Rightarrow> string" where
  "Spawn_LowerHex hex alternate s = lower_hex hex alternate s"

definition Spawn_Debug :: "(byte_list \<Rightarrow> string) \<Rightarrow> byte_list \<Rightarrow> string" where
  "Spawn_Debug hex s = ''Spawn'' @ ''('' @ Spawn_LowerHex hex True s @ '')''"

definition Spawn_Display :: "number_codec \<Rightarrow> (byte_list \<Rightarrow> string) \<Rightarrow> byte_list \<Rightarrow> string vres" where
  "Spawn_Display num hex s = display_fields ''Spawn''
     [(''from'', vbind (Spawn_from num s) (VmIndex_Display hex)),
      (''child'', vbind (Spawn_child num s) (VmIndex_Display hex)),
      (''pipes'', vbind (Spawn_pipes num s) (PipeIndices_Display num hex))]
     (Spawn_count_extra_fields num s)"

definition Spawns_LowerHex :: "(byte_list \<Rightarrow> string) \<Rightarrow> bool \<Rightarrow> byte_list \<Rightarrow> string" where
  "Spawns_LowerHex hex alternate s = lower_hex hex alternate s"

definition Spawns_Debug :: "(byte_list \<Rightarrow> string) \<Rightarrow> byte_list \<Rightarrow> string" where
  "Spawns_Debug hex s = ''Spawns'' @ ''('' @ Spawns_LowerHex hex True s @ '')''"

definition Spawns_Display :: "number_codec \<Rightarrow> (byte_list \<Rightarrow> string) \<Rightarrow> byte_list \<Rightarrow> string vres" where
  "Spawns_Display num hex s =
     display_items ''Spawns'' (Spawns_item_count num s) (\<lambda>i. vbind (Spawns_get_unchecked num s i) (Spawn_Display num hex))"

definition Data_LowerHex :: "(byte_list \<Rightarrow> string) \<Rightarrow> bool \<Rightarrow> byte_list \<Rightarrow> string" where
  "Data_LowerHex hex alternate s = lower_hex hex alternate s"

definition Data_Debug :: "(byte_list \<Rightarrow> string) \<Rightarrow> byte_list \<Rightarrow> string" where
  "Data_Debug hex s = ''Data'' @ ''('' @ Data_LowerHex hex True s @ '')''"

definition Data_Display :: "number_codec \<Rightarrow> (byte_list \<Rightarrow> string) \<Rightarrow> byte_list \<Rightarrow> string vres" where
  "Data_Display num hex s = display_fields ''Data''
     [(''spawns'', vbind (Data_spawns num s) (Spawns_Display num hex)),
      (''pipes'', vbind (Data_pipes num s) (Pipes_Display num hex)),
      (''writes'', vbind (Data_writes num s) (Writes_Display num hex))]
     (Data_count_extra_fields num s)"

section \<open>The readers\<close>

definition VmIndexReader_LowerHex :: "(byte_list \<Rightarrow> string) \<Rightarrow> bool \<Rightarrow> byte_list \<Rightarrow> string" where
  "VmIndexReader_LowerHex hex alternate s = lower_hex hex alternate s"

definition VmIndexReader_Debug :: "(byte_list \<Rightarrow> string) \<Rightarrow> byte_list \<Rightarrow> string" where
  "VmIndexReader_Debug hex s = ''VmIndexReader'' @ ''('' @ VmIndexReader_LowerHex hex True s @ '')''"

definition VmIndexReader_Display :: "(byte_list \<Rightarrow> string) \<Rightarrow> byte_list \<Rightarrow> string vres" where
  "VmIndexReader_Display hex s = Verified (''VmIndexReader'' @ ''(0x'' @ hex (VmIndexReader_raw_data s) @ '')'')"

definition PipeIndexReader_LowerHex :: "(byte_list \<Rightarrow> string) \<Rightarrow> bool \<Rightarrow> byte_list \<Rightarrow> string" where
  "PipeIndexReader_LowerHex hex alternate s = lower_hex hex alternate s"

definition PipeIndexReader_Debug :: "(byte_list \<Rightarrow> string) \<Rightarrow> byte_list \<Rightarrow> string" where
  "PipeIndexReader_Debug hex s = ''PipeIndexReader'' @ ''('' @ PipeIndexReader_LowerHex hex True s @ '')''"

definition PipeIndexReader_Display :: "(byte_list \<Rightarrow> string) \<Rightarrow> byte_list \<Rightarrow> string vres" where
  "PipeIndexReader_Display hex s = Verified (''PipeIndexReader'' @ ''(0x'' @ hex (PipeIndexReader_raw_data s) @ '')'')"

definition PipeIndicesReader_LowerHex :: "(byte_list \<Rightarrow> string) \<Rightarrow> bool \<Rightarrow> byte_list \<Rightarrow> string" where
  "PipeIndicesReader_LowerHex hex alternate s = lower_hex hex alternate s"

definition PipeIndicesReader_Debug :: "(byte_list \<Rightarrow> string) \<Rightarrow> byte_list \<Rightarrow> string" where
  "PipeIndicesReader_Debug hex s = ''PipeIndicesReader'' @ ''('' @ PipeIndicesReader_LowerHex hex True s @ '')''"

definition PipeIndicesReader_Display :: "number_codec \<Rightarrow> (byte_list \<Rightarrow> string) \<Rightarrow> byte_list \<Rightarrow> string vres" where
  "PipeIndicesReader_Display num hex s =
     display_items ''PipeIndicesReader'' (PipeIndicesReader_item_count num s) (\<lambda>i. vbind (PipeIndicesReader_get_unchecked s i) (PipeIndexReader_Display hex))"

definition BytesReader_LowerHex :: "(byte_list \<Rightarrow> string) \<Rightarrow> bool \<Rightarrow> byte_list \<Rightarrow> string" where
  "BytesReader_LowerHex hex alternate s = lower_hex hex alternate s"

definition BytesReader_Debug :: "(byte_list \<Rightarrow> string) \<Rightarrow> byte_list \<Rightarrow> string" where
  "BytesReader_Debug hex s = ''BytesReader'' @ ''('' @ BytesReader_LowerHex hex True s @ '')''"

definition BytesReader_Display :: "(byte_list \<Rightarrow> string) \<Rightarrow> byte_list \<Rightarrow> string vres" where
  "BytesReader_Display hex s = vbind (BytesReader_raw_data s) (\<lambda>raw_data. Verified (''BytesReader'' @ ''(0x'' @ hex raw_data @ '')''))"

definition PipeReader_LowerHex :: "(byte_list \<Rightarrow> string) \<Rightarrow> bool \<Rightarrow> byte_list \<Rightarrow> string" where
  "PipeReader_LowerHex hex alternate s = lower_hex hex alternate s"

definition PipeReader_Debug :: "(byte_list \<Rightarrow> string) \<Rightarrow> byte_list \<Rightarrow> string" where
  "PipeReader_Debug hex s = ''PipeReader'' @ ''('' @ PipeReader_LowerHex hex True s @ '')''"

definition PipeReader_Display :: "number_codec \<Rightarrow> (byte_list \<Rightarrow> string) \<Rightarrow> byte_list \<Rightarrow> string vres" where
  "PipeReader_Display num hex s = display_fields ''PipeReader''
     [(''vm'', vbind (PipeReader_vm num s) (VmIndexReader_Display hex)),
      (''read_pipe'', vbind (PipeReader_read_pipe num s) (PipeIndexReader_Display hex)),
      (''write_pipe'', vbind (PipeReader_write_pipe num s) (PipeIndexReader_Display hex))]
     (PipeReader_count_extra_fields num s)"

definition PipesReader_LowerHex :: "(byte_list \<Rightarrow> string) \<Rightarrow> bool \<Rightarrow> byte_list \<Rightarrow> string" where
  "PipesReader_LowerHex hex alternate s = lower_hex hex alternate s"

definition PipesReader_Debug :: "(byte_list \<Rightarrow> string) \<Rightarrow> byte_list \<Rightarrow> string" where
  "PipesReader_Debug hex s = ''PipesReader'' @ ''('' @ PipesReader_LowerHex hex True s @ '')''"

definition PipesReader_Display :: "number_codec \<Rightarrow> (byte_list \<Rightarrow> string) \<Rightarrow> byte_list \<Rightarrow> string vres" where
  "PipesReader_Display num hex s =
     display_items ''PipesReader'' (PipesReader_item_count num s) (\<lambda>i. vbind (PipesReader_get_unchecked num s i) (PipeReader_Display num hex))"

definition WriteReader_LowerHex :: "(byte_list \<Rightarrow> string) \<Rightarrow> bool \<Rightarrow> byte_list \<Rightarrow> string" where
  "WriteReader_LowerHex hex alternate s = lower_hex hex alternate s"

definition WriteReader_Debug :: "(byte_list \<Rightarrow> string) \<Rightarrow> byte_list \<Rightarrow> string" where
  "WriteReader_Debug hex s = ''WriteReader'' @ ''('' @ WriteReader_LowerHex hex True s @ '')''"

definition WriteReader_Display :: "number_codec \<Rightarrow> (byte_list \<Rightarrow> string) \<Rightarrow> byte_list \<Rightarrow> string vres" where
  "WriteReader_Display num hex s = display_fields ''WriteReader''
     [(''from'', vbind (WriteReader_from num s) (VmIndexReader_Display hex)),
      (''from_pipe'', vbind (WriteReader_from_pipe num s) (PipeIndexReader_Display hex)),
      (''to'', vbind (WriteReader_to num s) (VmIndexReader_Display hex)),
      (''to_pipe'', vbind (WriteReader_to_pipe num s) (PipeIndexReader_Display hex)),
      (''data'', vbind (WriteReader_data num s) (BytesReader_Display hex))]
     (WriteReader_count_extra_fields num s)"

definition WritesReader_LowerHex :: "(byte_list \<Rightarrow> string) \<Rightarrow> bool \<Rightarrow> byte_list \<Rightarrow> string" where
  "WritesReader_LowerHex hex alternate s = lower_hex hex alternate s"

definition WritesReader_Debug :: "(byte_list \<Rightarrow> string) \<Rightarrow> byte_list \<Rightarrow> string" where
  "WritesReader_Debug hex s = ''WritesReader'' @ ''('' @ WritesReader_LowerHex hex True s @ '')''"

definition WritesReader_Display :: "number_codec \<Rightarrow> (byte_list \<Rightarrow> string) \<Rightarrow> byte_list \<Rightarrow> string vres" where
  "WritesReader_Display num hex s =
     display_items ''WritesReader'' (WritesReader_item_count num s) (\<lambda>i. vbind (WritesReader_get_unchecked num s i) (WriteReader_Display num hex))"

definition SpawnReader_LowerHex :: "(byte_list \<Rightarrow> string) \<Rightarrow> bool \<Rightarrow> byte_list \<Rightarrow> string" where
  "SpawnReader_LowerHex hex alternate s = lower_hex hex alternate s"

definition SpawnReader_Debug :: "(byte_list \<Rightarrow> string) \<Rightarrow> byte_list \<Rightarrow> string" where
  "SpawnReader_Debug hex s = ''SpawnReader'' @ ''('' @ SpawnReader_LowerHex hex True s @ '')''"

definition SpawnReader_Display :: "number_codec \<Rightarrow> (byte_list \<Rightarrow> string) \<Rightarrow> byte_list \<Rightarrow> string vres" where
  "SpawnReader_Display num hex s = display_fields ''SpawnReader''
     [(''from'', vbind (SpawnReader_from num s) (VmIndexReader_Display hex)),
      (''child'', vbind (SpawnReader_child num s) (VmIndexReader_Display hex)),
      (''pipes'', vbind (SpawnReader_pipes num s) (PipeIndicesReader_Display num hex))]
     (SpawnReader_count_extra_fields num s)"

definition SpawnsReader_LowerHex :: "(byte_list \<Rightarrow> string) \<Rightarrow> bool \<Rightarrow> byte_list \<Rightarrow> string" where
  "SpawnsReader_LowerHex hex alternate s = lower_hex hex alternate s"

definition SpawnsReader_Debug :: "(byte_list \<Rightarrow> string) \<Rightarrow> byte_list \<Rightarrow> string" where
  "SpawnsReader_Debug hex s = ''SpawnsReader'' @ ''('' @ SpawnsReader_LowerHex hex True s @ '')''"

definition SpawnsReader_Display :: "number_codec \<Rightarrow> (byte_list \<Rightarrow> string) \<Rightarrow> byte_list \<Rightarrow> string vres" where
  "SpawnsReader_Display num hex s =
     display_items ''SpawnsReader'' (SpawnsReader_item_count num s) (\<lambda>i. vbind (SpawnsReader_get_unchecked num s i) (SpawnReader_Display num hex))"

definition DataReader_LowerHex :: "(byte_list \<Rightarrow> string) \<Rightarrow> bool \<Rightarrow> byte_list \<Rightarrow> string" where
  "DataReader_LowerHex hex alternate s = lower_hex hex alternate s"

definition DataReader_Debug :: "(byte_list \<Rightarrow> string) \<Rightarrow> byte_list \<Rightarrow> string" where
  "DataReader_Debug hex s = ''DataReader'' @ ''('' @ DataReader_LowerHex hex True s @ '')''"

definition DataReader_Display :: "number_codec \<Rightarrow> (byte_list \<Rightarrow> string) \<Rightarrow> byte_list \<Rightarrow> string vres" where
  "DataReader_Display num hex s = display_fields ''DataReader''
     [(''spawns'', vbind (DataReader_spawns num s) (SpawnsReader_Display num hex)),
      (''pipes'', vbind (DataReader_pipes num s) (PipesReader_Display num hex)),
      (''writes'', vbind (DataReader_writes num s) (WritesReader_Display num hex))]
     (DataReader_count_extra_fields num s)"

section \<open>What is printed\<close>

text \<open>The text of a value, without any bytes: what \<open>Display\<close> is meant to show.\<close>

definition array_text :: "(byte_list \<Rightarrow> string) \<Rightarrow> string \<Rightarrow> byte_list \<Rightarrow> string" where
  "array_text hex name v = name @ ''(0x'' @ hex v @ '')''"

definition items_text :: "string \<Rightarrow> string list \<Rightarrow> string" where
  "items_text name ts = name @ '' ['' @ comma_separated ts @ '']''"

definition fields_text :: "string \<Rightarrow> (string \<times> string) list \<Rightarrow> string" where
  "fields_text name fs = name @ '' { '' @ comma_separated (map (\<lambda>(label, t). label @ '': '' @ t) fs) @ '' }''"

fun pipe_text :: "(byte_list \<Rightarrow> string) \<Rightarrow> string \<Rightarrow> pipe_entry \<Rightarrow> string" where
  "pipe_text hex x (vm, r, w) = fields_text (''Pipe'' @ x)
     [(''vm'', array_text hex (''VmIndex'' @ x) vm), (''read_pipe'', array_text hex (''PipeIndex'' @ x) r),
      (''write_pipe'', array_text hex (''PipeIndex'' @ x) w)]"

fun write_text :: "(byte_list \<Rightarrow> string) \<Rightarrow> string \<Rightarrow> write_entry \<Rightarrow> string" where
  "write_text hex x (from, from_pipe, to', to_pipe, data) = fields_text (''Write'' @ x)
     [(''from'', array_text hex (''VmIndex'' @ x) from), (''from_pipe'', array_text hex (''PipeIndex'' @ x) from_pipe),
      (''to'', array_text hex (''VmIndex'' @ x) to'), (''to_pipe'', array_text hex (''PipeIndex'' @ x) to_pipe),
      (''data'', array_text hex (''Bytes'' @ x) data)]"

fun spawn_text :: "(byte_list \<Rightarrow> string) \<Rightarrow> string \<Rightarrow> spawn_entry \<Rightarrow> string" where
  "spawn_text hex x (from, child, ends) = fields_text (''Spawn'' @ x)
     [(''from'', array_text hex (''VmIndex'' @ x) from), (''child'', array_text hex (''VmIndex'' @ x) child),
      (''pipes'', items_text (''PipeIndices'' @ x) (map (array_text hex (''PipeIndex'' @ x)) ends))]"

fun dag_text :: "(byte_list \<Rightarrow> string) \<Rightarrow> string \<Rightarrow> dag \<Rightarrow> string" where
  "dag_text hex x (ss, ps, ws) = fields_text (''Data'' @ x)
     [(''spawns'', items_text (''Spawns'' @ x) (map (spawn_text hex x) ss)),
      (''pipes'', items_text (''Pipes'' @ x) (map (pipe_text hex x) ps)),
      (''writes'', items_text (''Writes'' @ x) (map (write_text hex x) ws))]"

section \<open>The contract of \<open>Display\<close>\<close>

locale printed =
  fixes verify :: verifier and decode :: "byte_list \<Rightarrow> 'a vres" and display :: "byte_list \<Rightarrow> string vres"
    and text_of :: "'a \<Rightarrow> string"
  assumes total: "verify s c = Verified () \<Longrightarrow> \<exists>t. display s = Verified t"
    and exact: "verify s False = Verified () \<Longrightarrow> decode s = Verified v \<Longrightarrow> display s = Verified (text_of v)"

lemma comma_separated_Cons: "comma_separated (t # ts) = t @ concat (map (\<lambda>u. '', '' @ u) ts)"
  by (induction ts arbitrary: t) simp_all

lemma vmap_eq_Verified:
  "vmap f xs = Verified ys \<longleftrightarrow> length ys = length xs \<and> (\<forall>i < length xs. f (xs ! i) = Verified (ys ! i))"
proof (induction xs arbitrary: ys)
  case (Cons x xs)
  show ?case
  proof (cases ys)
    case (Cons y ys')
    then show ?thesis
      using Cons.IH [of ys'] by (cases "f x"; cases "vmap f xs") (auto simp: less_Suc_eq_0_disj nth_Cons')
  qed (cases "f x"; cases "vmap f xs"; simp)
qed auto

lemma concat_comma_separated:
  "concat (map (\<lambda>i. if i = 0 then ts ! i else '', '' @ ts ! i) [0..<length ts]) = comma_separated ts"
proof (cases ts)
  case (Cons t us)
  have "map (\<lambda>i. '', '' @ us ! i) [0..<length us] = map (\<lambda>u. '', '' @ u) us"
    by (rule nth_equalityI) simp_all
  then show ?thesis
    by (simp add: Cons comma_separated_Cons map_upt_Suc del: upt_Suc)
qed simp

lemma vmap_Verified_map: "(\<And>x. x \<in> set xs \<Longrightarrow> f x = Verified (g x)) \<Longrightarrow> vmap f xs = Verified (map g xs)"
  by (induction xs) simp_all

lemma display_items_text:
  assumes "count = Verified (length ts)" and "\<And>i. i < length ts \<Longrightarrow> item i = Verified (ts ! i)"
  shows "display_items name count item = Verified (items_text name ts)"
proof -
  have "vmap (\<lambda>i. vbind (item i) (\<lambda>t. Verified (if i = 0 then t else '', '' @ t))) [0..<length ts]
      = Verified (map (\<lambda>i. if i = 0 then ts ! i else '', '' @ ts ! i) [0..<length ts])"
    by (rule vmap_Verified_map) (simp add: assms(2))
  then show ?thesis
    by (simp add: display_items_def assms(1) items_text_def concat_comma_separated)
qed

text \<open>A getter that returns, and a \<open>Display\<close> that returns, make the whole return.\<close>

lemma display_items_total:
  assumes "count = Verified n" and "\<And>i. i < n \<Longrightarrow> \<exists>t. item i = Verified t"
  shows "\<exists>t. display_items name count item = Verified t"
proof -
  have "\<exists>ts. vmap (\<lambda>i. vbind (item i) (\<lambda>t. Verified (if i = 0 then t else '', '' @ t))) [0..<n] = Verified ts"
    by (rule vmap_total) (use assms(2) in fastforce)
  then show ?thesis
    by (auto simp: display_items_def assms(1))
qed

lemma display_fields_total:
  assumes "\<And>l r. (l, r) \<in> set rs \<Longrightarrow> \<exists>t. r = Verified t" and "extra = Verified e"
  shows "\<exists>t. display_fields nm rs extra = Verified t"
proof -
  have "\<exists>ts. vmap (\<lambda>(label, r). vbind r (\<lambda>t. Verified (label @ '': '' @ t))) rs = Verified ts"
    by (rule vmap_total) (use assms(1) in fastforce)
  then show ?thesis
    by (auto simp: display_fields_def assms(2))
qed

lemma printed_array: "printed (array_verify name k) Verified (\<lambda>s. Verified (array_text hex nm s)) (array_text hex nm)"
  by unfold_locales simp_all

context number_format
begin

lemma printed_bytes:
  "printed (fixvec_verify num name 1) (fixvec_decode num 1 (\<lambda>p. p ! 0))
     (\<lambda>s. vbind (slice_from s NUMBER_SIZE) (\<lambda>raw_data. Verified (array_text hex nm raw_data))) (array_text hex nm)"
proof
  fix s c assume "fixvec_verify num name 1 s c = Verified ()"
  then show "\<exists>t. vbind (slice_from s NUMBER_SIZE) (\<lambda>raw_data. Verified (array_text hex nm raw_data)) = Verified t"
    by (auto simp: fixvec_verify_ok slice_from_def)
next
  fix s v assume v: "fixvec_verify num name 1 s False = Verified ()" "fixvec_decode num 1 (\<lambda>p. p ! 0) s = Verified v"
  from v(1) obtain ps where ps: "into_items (fixvec_item_count num s) (fixvec_get_unchecked 1 s) = Verified ps"
      "fixvec_write num ps = s" "\<forall>p\<in>set ps. length p = 1"
    by (rule fixvec_items)
  have "concat ps = map (\<lambda>p. p ! 0) ps"
    using ps(3) by (induction ps) (auto simp: length_Suc_conv)
  moreover have "drop 4 s = concat ps" "4 \<le> length s"
    by (simp_all flip: ps(2) add: fixvec_write_def)
  ultimately show "vbind (slice_from s NUMBER_SIZE) (\<lambda>raw_data. Verified (array_text hex nm raw_data)) = Verified (array_text hex nm v)"
    using v(2) ps(1) by (auto simp: fixvec_decode_def slice_from_def)
qed

lemma printed_fixvec:
  "printed (fixvec_verify num name k) (fixvec_decode num k (\<lambda>p. p))
     (\<lambda>s. display_items nm (fixvec_item_count num s) (\<lambda>i. vbind (fixvec_get_unchecked k s i) (\<lambda>p. Verified (txt p))))
     (\<lambda>vs. items_text nm (map txt vs))"
proof
  fix s c assume "fixvec_verify num name k s c = Verified ()"
  then obtain n where "fixvec_item_count num s = Verified n"
      "\<And>i. i < n \<Longrightarrow> \<exists>p. fixvec_get_unchecked k s i = Verified p \<and> length p = k"
    by (rule fixvec_parts) blast
  then show "\<exists>t. display_items nm (fixvec_item_count num s)
      (\<lambda>i. vbind (fixvec_get_unchecked k s i) (\<lambda>p. Verified (txt p))) = Verified t"
    by (intro display_items_total) fastforce+
next
  fix s v assume v: "fixvec_verify num name k s False = Verified ()" "fixvec_decode num k (\<lambda>p. p) s = Verified v"
  from v(1) obtain ps where ps: "into_items (fixvec_item_count num s) (fixvec_get_unchecked k s) = Verified ps"
      "fixvec_item_count num s = Verified (length ps)"
      "\<And>i. i < length ps \<Longrightarrow> fixvec_get_unchecked k s i = Verified (ps ! i)"
    by (rule fixvec_items) blast
  then have "v = ps" using v(2) by (simp add: fixvec_decode_def)
  then show "display_items nm (fixvec_item_count num s)
      (\<lambda>i. vbind (fixvec_get_unchecked k s i) (\<lambda>p. Verified (txt p))) = Verified (items_text nm (map txt v))"
    using ps by (intro display_items_text) simp_all
qed

lemma printed_dynvec:
  assumes "printed V D display txt"
  shows "printed (dynvec_verify num name V) (dynvec_decode num D)
     (\<lambda>s. display_items nm (offset_count num s) (\<lambda>i. vbind (dynvec_get_unchecked num s i) display))
     (\<lambda>vs. items_text nm (map txt vs))"
proof
  fix s c assume "dynvec_verify num name V s c = Verified ()"
  then obtain n where "offset_count num s = Verified n"
      "\<And>i. i < n \<Longrightarrow> \<exists>p. dynvec_get_unchecked num s i = Verified p \<and> V p c = Verified ()"
    by (rule dynvec_parts) blast
  then show "\<exists>t. display_items nm (offset_count num s) (\<lambda>i. vbind (dynvec_get_unchecked num s i) display) = Verified t"
    using printed.total [OF assms] by (intro display_items_total) fastforce+
next
  fix s vs assume v: "dynvec_verify num name V s False = Verified ()" "dynvec_decode num D s = Verified vs"
  from v(1) obtain ps where ps: "into_items (offset_count num s) (dynvec_get_unchecked num s) = Verified ps"
      "\<forall>p\<in>set ps. V p False = Verified ()" "offset_count num s = Verified (length ps)"
      "\<And>i. i < length ps \<Longrightarrow> dynvec_get_unchecked num s i = Verified (ps ! i)"
    by (rule dynvec_items) blast
  have d: "vmap D ps = Verified vs" using v(2) ps(1) by (simp add: dynvec_decode_def)
  then have len: "length vs = length ps" and nth: "\<And>i. i < length ps \<Longrightarrow> D (ps ! i) = Verified (vs ! i)"
    by (simp_all add: vmap_eq_Verified)
  show "display_items nm (offset_count num s) (\<lambda>i. vbind (dynvec_get_unchecked num s i) display)
      = Verified (items_text nm (map txt vs))"
    using ps(2-4) len nth printed.exact [OF assms] by (intro display_items_text) simp_all
qed

lemma table_extra:
  assumes "table_verify num name vs s c = Verified ()" and "vs \<noteq> []" and "length vs = k"
  obtains e where "vbind (offset_count num s) (\<lambda>n. usize_sub (checked_arith num) n k) = Verified e"
    and "\<not> c \<Longrightarrow> e = 0"
proof -
  obtain os where "framed num s os" "length vs \<le> length os" "c \<or> length os = length vs"
    using assms table_verify_ok by blast
  then show thesis
    using that [of "length os - k"] assms(3) by (auto simp: framed_header(5) usize_sub_def)
qed

text \<open>The fields of a table, each with its label and its \<open>Display\<close>.\<close>

lemma printed_table3:
  assumes 1: "printed V1 D1 P1 T1" and 2: "printed V2 D2 P2 T2" and 3: "printed V3 D3 P3 T3"
  shows "printed (table_verify num name [V1, V2, V3]) (table3_decode num D1 D2 D3)
     (\<lambda>s. display_fields nm [(l1, vbind (table_field num 3 0 s) P1), (l2, vbind (table_field num 3 1 s) P2),
        (l3, vbind (table_field num 3 2 s) P3)]
        (vbind (offset_count num s) (\<lambda>n. usize_sub (checked_arith num) n 3)))
     (\<lambda>(a, b, c). fields_text nm [(l1, T1 a), (l2, T2 b), (l3, T3 c)])"
proof
  fix s c assume v: "table_verify num name [V1, V2, V3] s c = Verified ()"
  obtain e where e: "vbind (offset_count num s) (\<lambda>n. usize_sub (checked_arith num) n 3) = Verified e"
    by (rule table_extra [OF v, where k = 3]) simp_all
  obtain p q r where f: "table_field num 3 0 s = Verified p" "V1 p c = Verified ()"
      "table_field num 3 1 s = Verified q" "V2 q c = Verified ()" "table_field num 3 2 s = Verified r" "V3 r c = Verified ()"
    by (rule table_three [OF v])
  show "\<exists>t. display_fields nm [(l1, vbind (table_field num 3 0 s) P1), (l2, vbind (table_field num 3 1 s) P2),
      (l3, vbind (table_field num 3 2 s) P3)] (vbind (offset_count num s) (\<lambda>n. usize_sub (checked_arith num) n 3)) = Verified t"
    using printed.total [OF 1 f(2)] printed.total [OF 2 f(4)] printed.total [OF 3 f(6)]
    by (intro display_fields_total [OF _ e]) (auto simp: f(1,3,5) simp del: One_nat_def)
next
  fix s v assume v: "table_verify num name [V1, V2, V3] s False = Verified ()" "table3_decode num D1 D2 D3 s = Verified v"
  have "vbind (offset_count num s) (\<lambda>n. usize_sub (checked_arith num) n 3) = Verified 0"
    by (rule table_extra [OF v(1), where k = 3]) simp_all
  moreover obtain p q r where f: "table_field num 3 0 s = Verified p" "V1 p False = Verified ()"
      "table_field num 3 1 s = Verified q" "V2 q False = Verified ()" "table_field num 3 2 s = Verified r" "V3 r False = Verified ()"
    by (rule table_three [OF v(1)])
  moreover obtain a b d where "D1 p = Verified a" "D2 q = Verified b" "D3 r = Verified d" "v = (a, b, d)"
    using v(2) f by (cases "D1 p"; cases "D2 q"; cases "D3 r") (auto simp: table3_decode_def)
  ultimately show "display_fields nm [(l1, vbind (table_field num 3 0 s) P1), (l2, vbind (table_field num 3 1 s) P2),
      (l3, vbind (table_field num 3 2 s) P3)] (vbind (offset_count num s) (\<lambda>n. usize_sub (checked_arith num) n 3))
      = Verified (case v of (a, b, c) \<Rightarrow> fields_text nm [(l1, T1 a), (l2, T2 b), (l3, T3 c)])"
    using printed.exact [OF 1] printed.exact [OF 2] printed.exact [OF 3] by (simp add: display_fields_def fields_text_def)
qed

lemma printed_table5:
  assumes 1: "printed V1 D1 P1 T1" and 2: "printed V2 D2 P2 T2" and 3: "printed V3 D3 P3 T3"
    and 4: "printed V4 D4 P4 T4" and 5: "printed V5 D5 P5 T5"
  shows "printed (table_verify num name [V1, V2, V3, V4, V5]) (table5_decode num D1 D2 D3 D4 D5)
     (\<lambda>s. display_fields nm [(l1, vbind (table_field num 5 0 s) P1), (l2, vbind (table_field num 5 1 s) P2),
        (l3, vbind (table_field num 5 2 s) P3), (l4, vbind (table_field num 5 3 s) P4), (l5, vbind (table_field num 5 4 s) P5)]
        (vbind (offset_count num s) (\<lambda>n. usize_sub (checked_arith num) n 5)))
     (\<lambda>(a, b, c, d, e). fields_text nm [(l1, T1 a), (l2, T2 b), (l3, T3 c), (l4, T4 d), (l5, T5 e)])"
    (is "printed ?V ?D ?P ?T")
proof
  fix s c assume v: "?V s c = Verified ()"
  obtain e where e: "vbind (offset_count num s) (\<lambda>n. usize_sub (checked_arith num) n 5) = Verified e"
    by (rule table_extra [OF v, where k = 5]) simp_all
  obtain p q r u w where f: "table_field num 5 0 s = Verified p" "V1 p c = Verified ()"
      "table_field num 5 1 s = Verified q" "V2 q c = Verified ()" "table_field num 5 2 s = Verified r" "V3 r c = Verified ()"
      "table_field num 5 3 s = Verified u" "V4 u c = Verified ()" "table_field num 5 4 s = Verified w" "V5 w c = Verified ()"
    by (rule table_five [OF v])
  show "\<exists>t. ?P s = Verified t"
    using printed.total [OF 1 f(2)] printed.total [OF 2 f(4)] printed.total [OF 3 f(6)] printed.total [OF 4 f(8)]
      printed.total [OF 5 f(10)]
    by (intro display_fields_total [OF _ e]) (auto simp: f(1,3,5,7,9) simp del: One_nat_def)
next
  fix s v assume v: "?V s False = Verified ()" "?D s = Verified v"
  have "vbind (offset_count num s) (\<lambda>n. usize_sub (checked_arith num) n 5) = Verified 0"
    by (rule table_extra [OF v(1), where k = 5]) simp_all
  moreover obtain p q r u w where f: "table_field num 5 0 s = Verified p" "V1 p False = Verified ()"
      "table_field num 5 1 s = Verified q" "V2 q False = Verified ()" "table_field num 5 2 s = Verified r" "V3 r False = Verified ()"
      "table_field num 5 3 s = Verified u" "V4 u False = Verified ()" "table_field num 5 4 s = Verified w" "V5 w False = Verified ()"
    by (rule table_five [OF v(1)])
  moreover obtain a b d e g where "D1 p = Verified a" "D2 q = Verified b" "D3 r = Verified d" "D4 u = Verified e" "D5 w = Verified g"
      "v = (a, b, d, e, g)"
    using v(2) f by (cases "D1 p"; cases "D2 q"; cases "D3 r"; cases "D4 u"; cases "D5 w") (simp_all add: table5_decode_def)
  ultimately show "?P s = Verified (?T v)"
    using printed.exact [OF 1] printed.exact [OF 2] printed.exact [OF 3] printed.exact [OF 4] printed.exact [OF 5]
    by (simp add: display_fields_def fields_text_def)
qed

end

section \<open>The contract of every type\<close>

lemmas index_display_defs = VmIndex_Display_def VmIndexReader_Display_def PipeIndex_Display_def PipeIndexReader_Display_def
  VmIndex_raw_data_def VmIndexReader_raw_data_def PipeIndex_raw_data_def PipeIndexReader_raw_data_def array_text_def

lemma index_display:
  "VmIndex_Display hex = (\<lambda>s. Verified (array_text hex ''VmIndex'' s))"
  "VmIndexReader_Display hex = (\<lambda>s. Verified (array_text hex ''VmIndexReader'' s))"
  "PipeIndex_Display hex = (\<lambda>s. Verified (array_text hex ''PipeIndex'' s))"
  "PipeIndexReader_Display hex = (\<lambda>s. Verified (array_text hex ''PipeIndexReader'' s))"
  by (simp_all add: fun_eq_iff index_display_defs)

lemma bytes_display:
  "Bytes_Display hex = (\<lambda>s. vbind (slice_from s NUMBER_SIZE) (\<lambda>raw_data. Verified (array_text hex ''Bytes'' raw_data)))"
  "BytesReader_Display hex = (\<lambda>s. vbind (slice_from s NUMBER_SIZE) (\<lambda>raw_data. Verified (array_text hex ''BytesReader'' raw_data)))"
  by (simp_all add: fun_eq_iff Bytes_Display_def BytesReader_Display_def Bytes_raw_data_def BytesReader_raw_data_def array_text_def)

interpretation vm_index_printed: printed VmIndexReader_verify Verified
    "\<lambda>s. Verified (array_text hex nm s)" "array_text hex nm" for hex nm
  unfolding VmIndexReader_verify_def by (rule printed_array)

interpretation pipe_index_printed: printed PipeIndexReader_verify Verified
    "\<lambda>s. Verified (array_text hex nm s)" "array_text hex nm" for hex nm
  unfolding PipeIndexReader_verify_def by (rule printed_array)

lemmas pipe_getters = Pipe_vm_def Pipe_read_pipe_def Pipe_write_pipe_def
  Pipe_count_extra_fields_def Pipe_field_count_def
lemmas write_getters = Write_from_def Write_from_pipe_def Write_to_def Write_to_pipe_def Write_data_def
  Write_count_extra_fields_def Write_field_count_def
lemmas spawn_getters = Spawn_from_def Spawn_child_def Spawn_pipes_def
  Spawn_count_extra_fields_def Spawn_field_count_def
  PipeIndices_item_count_def PipeIndices_get_unchecked_def
lemmas data_getters = Data_spawns_def Data_pipes_def Data_writes_def
  Data_count_extra_fields_def Data_field_count_def
  Spawns_Display_def [abs_def] Spawns_item_count_def Spawns_get_unchecked_def
  Pipes_Display_def [abs_def] Pipes_item_count_def Pipes_get_unchecked_def
  Writes_Display_def [abs_def] Writes_item_count_def Writes_get_unchecked_def

lemmas pipeReader_getters = PipeReader_vm_def PipeReader_read_pipe_def PipeReader_write_pipe_def
  PipeReader_count_extra_fields_def PipeReader_field_count_def
lemmas writeReader_getters = WriteReader_from_def WriteReader_from_pipe_def WriteReader_to_def WriteReader_to_pipe_def WriteReader_data_def
  WriteReader_count_extra_fields_def WriteReader_field_count_def
lemmas spawnReader_getters = SpawnReader_from_def SpawnReader_child_def SpawnReader_pipes_def
  SpawnReader_count_extra_fields_def SpawnReader_field_count_def
  PipeIndicesReader_item_count_def PipeIndicesReader_get_unchecked_def
lemmas dataReader_getters = DataReader_spawns_def DataReader_pipes_def DataReader_writes_def
  DataReader_count_extra_fields_def DataReader_field_count_def
  SpawnsReader_Display_def [abs_def] SpawnsReader_item_count_def SpawnsReader_get_unchecked_def
  PipesReader_Display_def [abs_def] PipesReader_item_count_def PipesReader_get_unchecked_def
  WritesReader_Display_def [abs_def] WritesReader_item_count_def WritesReader_get_unchecked_def

text \<open>The owned types.\<close>

lemma Pipe_printed:
  assumes "number_format num"
  shows "printed (PipeReader_verify num) (Pipe_decode num) (Pipe_Display num hex) (pipe_text hex '''')"
proof -
  have "pipe_text hex '''' = (\<lambda>(a, b, c). fields_text ''Pipe'' [(''vm'', array_text hex ''VmIndex'' a),
      (''read_pipe'', array_text hex ''PipeIndex'' b), (''write_pipe'', array_text hex ''PipeIndex'' c)])"
    by (auto simp: fun_eq_iff)
  then show ?thesis
    using number_format.printed_table3 [OF assms vm_index_printed.printed_axioms pipe_index_printed.printed_axioms
        pipe_index_printed.printed_axioms]
    by (simp add: PipeReader_verify_def Pipe_decode_table Pipe_Display_def [abs_def] pipe_getters index_display)
qed

lemma Write_printed:
  assumes "number_format num"
  shows "printed (WriteReader_verify num) (Write_decode num) (Write_Display num hex) (write_text hex '''')"
proof -
  have "write_text hex '''' = (\<lambda>(a, b, c, d, e). fields_text ''Write'' [(''from'', array_text hex ''VmIndex'' a),
      (''from_pipe'', array_text hex ''PipeIndex'' b), (''to'', array_text hex ''VmIndex'' c),
      (''to_pipe'', array_text hex ''PipeIndex'' d), (''data'', array_text hex ''Bytes'' e)])"
    by (auto simp: fun_eq_iff)
  then show ?thesis
    using number_format.printed_table5 [OF assms vm_index_printed.printed_axioms pipe_index_printed.printed_axioms
        vm_index_printed.printed_axioms pipe_index_printed.printed_axioms
        number_format.printed_bytes [OF assms, of "''BytesReader''"]]
    by (simp add: WriteReader_verify_def Write_decode_table BytesReader_verify_def Bytes_into_iter_fixvec Write_Display_def [abs_def]
        write_getters index_display bytes_display)
qed

lemma Spawn_printed:
  assumes "number_format num"
  shows "printed (SpawnReader_verify num) (Spawn_decode num) (Spawn_Display num hex) (spawn_text hex '''')"
proof -
  have "spawn_text hex '''' = (\<lambda>(a, b, c). fields_text ''Spawn'' [(''from'', array_text hex ''VmIndex'' a),
      (''child'', array_text hex ''VmIndex'' b),
      (''pipes'', items_text ''PipeIndices'' (map (array_text hex ''PipeIndex'') c))])"
    by (auto simp: fun_eq_iff)
  then show ?thesis
    using number_format.printed_table3 [OF assms vm_index_printed.printed_axioms vm_index_printed.printed_axioms
        number_format.printed_fixvec [OF assms, of "''PipeIndicesReader''" 8]]
    by (simp add: SpawnReader_verify_def Spawn_decode_table PipeIndicesReader_verify_def PipeIndices_into_iter_fixvec Spawn_Display_def [abs_def]
        spawn_getters PipeIndices_Display_def [abs_def] index_display)
qed

lemma Data_printed:
  assumes "number_format num"
  shows "printed (DataReader_verify num) (Data_decode num) (Data_Display num hex) (dag_text hex '''')"
proof -
  note vec = number_format.printed_dynvec [OF assms]
  have "dag_text hex '''' = (\<lambda>(a, b, c). fields_text ''Data'' [(''spawns'', items_text ''Spawns'' (map (spawn_text hex '''') a)),
      (''pipes'', items_text ''Pipes'' (map (pipe_text hex '''') b)), (''writes'', items_text ''Writes'' (map (write_text hex '''') c))])"
    by (auto simp: fun_eq_iff)
  then show ?thesis
    using number_format.printed_table3 [OF assms vec [OF Spawn_printed [OF assms]] vec [OF Pipe_printed [OF assms]]
        vec [OF Write_printed [OF assms]]]
    by (simp add: DataReader_verify_def SpawnsReader_verify_def PipesReader_verify_def WritesReader_verify_def
        Data_decode_table Data_Display_def [abs_def] data_getters)
qed

text \<open>The readers.\<close>

lemma PipeReader_printed:
  assumes "number_format num"
  shows "printed (PipeReader_verify num) (Pipe_decode num) (PipeReader_Display num hex) (pipe_text hex ''Reader'')"
proof -
  have "pipe_text hex ''Reader'' = (\<lambda>(a, b, c). fields_text ''PipeReader'' [(''vm'', array_text hex ''VmIndexReader'' a),
      (''read_pipe'', array_text hex ''PipeIndexReader'' b), (''write_pipe'', array_text hex ''PipeIndexReader'' c)])"
    by (auto simp: fun_eq_iff)
  then show ?thesis
    using number_format.printed_table3 [OF assms vm_index_printed.printed_axioms pipe_index_printed.printed_axioms
        pipe_index_printed.printed_axioms]
    by (simp add: PipeReader_verify_def Pipe_decode_table PipeReader_Display_def [abs_def] pipeReader_getters index_display)
qed

lemma WriteReader_printed:
  assumes "number_format num"
  shows "printed (WriteReader_verify num) (Write_decode num) (WriteReader_Display num hex) (write_text hex ''Reader'')"
proof -
  have "write_text hex ''Reader'' = (\<lambda>(a, b, c, d, e). fields_text ''WriteReader'' [(''from'', array_text hex ''VmIndexReader'' a),
      (''from_pipe'', array_text hex ''PipeIndexReader'' b), (''to'', array_text hex ''VmIndexReader'' c),
      (''to_pipe'', array_text hex ''PipeIndexReader'' d), (''data'', array_text hex ''BytesReader'' e)])"
    by (auto simp: fun_eq_iff)
  then show ?thesis
    using number_format.printed_table5 [OF assms vm_index_printed.printed_axioms pipe_index_printed.printed_axioms
        vm_index_printed.printed_axioms pipe_index_printed.printed_axioms
        number_format.printed_bytes [OF assms, of "''BytesReader''"]]
    by (simp add: WriteReader_verify_def Write_decode_table BytesReader_verify_def Bytes_into_iter_fixvec WriteReader_Display_def [abs_def]
        writeReader_getters index_display bytes_display)
qed

lemma SpawnReader_printed:
  assumes "number_format num"
  shows "printed (SpawnReader_verify num) (Spawn_decode num) (SpawnReader_Display num hex) (spawn_text hex ''Reader'')"
proof -
  have "spawn_text hex ''Reader'' = (\<lambda>(a, b, c). fields_text ''SpawnReader'' [(''from'', array_text hex ''VmIndexReader'' a),
      (''child'', array_text hex ''VmIndexReader'' b),
      (''pipes'', items_text ''PipeIndicesReader'' (map (array_text hex ''PipeIndexReader'') c))])"
    by (auto simp: fun_eq_iff)
  then show ?thesis
    using number_format.printed_table3 [OF assms vm_index_printed.printed_axioms vm_index_printed.printed_axioms
        number_format.printed_fixvec [OF assms, of "''PipeIndicesReader''" 8]]
    by (simp add: SpawnReader_verify_def Spawn_decode_table PipeIndicesReader_verify_def PipeIndices_into_iter_fixvec SpawnReader_Display_def [abs_def]
        spawnReader_getters PipeIndicesReader_Display_def [abs_def] index_display)
qed

lemma DataReader_printed:
  assumes "number_format num"
  shows "printed (DataReader_verify num) (Data_decode num) (DataReader_Display num hex) (dag_text hex ''Reader'')"
proof -
  note vec = number_format.printed_dynvec [OF assms]
  have "dag_text hex ''Reader'' = (\<lambda>(a, b, c). fields_text ''DataReader'' [(''spawns'', items_text ''SpawnsReader'' (map (spawn_text hex ''Reader'') a)),
      (''pipes'', items_text ''PipesReader'' (map (pipe_text hex ''Reader'') b)), (''writes'', items_text ''WritesReader'' (map (write_text hex ''Reader'') c))])"
    by (auto simp: fun_eq_iff)
  then show ?thesis
    using number_format.printed_table3 [OF assms vec [OF SpawnReader_printed [OF assms]] vec [OF PipeReader_printed [OF assms]]
        vec [OF WriteReader_printed [OF assms]]]
    by (simp add: DataReader_verify_def SpawnsReader_verify_def PipesReader_verify_def WritesReader_verify_def
        Data_decode_table DataReader_Display_def [abs_def] dataReader_getters)
qed

section \<open>Properties of the printed dataflow\<close>

text \<open>
  C35: printing a dataflow that \<open>verify\<close> accepted never panics, in strict and in compatible mode, as an owned
  value and as a reader. In strict mode the text is exactly the one of the dataflow that the bytes encode:
  all its spawns, pipes and writes, in order, with all their fields, and nothing else.
\<close>

theorem display_verified_data:
  assumes "number_format num" and "DataReader_verify num s c = Verified ()"
  shows "(\<exists>t. Data_Display num hex s = Verified t) \<and> (\<exists>t. DataReader_Display num hex s = Verified t) \<and>
    (\<not> c \<longrightarrow> (\<exists>d. Data_decode num s = Verified d \<and> Data_encode num d = s
       \<and> Data_Display num hex s = Verified (dag_text hex [] d)
       \<and> DataReader_Display num hex s = Verified (dag_text hex ''Reader'' d)))"
proof -
  note e = Data_entity [OF assms(1)]
  obtain d where d: "Data_decode num s = Verified d" "\<not> c \<Longrightarrow> Data_encode num d = s"
    by (rule entity_read [OF e assms(2)]) blast
  show ?thesis
    using d assms(2) printed.total [OF Data_printed [OF assms(1)] assms(2)] printed.total [OF DataReader_printed [OF assms(1)] assms(2)]
      printed.exact [OF Data_printed [OF assms(1)] _ d(1)] printed.exact [OF DataReader_printed [OF assms(1)] _ d(1)]
    by auto
qed

theorem display_verified_data_witness:
  "Data_Display (le_codec True) (\<lambda>_. ''..'') demo_data = Verified (dag_text (\<lambda>_. ''..'') [] demo_dag)"
  using display_verified_data [OF le.number_format_axioms demo_data_ok(1) [of False], of "\<lambda>_. ''..''"] demo_data_ok(2)
  by simp

end
