(* ===== verification/Mock_Tx.thy ===== *)
theory Mock_Tx
  imports Dag_Library
begin

text \<open>
  \<open>build_mock_tx\<close> of src/dev_utils/mod.rs with \<open>random_script\<close> and \<open>random_out_point\<close>: the transaction in which
  a test program runs. Its one input is locked by a script that refers to the program by the hash of the
  type script of the cell dep that carries it; its one witness is the dataflow.

  The packed types of ckb-types are not in the repository: they are one type \<open>'p\<close>, and the operations
  on them the record \<open>ckb_types\<close>. A builder is the record of the fields that have been set. \<open>packed_laws\<close> is
  their documented behaviour: what has been set can be read back, and packing loses nothing.
\<close>

section \<open>The packed types\<close>

record 'p script_builder =
  sb_code_hash :: "'p option"
  sb_hash_type :: "'p option"
  sb_args :: "'p option"

record 'p cell_dep_builder =
  db_out_point :: "'p option"
  db_dep_type :: "'p option"

record 'p cell_output_builder =
  ob_lock :: "'p option"
  ob_type :: "'p option"

record 'p cell_input_builder =
  ib_previous_output :: "'p option"

record 'p transaction_builder =
  tb_cell_deps :: "'p list"
  tb_inputs :: "'p list"
  tb_outputs :: "'p list"
  tb_witnesses :: "'p list"

record ('p, 't) ckb_types =
  pack_hash :: "u8 list \<Rightarrow> 'p"
  pack_bytes :: "u8 list \<Rightarrow> 'p"
  pack_script_opt :: "'p option \<Rightarrow> 'p"
  hash_type_Type :: 't
  hash_type_byte :: "'t \<Rightarrow> 'p"
  dep_type_Code :: 'p
  new_out_point :: "'p \<Rightarrow> u32 \<Rightarrow> 'p"
  build_script :: "'p script_builder \<Rightarrow> 'p"
  build_cell_dep :: "'p cell_dep_builder \<Rightarrow> 'p"
  build_cell_output :: "'p cell_output_builder \<Rightarrow> 'p"
  build_cell_input :: "'p cell_input_builder \<Rightarrow> 'p"
  build_transaction :: "'p transaction_builder \<Rightarrow> 'p"
  calc_script_hash :: "'p \<Rightarrow> 'p"

text \<open>The getters of the packed types.\<close>

record 'p ckb_getters =
  hash_bytes :: "'p \<Rightarrow> u8 list"
  bytes_bytes :: "'p \<Rightarrow> u8 list"
  script_opt :: "'p \<Rightarrow> 'p option"
  point_tx_hash :: "'p \<Rightarrow> 'p"
  point_index :: "'p \<Rightarrow> u32"
  script_code_hash :: "'p \<Rightarrow> 'p"
  script_hash_type :: "'p \<Rightarrow> 'p"
  script_args :: "'p \<Rightarrow> 'p"
  cell_dep_out_point :: "'p \<Rightarrow> 'p"
  output_lock :: "'p \<Rightarrow> 'p"
  output_type :: "'p \<Rightarrow> 'p"
  input_previous_output :: "'p \<Rightarrow> 'p"
  tx_cell_deps :: "'p \<Rightarrow> 'p list"
  tx_inputs :: "'p \<Rightarrow> 'p list"
  tx_outputs :: "'p \<Rightarrow> 'p list"
  tx_witnesses :: "'p \<Rightarrow> 'p list"

locale packed_laws =
  fixes lib :: "('p, 't) ckb_types" and g :: "'p ckb_getters"
  assumes hash: "length b = 32 \<Longrightarrow> hash_bytes g (pack_hash lib b) = b"
    and bytes: "bytes_bytes g (pack_bytes lib b) = b"
    and opt: "script_opt g (pack_script_opt lib x) = x"
    and point: "point_tx_hash g (new_out_point lib h i) = h" "point_index g (new_out_point lib h i) = i"
    and script: "sb_code_hash sb = Some h \<Longrightarrow> script_code_hash g (build_script lib sb) = h"
      "sb_hash_type sb = Some t \<Longrightarrow> script_hash_type g (build_script lib sb) = t"
      "sb_args sb = Some a \<Longrightarrow> script_args g (build_script lib sb) = a"
    and cell_dep: "db_out_point db = Some p \<Longrightarrow> cell_dep_out_point g (build_cell_dep lib db) = p"
    and cell_output: "ob_lock ob = Some l \<Longrightarrow> output_lock g (build_cell_output lib ob) = l"
      "ob_type ob = Some y \<Longrightarrow> output_type g (build_cell_output lib ob) = y"
    and cell_input: "ib_previous_output ib = Some q \<Longrightarrow> input_previous_output g (build_cell_input lib ib) = q"
    and transaction: "tx_cell_deps g (build_transaction lib tb) = tb_cell_deps tb"
      "tx_inputs g (build_transaction lib tb) = tb_inputs tb"
      "tx_outputs g (build_transaction lib tb) = tb_outputs tb"
      "tx_witnesses g (build_transaction lib tb) = tb_witnesses tb"

section \<open>The mock transaction\<close>

text \<open>The structs of ckb-mock-tx-types that the code fills in.\<close>

record 'p mock_cell_dep =
  md_cell_dep :: 'p
  md_output :: 'p
  md_data :: "u8 list"
  md_header :: "'p option"

record 'p mock_input =
  mi_input :: 'p
  mi_output :: 'p
  mi_data :: "u8 list"
  mi_header :: "'p option"

record 'p mock_info =
  info_inputs :: "'p mock_input list"
  info_cell_deps :: "'p mock_cell_dep list"
  info_header_deps :: "'p list"
  info_extensions :: "'p list"

record 'p mock_transaction =
  mock_tx :: 'p
  mock_info :: "'p mock_info"

definition random_out_point :: "('p, 't) ckb_types \<Rightarrow> 'r rng_library \<Rightarrow> 'r \<Rightarrow> 'p \<times> 'r" where
  "random_out_point lib rnd rng =
     (let (buf, rng') = fill_bytes rnd 32 rng;
          tx_hash = pack_hash lib buf
      in (new_out_point lib tx_hash 0, rng'))"

definition random_script :: "('p, 't) ckb_types \<Rightarrow> 'r rng_library \<Rightarrow> 'r \<Rightarrow> 't \<Rightarrow> 'p \<times> 'r" where
  "random_script lib rnd rng t =
     (let (buf, rng1) = fill_bytes rnd 32 rng;
          code_hash = pack_hash lib buf;
          (len, rng2) = gen_range rnd 1 101 rng1;
          (buf', rng3) = fill_bytes rnd len rng2;
          args = pack_bytes lib buf'
      in (build_script lib \<lparr>sb_code_hash = Some code_hash, sb_hash_type = Some (hash_type_byte lib t),
            sb_args = Some args\<rparr>, rng3))"

definition build_mock_tx :: "('p, 't) ckb_types \<Rightarrow> 'r rng_library \<Rightarrow> u64 \<Rightarrow> u8 list \<Rightarrow> u8 list \<Rightarrow> 'p mock_transaction" where
  "build_mock_tx lib rnd seed program_bytes data =
     (let rng = rng_seed rnd seed;
          (code_type_script, rng1) = random_script lib rnd rng (hash_type_Type lib);
          (dep_point, rng2) = random_out_point lib rnd rng1;
          code_dep =
            \<lparr>md_cell_dep = build_cell_dep lib \<lparr>db_out_point = Some dep_point, db_dep_type = Some (dep_type_Code lib)\<rparr>,
             md_output = build_cell_output lib \<lparr>ob_lock = None, ob_type = Some (pack_script_opt lib (Some code_type_script))\<rparr>,
             md_data = program_bytes, md_header = None\<rparr>;
          input_lock_script = build_script lib \<lparr>sb_code_hash = Some (calc_script_hash lib code_type_script),
             sb_hash_type = Some (hash_type_byte lib (hash_type_Type lib)), sb_args = None\<rparr>;
          (input_point, _) = random_out_point lib rnd rng2;
          input_cell =
            \<lparr>mi_input = build_cell_input lib \<lparr>ib_previous_output = Some input_point\<rparr>,
             mi_output = build_cell_output lib \<lparr>ob_lock = Some input_lock_script, ob_type = None\<rparr>,
             mi_data = [], mi_header = None\<rparr>;
          tx = build_transaction lib \<lparr>tb_cell_deps = [md_cell_dep code_dep], tb_inputs = [mi_input input_cell],
             tb_outputs = [build_cell_output lib \<lparr>ob_lock = None, ob_type = None\<rparr>], tb_witnesses = [pack_bytes lib data]\<rparr>
      in \<lparr>mock_tx = tx,
          mock_info = \<lparr>info_inputs = [input_cell], info_cell_deps = [code_dep], info_header_deps = [],
            info_extensions = []\<rparr>\<rparr>)"

section \<open>What the transaction means\<close>

text \<open>
  A script with hash type \<open>Type\<close> names its code by the hash of a type script: \<open>code_of\<close> lists the data of
  all cell deps whose type script has the hash that the script names.
\<close>

definition code_of :: "('p, 't) ckb_types \<Rightarrow> 'p ckb_getters \<Rightarrow> 'p mock_transaction \<Rightarrow> 'p \<Rightarrow> u8 list list" where
  "code_of lib g m script =
     map md_data (filter (\<lambda>d. map_option (calc_script_hash lib) (script_opt g (output_type g (md_output d)))
       = Some (script_code_hash g script)) (info_cell_deps (mock_info m)))"

text \<open>The mocked cells are those the transaction spends and depends on.\<close>

definition mocks_all_cells :: "'p ckb_getters \<Rightarrow> 'p mock_transaction \<Rightarrow> bool" where
  "mocks_all_cells g m \<longleftrightarrow> map mi_input (info_inputs (mock_info m)) = tx_inputs g (mock_tx m)
     \<and> map md_cell_dep (info_cell_deps (mock_info m)) = tx_cell_deps g (mock_tx m)"

text \<open>A random out point: output 0 of the transaction with a 32-byte hash.\<close>

definition first_output :: "'p ckb_getters \<Rightarrow> 'p \<Rightarrow> bool" where
  "first_output g p \<longleftrightarrow> length (hash_bytes g (point_tx_hash g p)) = 32 \<and> point_index g p = 0"

lemma rng_contractD:
  assumes "rng_contract rnd"
  shows "lo < hi \<Longrightarrow> gen_range rnd lo hi r = (n, r') \<Longrightarrow> lo \<le> n \<and> n < hi"
    and "fill_bytes rnd k r = (b, r') \<Longrightarrow> length b = k"
  using assms unfolding rng_contract_def by (metis fst_conv)+

context packed_laws
begin

lemma random_out_point_first:
  assumes "rng_contract rnd" and "random_out_point lib rnd rng = (p, rng')"
  shows "first_output g p"
  using assms(2) rng_contractD(2) [OF assms(1)]
  by (auto simp: random_out_point_def first_output_def point hash split: prod.splits)

lemma random_script_fields:
  assumes "rng_contract rnd" and "random_script lib rnd rng t = (s, rng')"
  shows "length (hash_bytes g (script_code_hash g s)) = 32" and "script_hash_type g s = hash_type_byte lib t"
    and "1 \<le> length (bytes_bytes g (script_args g s))" and "length (bytes_bytes g (script_args g s)) \<le> 100"
proof -
  obtain h r1 where h: "fill_bytes rnd 32 rng = (h, r1)" by fastforce
  obtain k r2 where k: "gen_range rnd 1 101 r1 = (k, r2)" by fastforce
  obtain a r3 where a: "fill_bytes rnd k r2 = (a, r3)" by fastforce
  have "length h = 32" "1 \<le> k" "k < 101" "length a = k"
    using rng_contractD(2) [OF assms(1) h] rng_contractD(1) [OF assms(1) _ k] rng_contractD(2) [OF assms(1) a] by simp_all
  moreover have "s = build_script lib \<lparr>sb_code_hash = Some (pack_hash lib h), sb_hash_type = Some (hash_type_byte lib t),
      sb_args = Some (pack_bytes lib a)\<rparr>"
    using assms(2) unfolding random_script_def by (simp only: Let_def h k a prod.case prod.inject)
  ultimately show "length (hash_bytes g (script_code_hash g s)) = 32" and "script_hash_type g s = hash_type_byte lib t"
    and "1 \<le> length (bytes_bytes g (script_args g s))" and "length (bytes_bytes g (script_args g s)) \<le> 100"
    by (simp_all add: script hash bytes)
qed

end

section \<open>A reference implementation\<close>

text \<open>Trees, with a leaf for every field that has not been set.\<close>

datatype packed_tree = Leaf "u8 list" | Index u32 | Node "packed_tree list"

definition tree_of :: "packed_tree option \<Rightarrow> packed_tree" where
  "tree_of x = (case x of None \<Rightarrow> Leaf [] | Some t \<Rightarrow> t)"

fun subtree :: "nat \<Rightarrow> packed_tree \<Rightarrow> packed_tree" where
  "subtree i (Node ts) = (if i < length ts then ts ! i else Leaf [])"
| "subtree i t = t"

fun leaf_bytes :: "packed_tree \<Rightarrow> u8 list" where
  "leaf_bytes (Leaf b) = b"
| "leaf_bytes t = []"

fun subtrees :: "packed_tree \<Rightarrow> packed_tree list" where
  "subtrees (Node ts) = ts"
| "subtrees t = []"

definition tree_types :: "(packed_tree, u8) ckb_types" where
  "tree_types =
     \<lparr>pack_hash = Leaf, pack_bytes = Leaf, pack_script_opt = (\<lambda>x. case x of None \<Rightarrow> Node [] | Some s \<Rightarrow> Node [s]),
      hash_type_Type = 1, hash_type_byte = (\<lambda>t. Leaf [t]), dep_type_Code = Leaf [0], new_out_point = (\<lambda>h i. Node [h, Index i]),
      build_script = (\<lambda>b. Node [tree_of (sb_code_hash b), tree_of (sb_hash_type b), tree_of (sb_args b)]),
      build_cell_dep = (\<lambda>b. Node [tree_of (db_out_point b), tree_of (db_dep_type b)]),
      build_cell_output = (\<lambda>b. Node [tree_of (ob_lock b), tree_of (ob_type b)]),
      build_cell_input = (\<lambda>b. Node [tree_of (ib_previous_output b)]),
      build_transaction = (\<lambda>b. Node [Node (tb_cell_deps b), Node (tb_inputs b), Node (tb_outputs b), Node (tb_witnesses b)]),
      calc_script_hash = (\<lambda>s. Node [s])\<rparr>"

definition tree_getters :: "packed_tree ckb_getters" where
  "tree_getters =
     \<lparr>hash_bytes = leaf_bytes, bytes_bytes = leaf_bytes,
      script_opt = (\<lambda>t. if subtrees t = [] then None else Some (hd (subtrees t))),
      point_tx_hash = subtree 0, point_index = (\<lambda>t. case subtree 1 t of Index i \<Rightarrow> i | _ \<Rightarrow> 0),
      script_code_hash = subtree 0, script_hash_type = subtree 1, script_args = subtree 2,
      cell_dep_out_point = subtree 0, output_lock = subtree 0, output_type = subtree 1,
      input_previous_output = subtree 0, tx_cell_deps = (\<lambda>t. subtrees (subtree 0 t)),
      tx_inputs = (\<lambda>t. subtrees (subtree 1 t)), tx_outputs = (\<lambda>t. subtrees (subtree 2 t)),
      tx_witnesses = (\<lambda>t. subtrees (subtree 3 t))\<rparr>"

interpretation tree: packed_laws tree_types tree_getters
  by unfold_locales (simp_all add: tree_types_def tree_getters_def tree_of_def split: option.splits)

section \<open>Properties\<close>

text \<open>
  C25: the mock transaction runs the given program on the given dataflow, for every seed: it mocks
  exactly the cells it names, at out points of index 0; the lock script of its one input has hash type
  \<open>Type\<close> and names by its hash exactly one cell, whose data is the program; the type script of that
  cell has 1 to 100 random bytes of arguments; the one witness is the dataflow.
\<close>

theorem mock_tx_runs_program:
  assumes "packed_laws lib g" and "rng_contract rnd"
  shows "\<exists>input dep lock type_script.
    mock_info (build_mock_tx lib rnd seed program_bytes data) =
      \<lparr>info_inputs = [input], info_cell_deps = [dep], info_header_deps = [], info_extensions = []\<rparr> \<and>
    mocks_all_cells g (build_mock_tx lib rnd seed program_bytes data) \<and>
    first_output g (input_previous_output g (mi_input input)) \<and> first_output g (cell_dep_out_point g (md_cell_dep dep)) \<and>
    lock = output_lock g (mi_output input) \<and> script_hash_type g lock = hash_type_byte lib (hash_type_Type lib) \<and>
    code_of lib g (build_mock_tx lib rnd seed program_bytes data) lock = [program_bytes] \<and>
    script_opt g (output_type g (md_output dep)) = Some type_script \<and>
    length (bytes_bytes g (script_args g type_script)) \<in> {1..100} \<and>
    map (bytes_bytes g) (tx_witnesses g (mock_tx (build_mock_tx lib rnd seed program_bytes data))) = [data]"
proof -
  note laws = packed_laws.point packed_laws.opt packed_laws.bytes packed_laws.script packed_laws.cell_dep packed_laws.cell_output
    packed_laws.cell_input packed_laws.transaction
  obtain s r1 where s: "random_script lib rnd (rng_seed rnd seed) (hash_type_Type lib) = (s, r1)" by fastforce
  obtain p r2 where p: "random_out_point lib rnd r1 = (p, r2)" by fastforce
  obtain q r3 where q: "random_out_point lib rnd r2 = (q, r3)" by fastforce
  show ?thesis
    using packed_laws.random_out_point_first [OF assms p] packed_laws.random_out_point_first [OF assms q]
      packed_laws.random_script_fields [OF assms s]
    by (simp add: build_mock_tx_def s p q mocks_all_cells_def code_of_def laws [OF assms(1)])
qed

theorem mock_tx_runs_program_witness:
  "\<exists>lock. code_of tree_types tree_getters (build_mock_tx tree_types counter_rng 7 [1, 2, 3] [9]) lock = [[1, 2, 3]]"
  using mock_tx_runs_program [OF tree.packed_laws_axioms counter_rng_contract, of 7 "[1, 2, 3]" "[9]"] by blast

end
