(* ===== verification/Front_Ends.thy ===== *)
theory Front_Ends
  imports Tx_Driver Dataflow_Correct Dag_Display Mock_Tx
begin

text \<open>
  The two programs of examples/: \<open>dag_generator\<close> generates a dataflow, prints it, builds the mock
  transaction and runs it; \<open>tx_verifier\<close> runs a transaction given as JSON. Both compose the parts
  modelled in the other theories.

  What they read from the outside (command line, clock, files, standard input, JSON, the text of an
  error) is the record \<open>world\<close>. What they do is recorded as events, and a program that ends has an
  exit code. The outcome is \<open>None\<close> where the program does not return.
\<close>

section \<open>Input and output\<close>

datatype host_event = Println string | WriteFile string "u8 list"

type_synonym 'a io = "host_event list \<Rightarrow> 'a outcome \<times> host_event list"

definition io_bind :: "'a io \<Rightarrow> ('a \<Rightarrow> 'b io) \<Rightarrow> 'b io" where
  "io_bind f g es = (case f es of
     (None, es') \<Rightarrow> (None, es')
   | (Some (Ok a), es') \<Rightarrow> g a es'
   | (Some (Err e), es') \<Rightarrow> (Some (Err e), es')
   | (Some (Panic k), es') \<Rightarrow> (Some (Panic k), es'))"

definition await :: "'a outcome \<Rightarrow> 'a io" where
  "await x es = (x, es)"

definition emit :: "host_event \<Rightarrow> unit io" where
  "emit e es = (Some (Ok ()), es @ [e])"

text \<open>\<open>expect\<close>: an error becomes a panic.\<close>

definition expected :: "'a outcome \<Rightarrow> 'a outcome" where
  "expected x = (case x of Some (Err e) \<Rightarrow> Some (Panic UnwrapNone) | _ \<Rightarrow> x)"

text \<open>What a getter of \<open>dag\<close> does to the program; getters have no error value.\<close>

fun of_getter :: "'a vres \<Rightarrow> 'a outcome" where
  "of_getter (Verified a) = Some (Ok a)"
| "of_getter (Crashed Underflow) = Some (Panic ArithOverflow)"
| "of_getter (Crashed k) = Some (Panic MissingKey)"
| "of_getter (Rejected e) = Some (Panic Unreachable)"

record ('p, 'w) world =
  clock_nanos :: "nat option"
  read_file :: "string \<Rightarrow> u8 list option"
  read_text :: "string \<Rightarrow> 'w option"
  read_stdin :: "'w option"
  tx_of_json :: "'w \<Rightarrow> 'p mock_transaction option"
  json_of_tx :: "'p mock_transaction \<Rightarrow> u8 list option"
  can_write :: "string \<Rightarrow> u8 list \<Rightarrow> bool"
  error_display :: "vm_error \<Rightarrow> string"
  error_debug :: "vm_error \<Rightarrow> string"

section \<open>The dataflow generator\<close>

record generator_args =
  output_tx_file :: "string option"
  seed_arg :: "u64 option"
  spawns_arg :: u32
  writes_arg :: u32
  threshold_arg :: u32
  test_contract_path :: string
  max_cycles_arg :: u64

definition generator_defaults :: generator_args where
  "generator_defaults = \<lparr>output_tx_file = None, seed_arg = None, spawns_arg = 5, writes_arg = 5, threshold_arg = 2,
     test_contract_path = ''./test_bin'', max_cycles_arg = 100000000\<rparr>"

text \<open>\<open>u64::from_le_bytes\<close>; \<open>copy_from_slice\<close> panics unless the lengths agree.\<close>

definition from_le_bytes :: "u8 list \<Rightarrow> u64" where
  "from_le_bytes bs = foldr (\<lambda>b acc. ucast b OR push_bit 8 acc) bs 0"

definition vm_index_to_u64 :: "VmIndex \<Rightarrow> u64 vres" where
  "vm_index_to_u64 i = (if length i = 8 then Verified (from_le_bytes i) else Crashed SliceOutOfRange)"

definition pipe_index_to_u64 :: "PipeIndex \<Rightarrow> u64 vres" where
  "pipe_index_to_u64 i = (if length i = 8 then Verified (from_le_bytes i) else Crashed SliceOutOfRange)"

definition show_u64 :: "u64 \<Rightarrow> string" where
  "show_u64 n = decimal (unat n)"

text \<open>The line of each kind of entry.\<close>

definition pipe_line :: "number_codec \<Rightarrow> Pipe \<Rightarrow> string vres" where
  "pipe_line num p =
     vbind (vbind (Pipe_vm num p) vm_index_to_u64) (\<lambda>vm.
     vbind (vbind (Pipe_read_pipe num p) pipe_index_to_u64) (\<lambda>read_pipe'.
     vbind (vbind (Pipe_write_pipe num p) pipe_index_to_u64) (\<lambda>write_pipe'.
     Verified (''VM '' @ show_u64 vm @ '' creates read pipe '' @ show_u64 read_pipe' @ '', write pipe '' @ show_u64 write_pipe'))))"

definition spawn_line :: "number_codec \<Rightarrow> Spawn \<Rightarrow> string vres" where
  "spawn_line num sp =
     vbind (vbind (Spawn_from num sp) vm_index_to_u64) (\<lambda>from.
     vbind (vbind (Spawn_child num sp) vm_index_to_u64) (\<lambda>child.
     vbind (vbind (vbind (Spawn_pipes num sp) (PipeIndices_into_iter num)) (vmap pipe_index_to_u64)) (\<lambda>ends.
     Verified (''VM '' @ show_u64 from @ '' spawns VM '' @ show_u64 child @ '', passed pipes: [''
       @ comma_separated (map show_u64 ends) @ '']''))))"

definition write_line :: "number_codec \<Rightarrow> Write \<Rightarrow> string vres" where
  "write_line num w =
     vbind (vbind (Write_from num w) vm_index_to_u64) (\<lambda>from.
     vbind (vbind (Write_from_pipe num w) pipe_index_to_u64) (\<lambda>from_pipe.
     vbind (vbind (Write_to num w) vm_index_to_u64) (\<lambda>to'.
     vbind (vbind (Write_to_pipe num w) pipe_index_to_u64) (\<lambda>to_pipe.
     vbind (vbind (Write_data num w) Bytes_raw_data) (\<lambda>data.
     Verified (''VM '' @ show_u64 from @ '' writes '' @ decimal (length data) @ '' bytes to pipe '' @ show_u64 from_pipe
       @ '', read by VM '' @ show_u64 to' @ '' from pipe '' @ show_u64 to_pipe))))))"

text \<open>A \<open>for\<close> loop over \<open>into_iter()\<close> that prints one line per item.\<close>

fun print_from :: "(nat \<Rightarrow> byte_list vres) \<Rightarrow> (byte_list \<Rightarrow> string vres) \<Rightarrow> nat list \<Rightarrow> unit io" where
  "print_from get line [] = await (Some (Ok ()))"
| "print_from get line (i # is) =
     io_bind (await (of_getter (vbind (get i) line))) (\<lambda>text'.
     io_bind (emit (Println text')) (\<lambda>_. print_from get line is))"

definition print_each :: "nat vres \<Rightarrow> (nat \<Rightarrow> byte_list vres) \<Rightarrow> (byte_list \<Rightarrow> string vres) \<Rightarrow> unit io" where
  "print_each count get line = io_bind (await (of_getter count)) (\<lambda>n. print_from get line [0..<n])"

definition print_data :: "number_codec \<Rightarrow> Data \<Rightarrow> unit io" where
  "print_data num data =
     io_bind (await (of_getter (Data_pipes num data))) (\<lambda>ps.
     io_bind (print_each (Pipes_item_count num ps) (Pipes_get_unchecked num ps) (pipe_line num)) (\<lambda>_.
     io_bind (await (of_getter (Data_spawns num data))) (\<lambda>ss.
     io_bind (print_each (Spawns_item_count num ss) (Spawns_get_unchecked num ss) (spawn_line num)) (\<lambda>_.
     io_bind (await (of_getter (Data_writes num data))) (\<lambda>ws.
     print_each (Writes_item_count num ws) (Writes_get_unchecked num ws) (write_line num))))))"

definition dump_tx :: "('p, 'w) world \<Rightarrow> string option \<Rightarrow> 'p mock_transaction \<Rightarrow> unit io" where
  "dump_tx w output_file m =
     (case output_file of
        None \<Rightarrow> await (Some (Ok ()))
      | Some f \<Rightarrow>
          io_bind (await (unwrapped UnwrapNone (json_of_tx w m))) (\<lambda>json.
          io_bind (await (asserted (can_write w f json))) (\<lambda>_. emit (WriteFile f json))))"

text \<open>The \<open>match\<close> on the verdict: exit code 0, or 1 after an error.\<close>

definition report :: "(vm_error \<Rightarrow> string) \<Rightarrow> u64 outcome \<Rightarrow> nat io" where
  "report show_error outcome =
     (case outcome of
        Some (Ok cycles) \<Rightarrow>
          io_bind (emit (Println (''Tx completes consuming '' @ show_u64 cycles @ '' cycles!''))) (\<lambda>_. await (Some (Ok 0)))
      | Some (Err e) \<Rightarrow> io_bind (emit (Println (''Tx error occurs: '' @ show_error e))) (\<lambda>_. await (Some (Ok 1)))
      | Some (Panic k) \<Rightarrow> await (Some (Panic k))
      | None \<Rightarrow> await None)"

definition dag_generator_main ::
    "number_codec \<Rightarrow> 'd dag_library \<Rightarrow> 'r rng_library \<Rightarrow> ('p, 't) ckb_types \<Rightarrow>
     ('p mock_transaction, 'rtx, 'g, 'm, 'c, 's, 'e, 'z, 'dat) script_library \<Rightarrow> ('p, 'w) world \<Rightarrow> generator_args \<Rightarrow> nat io" where
  "dag_generator_main num lib rnd ckb slib w args =
     io_bind (await (case seed_arg args of
          Some val \<Rightarrow> returned val
        | None \<Rightarrow> obind (unwrapped UnwrapNone (clock_nanos w)) (\<lambda>nanos. returned (of_nat nanos)))) (\<lambda>seed.
     io_bind (emit (Println (''Seed: '' @ show_u64 seed))) (\<lambda>_.
     io_bind (await (expected (generate_data_graph num lib rnd seed (spawns_arg args) (writes_arg args) (threshold_arg args)))) (\<lambda>data.
     io_bind (print_data num data) (\<lambda>_.
     io_bind (await (unwrapped UnwrapNone (read_file w (test_contract_path args)))) (\<lambda>program_bytes.
     let m = build_mock_tx ckb rnd (seed + 10) program_bytes data in
     io_bind (dump_tx w (output_tx_file args) m) (\<lambda>_.
     report (error_debug w) (verify_tx slib m (max_cycles_arg args) (max_cycles_arg args) (max_cycles_arg args))))))))"

section \<open>The transaction verifier\<close>

record verifier_args =
  tx_file :: string
  cycles_per_iterate_arg :: u64
  cycles_per_suspend_arg :: u64
  verifier_max_cycles_arg :: u64

definition verifier_defaults :: "string \<Rightarrow> verifier_args" where
  "verifier_defaults f = \<lparr>tx_file = f, cycles_per_iterate_arg = 5000000, cycles_per_suspend_arg = 20000000,
     verifier_max_cycles_arg = 18446744073709551615\<rparr>"

definition load_tx :: "('p, 'w) world \<Rightarrow> string \<Rightarrow> 'p mock_transaction outcome" where
  "load_tx w file =
     obind (unwrapped UnwrapNone (if file = ''-'' then read_stdin w else read_text w file)) (\<lambda>data.
     unwrapped UnwrapNone (tx_of_json w data))"

definition tx_verifier_main ::
    "('p mock_transaction, 'rtx, 'g, 'm, 'c, 's, 'e, 'z, 'dat) script_library \<Rightarrow> ('p, 'w) world \<Rightarrow> verifier_args \<Rightarrow> nat io" where
  "tx_verifier_main slib w args =
     io_bind (await (load_tx w (tx_file args))) (\<lambda>m.
     report (error_display w) (verify_tx slib m (verifier_max_cycles_arg args) (cycles_per_iterate_arg args)
       (cycles_per_suspend_arg args)))"

section \<open>Numbers and indices\<close>

lemma bit_from_le_bytes:
  "n < 64 \<Longrightarrow> bit (from_le_bytes bs) n \<longleftrightarrow> n div 8 < length bs \<and> bit (bs ! (n div 8)) (n mod 8)"
proof (induction bs arbitrary: n)
  case (Cons b bs)
  show ?case
  proof (cases "n < 8")
    case True
    then show ?thesis
      using Cons.prems by (simp add: from_le_bytes_def bit_or_iff bit_push_bit_iff bit_unsigned_iff)
  next
    case False
    then have "n div 8 = Suc ((n - 8) div 8)" "n mod 8 = (n - 8) mod 8"
      by (simp_all add: le_div_geq le_mod_geq)
    moreover have "\<not> bit b n"
      using False bit_imp_le_length [of b n] by auto
    moreover have "bit (from_le_bytes (b # bs)) n \<longleftrightarrow> bit b n \<or> bit (from_le_bytes bs) (n - 8)"
      using False Cons.prems by (auto simp: from_le_bytes_def bit_or_iff bit_push_bit_iff bit_unsigned_iff)
    ultimately show ?thesis
      using Cons.IH [of "n - 8"] Cons.prems by simp
  qed
qed (simp add: from_le_bytes_def)

lemma to_le_bytes_nth:
  "length (to_le_bytes v) = 8"
  "i < 8 \<Longrightarrow> to_le_bytes v ! i = ucast (drop_bit (8 * i) v)"
  by (auto simp: to_le_bytes_def less_Suc_eq numeral_eq_Suc)

lemma from_to_le_bytes: "from_le_bytes (to_le_bytes v) = v"
proof (rule bit_word_eqI)
  fix n assume n: "n < LENGTH(64)"
  then have "n div 8 < 8" by (simp add: less_mult_imp_div_less)
  then show "bit (from_le_bytes (to_le_bytes v)) n = bit v n"
    using n by (simp add: bit_from_le_bytes to_le_bytes_nth bit_unsigned_iff bit_drop_bit_eq)
qed

lemma to_from_le_bytes:
  assumes "length bs = 8"
  shows "to_le_bytes (from_le_bytes bs) = bs"
proof (rule nth_equalityI)
  fix i assume "i < length (to_le_bytes (from_le_bytes bs))"
  then have i: "i < 8" by (simp add: to_le_bytes_nth)
  show "to_le_bytes (from_le_bytes bs) ! i = bs ! i"
  proof (rule bit_word_eqI)
    fix n assume "n < LENGTH(8)"
    then show "bit (to_le_bytes (from_le_bytes bs) ! i) n = bit (bs ! i) n"
      using i assms by (simp add: to_le_bytes_nth bit_unsigned_iff bit_drop_bit_eq bit_from_le_bytes)
  qed
qed (simp add: to_le_bytes_nth assms)

lemma built_index_bytes: "build_vm_index v = to_le_bytes v" "build_pipe_index v = to_le_bytes v"
  using map_nth [of "to_le_bytes v"]
  by (simp_all add: build_vm_index_def build_pipe_index_def VmIndexBuilder_build_def PipeIndexBuilder_build_def
      array_write_def to_le_bytes_nth(1))

section \<open>The printed lines\<close>

text \<open>The lines of a dataflow read from its bytes.\<close>

definition index_number :: "byte_list \<Rightarrow> string" where
  "index_number i = show_u64 (from_le_bytes i)"

fun pipe_report :: "pipe_entry \<Rightarrow> string" where
  "pipe_report (vm, r, w) = ''VM '' @ index_number vm @ '' creates read pipe '' @ index_number r @ '', write pipe '' @ index_number w"

fun spawn_report :: "spawn_entry \<Rightarrow> string" where
  "spawn_report (from, child, ends) = ''VM '' @ index_number from @ '' spawns VM '' @ index_number child @ '', passed pipes: [''
     @ comma_separated (map index_number ends) @ '']''"

fun write_report :: "write_entry \<Rightarrow> string" where
  "write_report (from, from_pipe, to', to_pipe, data) = ''VM '' @ index_number from @ '' writes '' @ decimal (length data)
     @ '' bytes to pipe '' @ index_number from_pipe @ '', read by VM '' @ index_number to' @ '' from pipe '' @ index_number to_pipe"

fun dag_report :: "dag \<Rightarrow> string list" where
  "dag_report (ss, ps, ws) = map pipe_report ps @ map spawn_report ss @ map write_report ws"

lemmas io_defs = io_bind_def await_def emit_def

lemma print_from_lines:
  "(\<And>i. i \<in> set is \<Longrightarrow> vbind (get i) line = Verified (t i)) \<Longrightarrow>
    print_from get line is es = (Some (Ok ()), es @ map (\<lambda>i. Println (t i)) is)"
  by (induction "is" arbitrary: es) (simp_all add: io_defs)

context number_format
begin

lemma print_vector:
  assumes "dynvec_verify num name V s c = Verified ()" and "dynvec_decode num D s = Verified vs"
    and "\<And>p v. v \<in> set vs \<Longrightarrow> V p c = Verified () \<Longrightarrow> D p = Verified v \<Longrightarrow> line p = Verified (txt v)"
  shows "print_each (offset_count num s) (dynvec_get_unchecked num s) line es = (Some (Ok ()), es @ map (\<lambda>v. Println (txt v)) vs)"
proof -
  from assms(1) obtain ps where ps: "into_items (offset_count num s) (dynvec_get_unchecked num s) = Verified ps"
      "\<forall>p\<in>set ps. V p c = Verified ()" "offset_count num s = Verified (length ps)"
      "\<And>i. i < length ps \<Longrightarrow> dynvec_get_unchecked num s i = Verified (ps ! i)"
    by (rule dynvec_items) blast
  have d: "length vs = length ps" "\<And>i. i < length ps \<Longrightarrow> D (ps ! i) = Verified (vs ! i)"
    using assms(2) ps(1) by (simp_all add: dynvec_decode_def vmap_eq_Verified)
  have "vbind (dynvec_get_unchecked num s i) line = Verified (txt (vs ! i))" if "i \<in> set [0..<length ps]" for i
    using that ps(2,4) d assms(3) [of "vs ! i" "ps ! i"] by simp
  from print_from_lines [OF this] have "print_from (dynvec_get_unchecked num s) line [0..<length ps] es
      = (Some (Ok ()), es @ map (\<lambda>i. Println (txt (vs ! i))) [0..<length ps])" .
  moreover have "map (\<lambda>i. Println (txt (vs ! i))) [0..<length ps] = map (\<lambda>v. Println (txt v)) vs"
    by (rule nth_equalityI) (simp_all add: d(1))
  ultimately show ?thesis
    by (simp add: print_each_def io_defs ps(3))
qed

lemma raw_length:
  assumes "BytesReader_verify num s c = Verified ()" and "Bytes_into_iter num s = Verified data"
  obtains raw where "Bytes_raw_data s = Verified raw" and "length raw = length data"
proof -
  from assms(1) obtain ps where ps: "into_items (fixvec_item_count num s) (fixvec_get_unchecked 1 s) = Verified ps"
      "fixvec_write num ps = s" "\<forall>p\<in>set ps. length p = 1"
    unfolding BytesReader_verify_def by (rule fixvec_items)
  have "data = map (\<lambda>p. p ! 0) ps"
    using assms(2) ps(1) by (simp add: Bytes_into_iter_fixvec fixvec_decode_def)
  moreover have "length (concat ps) = length ps"
    using ps(3) by (induction ps) auto
  moreover have "drop 4 s = concat ps" "4 \<le> length s"
    by (simp_all flip: ps(2) add: fixvec_write_def)
  ultimately show thesis
    using that [of "concat ps"] by (simp add: Bytes_raw_data_def slice_from_def)
qed

end

lemma pipe_line_text:
  assumes "Pipe_decode num p = Verified (vm, r, w)" and "index_wf vm" "index_wf r" "index_wf w"
  shows "pipe_line num p = Verified (pipe_report (vm, r, w))"
  using assms
  by (cases "Pipe_vm num p"; cases "Pipe_read_pipe num p"; cases "Pipe_write_pipe num p")
    (simp_all add: Pipe_decode_def pipe_line_def vm_index_to_u64_def pipe_index_to_u64_def index_wf_def index_number_def)

lemma ends_numbers: "list_all index_wf ends \<Longrightarrow> vmap pipe_index_to_u64 ends = Verified (map from_le_bytes ends)"
  by (rule vmap_Verified_map) (simp add: pipe_index_to_u64_def list_all_iff index_wf_def)

lemma spawn_line_text:
  assumes "Spawn_decode num p = Verified (from, child, ends)" and "index_wf from" "index_wf child" "list_all index_wf ends"
  shows "spawn_line num p = Verified (spawn_report (from, child, ends))"
proof -
  obtain q where "Spawn_pipes num p = Verified q" "PipeIndices_into_iter num q = Verified ends"
      "Spawn_from num p = Verified from" "Spawn_child num p = Verified child"
    using assms(1) by (cases "Spawn_from num p"; cases "Spawn_child num p"; cases "Spawn_pipes num p")
      (auto simp: Spawn_decode_def elim: vbind.elims)
  then show ?thesis
    using assms(2-4) by (simp add: spawn_line_def vm_index_to_u64_def index_wf_def ends_numbers index_number_def [abs_def] comp_def)
qed

lemma write_line_text:
  assumes "number_format num" and "WriteReader_verify num p c = Verified ()"
    and "Write_decode num p = Verified (from, from_pipe, to', to_pipe, data)"
    and "index_wf from" "index_wf from_pipe" "index_wf to'" "index_wf to_pipe"
  shows "write_line num p = Verified (write_report (from, from_pipe, to', to_pipe, data))"
proof -
  obtain a b d e q where f: "table_field num 5 0 p = Verified a" "table_field num 5 1 p = Verified b"
      "table_field num 5 2 p = Verified d" "table_field num 5 3 p = Verified e" "table_field num 5 4 p = Verified q"
      "BytesReader_verify num q c = Verified ()"
    using number_format.table_five [OF assms(1)] assms(2) unfolding WriteReader_verify_def by metis
  then have q: "Bytes_into_iter num q = Verified data" "a = from" "b = from_pipe" "d = to'" "e = to_pipe"
    using assms(3) by (cases "Bytes_into_iter num q"; simp add: Write_decode_table table5_decode_def)+
  obtain raw where "Bytes_raw_data q = Verified raw" "length raw = length data"
    by (rule number_format.raw_length [OF assms(1) f(6) q(1)])
  then show ?thesis
    using f(1-5) q assms(4-7)
    by (simp add: write_line_def Write_from_def Write_from_pipe_def Write_to_def Write_to_pipe_def Write_data_def
        vm_index_to_u64_def pipe_index_to_u64_def index_wf_def index_number_def)
qed

lemma print_data_lines:
  assumes "number_format num" and "DataReader_verify num s c = Verified ()" and "Data_decode num s = Verified d"
  shows "print_data num s es = (Some (Ok ()), es @ map Println (dag_report d))"
proof -
  obtain ss ps ws where d: "d = (ss, ps, ws)" by (cases d)
  have wf: "dag_wf (ss, ps, ws)"
    using entity.readable [OF Data_entity [OF assms(1)] assms(2)] assms(3) d by simp
  obtain x y z where f: "table_field num 3 0 s = Verified x" "SpawnsReader_verify num x c = Verified ()"
      "table_field num 3 1 s = Verified y" "PipesReader_verify num y c = Verified ()"
      "table_field num 3 2 s = Verified z" "WritesReader_verify num z c = Verified ()"
    using number_format.table_three [OF assms(1)] assms(2) unfolding DataReader_verify_def by metis
  have dec: "dynvec_decode num (Spawn_decode num) x = Verified ss" "dynvec_decode num (Pipe_decode num) y = Verified ps"
      "dynvec_decode num (Write_decode num) z = Verified ws"
    using assms(3) f(1,3,5) unfolding d Data_decode_table table3_decode_def
    by (cases "dynvec_decode num (Spawn_decode num) x"; cases "dynvec_decode num (Pipe_decode num) y";
        cases "dynvec_decode num (Write_decode num) z"; simp)+
  note pv = number_format.print_vector [OF assms(1)]
  have "print_each (offset_count num y) (dynvec_get_unchecked num y) (pipe_line num) es
      = (Some (Ok ()), es @ map (\<lambda>v. Println (pipe_report v)) ps)" for es
    by (rule pv [OF f(4) [unfolded PipesReader_verify_def] dec(2)])
      (use wf in \<open>auto simp: list_all_iff intro!: pipe_line_text\<close>)
  moreover have "print_each (offset_count num x) (dynvec_get_unchecked num x) (spawn_line num) es
      = (Some (Ok ()), es @ map (\<lambda>v. Println (spawn_report v)) ss)" for es
    by (rule pv [OF f(2) [unfolded SpawnsReader_verify_def] dec(1)])
      (use wf in \<open>auto simp: list_all_iff intro!: spawn_line_text\<close>)
  moreover have "print_each (offset_count num z) (dynvec_get_unchecked num z) (write_line num) es
      = (Some (Ok ()), es @ map (\<lambda>v. Println (write_report v)) ws)" for es
    by (rule pv [OF f(6) [unfolded WritesReader_verify_def] dec(3)])
      (use wf in \<open>auto simp: list_all_iff intro!: write_line_text [OF assms(1)]\<close>)
  ultimately show ?thesis
    by (simp add: print_data_def io_defs d f(1,3,5) Data_pipes_def Data_spawns_def Data_writes_def
        Pipes_item_count_def Pipes_get_unchecked_def [abs_def] Spawns_item_count_def Spawns_get_unchecked_def [abs_def]
        Writes_item_count_def Writes_get_unchecked_def [abs_def] comp_def del: One_nat_def)
qed

text \<open>The lines of a generated dataflow, from its numbers.\<close>

fun flow_report :: "dataflow \<Rightarrow> string list" where
  "flow_report (ss, pl, ws) =
     map (\<lambda>(vm, r, w). ''VM '' @ decimal vm @ '' creates read pipe '' @ decimal r @ '', write pipe '' @ decimal w) pl
   @ map (\<lambda>(vm, child, ends). ''VM '' @ decimal vm @ '' spawns VM '' @ decimal child @ '', passed pipes: [''
       @ comma_separated (map decimal ends) @ '']'') ss
   @ map (\<lambda>(w, wend, r, rend, data). ''VM '' @ decimal w @ '' writes '' @ decimal (length data) @ '' bytes to pipe ''
       @ decimal wend @ '', read by VM '' @ decimal r @ '' from pipe '' @ decimal rend) ws"

fun flow_small :: "nat \<Rightarrow> dataflow \<Rightarrow> bool" where
  "flow_small k (ss, pl, ws) \<longleftrightarrow>
     (\<forall>(vm, child, ends) \<in> set ss. vm < k \<and> child < k \<and> (\<forall>q \<in> set ends. q < k)) \<and>
     (\<forall>(vm, r, w) \<in> set pl. vm < k \<and> r < k \<and> w < k) \<and>
     (\<forall>(w, wend, r, rend, d) \<in> set ws. w < k \<and> wend < k \<and> r < k \<and> rend < k)"

lemma index_number_built:
  assumes "n < 2 ^ 64"
  shows "index_number (build_vm_index (of_nat n)) = decimal n" and "index_number (build_pipe_index (of_nat n)) = decimal n"
  using assms by (simp_all add: index_number_def built_index_bytes from_to_le_bytes show_u64_def unsigned_of_nat
      take_bit_nat_eq_self)

lemma flow_report_printed:
  assumes "flow_small (2 ^ 64) flow"
  shows "dag_report (dag_of_dataflow flow) = flow_report flow"
proof -
  obtain ss pl ws where flow: "flow = (ss, pl, ws)" by (cases flow)
  note n = index_number_built
  have ends: "map (index_number \<circ> (\<lambda>p. build_pipe_index (of_nat p))) ends = map decimal ends"
    if "\<forall>q \<in> set ends. q < 2 ^ 64" for ends
    using that by (simp add: n)
  show ?thesis
    using assms unfolding flow by (simp add: split_beta n ends)
qed

lemma made_small:
  assumes "made_from ps W es flow" and "length ps < k" and "2 * length W < k"
  shows "flow_small k flow"
proof -
  obtain ss pl ws where flow: "flow = (ss, pl, ws)" by (cases flow)
  have t: "is_tree ps" and es: "set es = {..<length ps}" and W: "writes_ok (Suc (length ps)) W"
    and ss: "list_all2 (\<lambda>e (parent, child, passed). parent = ps ! e \<and> child = Suc e \<and> distinct passed \<and>
       set passed = carried ps W [0..<length W] e) es ss"
    and pl: "\<forall>n r w. (n, r, w) \<in> set pl \<longleftrightarrow> (\<exists>e < length W. n = creator ps W e \<and> r = e * 2 \<and> w = e * 2 + 1)"
    and ws: "list_all2 (\<lambda>e (w, wend, r, rend, d). (w, r) = W ! e \<and> wend = e * 2 + 1 \<and> rend = e * 2 \<and> 1 \<le> length d \<and> length d \<le> 1024)
       [0..<length W] ws"
    using assms(1) unfolding made_from_def flow by (simp_all add: case_prod_beta)
  have ends: "q < k" if "q div 2 < length W" for q
    using that assms(3) by linarith
  have "vm < k \<and> child < k \<and> (\<forall>q \<in> set p. q < k)" if x: "(vm, child, p) \<in> set ss" for vm child p
  proof -
    obtain e where "e \<in> set es" "vm = ps ! e" "child = Suc e" "set p = carried ps W [0..<length W] e"
      using ss x by (fastforce simp: list_all2_conv_all_nth in_set_conv_nth)
    then show ?thesis
      using es t assms(2) ends by (force simp: is_tree_def carried_def)
  qed
  moreover have "vm < k \<and> r < k \<and> w < k" if x: "(vm, r, w) \<in> set pl" for vm r w
  proof -
    obtain e where e: "e < length W" "vm = creator ps W e" "r = e * 2" "w = e * 2 + 1"
      using pl x by blast
    then have "vm \<le> fst (W ! e)"
      using common_in [of ps "fst (W ! e)" "snd (W ! e)"] by (auto simp: creator_def intro: above_le)
    then show ?thesis
      using e writes_ok_ends [OF W e(1)] assms(2) ends [of r] ends [of w] by simp
  qed
  moreover have "w < k \<and> wend < k \<and> r < k \<and> rend < k" if x: "(w, wend, r, rend, d) \<in> set ws" for w wend r rend d
  proof -
    obtain e where e: "e < length W" "(w, r) = W ! e" "wend = e * 2 + 1" "rend = e * 2"
      using ws x by (fastforce simp: list_all2_conv_all_nth in_set_conv_nth)
    then show ?thesis
      using writes_ok_ends [OF W e(1)] assms(2) ends [of wend] ends [of rend] by (simp flip: e(2))
  qed
  ultimately show ?thesis
    unfolding flow by fastforce
qed

lemma generated_small:
  assumes "dag_laws lib nodes edges" and "rng_contract rnd" and "unat spawns < index_end"
    and "generate_dataflow lib rnd seed spawns writes threshold = Some (Ok flow)"
  shows "flow_small (2 ^ 64) flow"
proof -
  obtain ps W es ss pl ws where g: "generate_dataflow lib rnd seed spawns writes threshold = Some (Ok (ss, pl, ws))"
    and m: "made_from ps W es (ss, pl, ws)" and n: "length ps = unat spawns" "length W \<le> unat writes"
    by (rule generated_made [OF assms(1-3)])
  have "unat writes < 2 ^ 32" using unsigned_less [of writes] by simp
  then have "flow_small (2 ^ 64) (ss, pl, ws)"
    using n assms(3) by (intro made_small [OF m]) (simp_all add: index_end_def)
  then show ?thesis using g assms(4) by simp
qed

lemma report_verdict:
  "report show_error outcome es = (case outcome of
     Some (Ok cycles) \<Rightarrow> (Some (Ok 0), es @ [Println (''Tx completes consuming '' @ show_u64 cycles @ '' cycles!'')])
   | Some (Err e) \<Rightarrow> (Some (Ok 1), es @ [Println (''Tx error occurs: '' @ show_error e)])
   | Some (Panic k) \<Rightarrow> (Some (Panic k), es)
   | None \<Rightarrow> (None, es))"
  by (simp add: report_def io_defs split: option.splits res.splits)

section \<open>Properties\<close>

text \<open>
  The printed numbers are the numbers of the dataflow: \<open>vm_index_to_u64\<close> and \<open>pipe_index_to_u64\<close> undo
  \<open>build_vm_index\<close> and \<open>build_pipe_index\<close>, and never panic on an index of 8 bytes, from which the builders
  make the same bytes again.
\<close>

lemma index_round_trip:
  assumes "index_wf i"
  shows "vm_index_to_u64 (build_vm_index v) = Verified v \<and> pipe_index_to_u64 (build_pipe_index v) = Verified v \<and>
    (\<exists>n. vm_index_to_u64 i = Verified n \<and> build_vm_index n = i) \<and>
    (\<exists>n. pipe_index_to_u64 i = Verified n \<and> build_pipe_index n = i)"
  using assms
  by (simp add: vm_index_to_u64_def pipe_index_to_u64_def built_index_bytes to_le_bytes_nth(1) from_to_le_bytes
      index_wf_def to_from_le_bytes)

text \<open>
  C23: \<open>dag_generator\<close> from start to end: for every seed it prints the seed and one line per pipe, spawn and
  write of the dataflow generated from that seed, with its numbers, dumps the transaction if told to, and
  runs exactly the transaction built from the seed plus 10 (wrapping), the test program and the encoded
  dataflow. The exit code is 0 and the cycles are printed if \<open>verify_tx\<close> accepts, 1 after an error.
\<close>

theorem generator_main_reports:
  assumes "number_format num" and "dag_laws lib nodes edges" and "rng_contract rnd" and "unat (spawns_arg args) < index_end"
    and "seed_arg args = Some seed"
    and "generate_dataflow lib rnd seed (spawns_arg args) (writes_arg args) (threshold_arg args) = Some (Ok flow)"
    and "length (Data_encode num (dag_of_dataflow flow)) < 2 ^ 32"
    and "read_file w (test_contract_path args) = Some code"
    and "m = build_mock_tx ckb rnd (seed + 10) code (Data_encode num (dag_of_dataflow flow))"
    and "dump_tx w (output_tx_file args) m [] = (Some (Ok ()), dumped)"
  shows "dag_generator_main num lib rnd ckb slib w args [] =
    (let shown = map Println ((''Seed: '' @ decimal (unat seed)) # flow_report flow) @ dumped
     in case verify_tx slib m (max_cycles_arg args) (max_cycles_arg args) (max_cycles_arg args) of
          Some (Ok cycles) \<Rightarrow> (Some (Ok 0), shown @ [Println (''Tx completes consuming '' @ show_u64 cycles @ '' cycles!'')])
        | Some (Err e) \<Rightarrow> (Some (Ok 1), shown @ [Println (''Tx error occurs: '' @ error_debug w e)])
        | Some (Panic k) \<Rightarrow> (Some (Panic k), shown)
        | None \<Rightarrow> (None, shown))"
proof -
  let ?data = "Data_encode num (dag_of_dataflow flow)"
  have data: "generate_data_graph num lib rnd seed (spawns_arg args) (writes_arg args) (threshold_arg args) = Some (Ok ?data)"
    using assms(6) by (simp add: generate_data_graph_def obind_def returned_def)
  have ok: "DataReader_verify num ?data False = Verified ()" "Data_decode num ?data = Verified (dag_of_dataflow flow)"
    using entity.built [OF Data_entity [OF assms(1)] dag_of_dataflow_wf assms(7)] by auto
  have dump: "dump_tx w (output_tx_file args) m es = (Some (Ok ()), es @ dumped)" for es
    using assms(10) by (auto simp: dump_tx_def io_defs unwrapped_def asserted_def split: option.splits if_splits)
  show ?thesis
    using print_data_lines [OF assms(1) ok] flow_report_printed [OF generated_small [OF assms(2-4,6)]]
    by (simp add: dag_generator_main_def io_defs assms(5,8) returned_def data expected_def unwrapped_def dump report_verdict
        Let_def show_u64_def flip: assms(9) split: option.splits res.splits)
qed


text \<open>Running programs on the sample machine: one group, which exits with code 0 after 2 cycles.\<close>

definition demo_runs :: "(packed_tree mock_transaction, unit, nat, toy, unit, toy, toy_action list, unit, nat) script_library" where
  "demo_runs = \<lparr>resolve_tx = \<lambda>_. Some (), script_groups = \<lambda>_. [0], extract_script = \<lambda>_ _. Some [7],
     group_data = \<lambda>_ _ code. sample_tx\<lparr>program := code\<rparr>, group_env = \<lambda>_ _. toy_env True (\<lambda>_. [TExit 0])\<rparr>"

definition demo_world :: "(packed_tree, packed_tree mock_transaction) world" where
  "demo_world = \<lparr>clock_nanos = None, read_file = \<lambda>_. Some [1, 2, 3],
     read_text = \<lambda>_. Some (build_mock_tx tree_types counter_rng 1 [1] [2]), read_stdin = None, tx_of_json = Some,
     json_of_tx = \<lambda>_. None, can_write = \<lambda>_ _. True, error_display = \<lambda>_. ''error'', error_debug = \<lambda>_. ''Error''\<rparr>"

lemma demo_runs_accepts: "verify_tx demo_runs m 100 100 100 = Some (Ok 2)"
proof -
  have "suspend_if_due exit_env demo_code 100 0 (sched_new demo_code) = Ok (0, sched_new demo_code)"
    by (simp add: suspend_if_due_def sub_u64_def consumed_cycles_def sched_new_def ret_def word_le_nat_alt)
  then have "verify_group exit_env demo_code 100 100 100 0 0 (sched_new demo_code) = Some (Ok 2)"
    by (subst verify_group.simps) (auto simp: demo_run add_u64_def ret_def word_less_nat_alt fresh_cycles)
  then show ?thesis
    by (simp add: verify_tx_def demo_runs_def demo_code_def [symmetric] Let_def)
qed

definition demo_args :: generator_args where
  "demo_args = generator_defaults\<lparr>seed_arg := Some 7, spawns_arg := 0, writes_arg := 0, max_cycles_arg := 100\<rparr>"

lemma empty_flow: "generate_dataflow list_dag counter_rng 7 0 0 2 = Some (Ok ([], [], []))"
proof -
  have 0: "unat (0 :: u32) < index_end" by (simp add: index_end_def)
  obtain ps W es ss pl ws where "generate_dataflow list_dag counter_rng 7 0 0 2 = Some (Ok (ss, pl, ws))"
    and m: "made_from ps W es (ss, pl, ws)" and n: "length ps = unat (0 :: u32)" "length W \<le> unat (0 :: u32)"
    by (rule generated_made [OF list_dag.dag_laws_axioms counter_rng_contract 0])
  moreover have "ss = []" "ws = []" "pl = []"
    using m n by (cases pl; auto simp: made_from_def)+
  ultimately show ?thesis by simp
qed

theorem generator_main_reports_witness:
  "dag_generator_main (le_codec True) list_dag counter_rng tree_types demo_runs demo_world demo_args [] =
   (Some (Ok 0), [Println (''Seed: '' @ decimal 7), Println (''Tx completes consuming '' @ show_u64 2 @ '' cycles!'')])"
proof -
  have "length (Data_encode (le_codec True) (dag_of_dataflow ([], [], []))) < 2 ^ 32"
    by (simp add: DataBuilder_build_def SpawnsBuilder_build_def PipesBuilder_build_def WritesBuilder_build_def
        le.length_table_write le.length_dynvec_write)
  from generator_main_reports [OF le.number_format_axioms list_dag.dag_laws_axioms counter_rng_contract _ _ _ this _ refl,
      where args = demo_args and seed = 7 and w = demo_world and code = "[1, 2, 3]" and ckb = tree_types
      and dumped = "[]" and slib = demo_runs]
  show ?thesis
    by (simp add: demo_args_def generator_defaults_def demo_world_def empty_flow index_end_def dump_tx_def await_def
        demo_runs_accepts)
qed


end
